(* ===== verification/Workflow_Types.thy ===== *)
theory Workflow_Types
  imports JS_Prelude
begin

text \<open>
  The data model of \<open>packages/workflow/src/interfaces.ts\<close>: nodes, connections, items, run data
  and the state of an execution, as records with the fields of the interfaces.

  \<^item> Optional properties are \<open>option\<close> fields. Dictionaries are association lists in
    insertion order (\<open>jsmap\<close>).
  \<^item> The \<open>===\<close> of two objects is object identity. A node therefore carries the identity
    of its object, \<open>oid\<close>: two objects with equal contents are different values.
  \<^item> JavaScript numbers that count or index are \<open>nat\<close>; node versions are rationals.
  \<^item> An array slot that may be \<open>null\<close>, or never written (\<open>undefined\<close>), is a \<open>cell\<close>:
    the engine tells the two apart, since \<open>undefined === null\<close> is false.
\<close>

datatype json =
    JUndefined
  | JNull
  | JBool bool
  | JNum rat
  | JStr string
  | JArr "json list"
  | JObj "(string \<times> json) list"

datatype 'a cell = Hole | Null | Val 'a

text \<open>JavaScript's \<open>x ?? null\<close> on a slot.\<close>

primrec cell_val :: "'a cell \<Rightarrow> 'a option" where
  "cell_val Hole = None"
| "cell_val Null = None"
| "cell_val (Val x) = Some x"

text \<open>
  Reading past the end of an array gives \<open>undefined\<close>; writing there extends it with slots
  that were never written.
\<close>

definition cell_get :: "'a cell list \<Rightarrow> nat \<Rightarrow> 'a cell" where
  "cell_get xs i = (if i < length xs then xs ! i else Hole)"

definition cell_set :: "'a cell list \<Rightarrow> nat \<Rightarrow> 'a cell \<Rightarrow> 'a cell list" where
  "cell_set xs i v = (xs @ replicate (Suc i - length xs) Hole)[i := v]"

lemma length_cell_set: "length (cell_set xs i v) = max (length xs) (Suc i)"
  by (auto simp: cell_set_def)

lemma cell_get_set [simp]: "cell_get (cell_set xs i v) j = (if j = i then v else cell_get xs j)"
  by (auto simp: cell_get_def cell_set_def nth_list_update nth_append)

section \<open>Nodes and connections\<close>

datatype NodeConnectionType =
    AiAgent | AiChain | AiDocument | AiEmbedding | AiLanguageModel | AiMemory | AiOutputParser
  | AiRetriever | AiReranker | AiTextSplitter | AiTool | AiVectorStore | Main

fun connection_type_name :: "NodeConnectionType \<Rightarrow> string" where
  "connection_type_name AiAgent = ''ai_agent''"
| "connection_type_name AiChain = ''ai_chain''"
| "connection_type_name AiDocument = ''ai_document''"
| "connection_type_name AiEmbedding = ''ai_embedding''"
| "connection_type_name AiLanguageModel = ''ai_languageModel''"
| "connection_type_name AiMemory = ''ai_memory''"
| "connection_type_name AiOutputParser = ''ai_outputParser''"
| "connection_type_name AiRetriever = ''ai_retriever''"
| "connection_type_name AiReranker = ''ai_reranker''"
| "connection_type_name AiTextSplitter = ''ai_textSplitter''"
| "connection_type_name AiTool = ''ai_tool''"
| "connection_type_name AiVectorStore = ''ai_vectorStore''"
| "connection_type_name Main = ''main''"

lemma connection_type_name_inject [simp]:
  "connection_type_name a = connection_type_name b \<longleftrightarrow> a = b"
  by (cases a; cases b; simp)

lemma connection_type_no_dash [simp]: "CHR ''-'' \<notin> set (connection_type_name t)"
  by (cases t) auto

datatype OnError = ContinueErrorOutput | ContinueRegularOutput | StopWorkflow

type_synonym INodeParameters = "(string, json) jsmap"

record INode =
  oid :: nat
  node_id :: string
  node_name :: string
  typeVersion :: rat
  node_type :: string
  position :: "int \<times> int"
  disabled :: "bool option"
  node_notes :: "string option"
  notesInFlow :: "bool option"
  retryOnFail :: "bool option"
  maxTries :: "nat option"
  waitBetweenTries :: "int option"
  alwaysOutputData :: "bool option"
  executeOnce :: "bool option"
  onError :: "OnError option"
  continueOnFail :: "bool option"
  parameters :: INodeParameters
  credentials :: "(string, json) jsmap option"
  webhookId :: "string option"
  extendsCredential :: "string option"
  rewireOutputLogTo :: "NodeConnectionType option"
  forceCustomOperation :: "(string \<times> string) option"

text \<open>A node object with the given identity, name and type and every optional property absent.\<close>

definition new_INode :: "nat \<Rightarrow> string \<Rightarrow> string \<Rightarrow> INode" where
  "new_INode i nm ty =
     \<lparr>oid = i, node_id = nm, node_name = nm, typeVersion = 1, node_type = ty,
      position = (0, 0), disabled = None, node_notes = None, notesInFlow = None, retryOnFail = None,
      maxTries = None, waitBetweenTries = None, alwaysOutputData = None, executeOnce = None,
      onError = None, continueOnFail = None, parameters = [], credentials = None,
      webhookId = None, extendsCredential = None, rewireOutputLogTo = None,
      forceCustomOperation = None\<rparr>"

lemma new_INode_sel [simp]:
  "oid (new_INode i nm ty) = i"
  "node_name (new_INode i nm ty) = nm"
  "node_type (new_INode i nm ty) = ty"
  "disabled (new_INode i nm ty) = None"
  by (simp_all add: new_INode_def)

lemma new_INode_inject [simp]:
  "new_INode i nm ty = new_INode j nm' ty' \<longleftrightarrow> i = j \<and> nm = nm' \<and> ty = ty'"
  by (auto simp: new_INode_def)

record IConnection =
  conn_node :: string
  conn_type :: NodeConnectionType
  conn_index :: nat

type_synonym NodeInputConnections = "IConnection list cell list"
type_synonym INodeConnections = "(NodeConnectionType, NodeInputConnections) jsmap"
type_synonym IConnections = "(string, INodeConnections) jsmap"

record INodeConnection =
  sourceIndex :: nat
  destinationIndex :: nat

record IConnectedNode =
  cn_name :: string
  cn_indicies :: "nat list"
  cn_depth :: nat

section \<open>Items and run data\<close>

record ISourceData =
  previousNode :: string
  previousNodeOutput :: "nat option"
  previousNodeRun :: "nat option"

record IPairedItemData =
  paired_item :: nat
  paired_input :: "nat option"
  sourceOverwrite :: "ISourceData option"

datatype paired_item_info =
    PairedNumber nat
  | PairedOne IPairedItemData
  | PairedMany "IPairedItemData list"

record ExecutionError =
  err_name :: string
  err_message :: string
  err_stack :: "string option"
  err_description :: "string option"

record INodeExecutionData =
  item_json :: "(string, json) jsmap"
  item_binary :: "json option"
  item_error :: "json option"
  pairedItem :: "paired_item_info option"
  item_metadata :: "json option"
  item_index :: "nat option"

definition json_item :: "(string, json) jsmap \<Rightarrow> INodeExecutionData" where
  "json_item j = \<lparr>item_json = j, item_binary = None, item_error = None, pairedItem = None,
     item_metadata = None, item_index = None\<rparr>"

type_synonym items = "INodeExecutionData list"

type_synonym ITaskDataConnections = "(NodeConnectionType, items cell list) jsmap"
type_synonym ITaskDataConnectionsSource = "(NodeConnectionType, ISourceData cell list) jsmap"
type_synonym IWaitingForExecution = "(string, (nat, ITaskDataConnections) jsmap) jsmap"
type_synonym IWaitingForExecutionSource = "(string, (nat, ITaskDataConnectionsSource) jsmap) jsmap"
type_synonym IPinData = "(string, items) jsmap"

datatype ExecutionStatus =
    Canceled | Crashed | Error | New | Running | Success | Unknown | Waiting

record ITaskData =
  startTime :: int
  executionIndex :: "int option"
  task_source :: "ISourceData cell list"
  hints :: "string list"
  executionTime :: int
  executionStatus :: "ExecutionStatus option"
  task_data :: "ITaskDataConnections option"
  inputOverride :: "ITaskDataConnections option"
  task_error :: "ExecutionError option"
  task_metadata :: "(string, json) jsmap option"

type_synonym IRunData = "(string, ITaskData list) jsmap"

record IExecuteData =
  exec_data :: ITaskDataConnections
  exec_metadata :: "(string, json) jsmap option"
  exec_node :: INode
  exec_source :: "ITaskDataConnectionsSource option"

datatype WorkflowExecuteMode =
    ModeCli | ModeError | ModeIntegrated | ModeInternal | ModeManual | ModeRetry | ModeTrigger
  | ModeWebhook | ModeEvaluation

end
