(* ===== verification/Graph_Traversal.thy ===== *)
theory Graph_Traversal
  imports JS_Prelude
begin

text \<open>
  Recursive graph traversals. The code walks graphs with functions that take a growing set of
  visited elements, skip an element that is already in it, add it otherwise and recurse on its
  successors before they go on with the next sibling. The locale \<open>dfs_traversal\<close> is that
  contract (the two equations of the loop and the induction rule of its recursion); inside it
  the result is characterised as the reachable set. \<open>dfs_search\<close> is the variant that stops at
  the first element that satisfies a predicate. \<open>trav_rel\<close> is the relation that the
  termination proofs of the concrete traversals use.
\<close>

definition trav_rel :: "'a set \<Rightarrow> (('a list \<times> 'a list) \<times> ('a list \<times> 'a list)) set" where
  "trav_rel U =
     inv_image (finite_psubset <*lex*> less_than <*lex*> less_than)
       (\<lambda>(xs, seen). (U - set seen, length (filter (\<lambda>x. x \<notin> U) xs), length xs))"

lemma wf_trav_rel [simp, intro]: "wf (trav_rel U)"
  by (auto simp: trav_rel_def)

lemma trav_rel_sibling:
  assumes "finite U" "set seen \<subseteq> set seen'"
  shows "((xs, seen'), (x # xs, seen)) \<in> trav_rel U"
proof (cases "U - set seen' = U - set seen")
  case True
  then show ?thesis by (auto simp: trav_rel_def)
next
  case False
  with assms show ?thesis by (auto simp: trav_rel_def finite_psubset_def)
qed

lemma trav_rel_child:
  assumes "finite U" "x \<notin> set seen" "x \<notin> U \<Longrightarrow> set ys \<subseteq> U"
  shows "((ys, seen @ [x]), (x # xs, seen)) \<in> trav_rel U"
proof (cases "x \<in> U")
  case True
  with assms show ?thesis by (auto simp: trav_rel_def finite_psubset_def)
next
  case False
  with assms have "filter (\<lambda>x. x \<notin> U) ys = []" by (auto simp: filter_empty_conv)
  moreover have "U - set (seen @ [x]) = U - set seen" using False by auto
  ultimately show ?thesis using False by (simp add: trav_rel_def)
qed

text \<open>The same for a traversal with a fixed parameter, such as the graph.\<close>

definition trav_par :: "('g \<Rightarrow> 'a set) \<Rightarrow>
    (('g \<times> 'a list \<times> 'a list) \<times> ('g \<times> 'a list \<times> 'a list)) set" where
  "trav_par U = same_fst (\<lambda>_. True) (\<lambda>g. trav_rel (U g))"

lemma wf_trav_par [simp, intro]: "wf (trav_par U)"
  by (auto simp: trav_par_def intro: wf_same_fst)

lemma trav_par_sibling:
  "finite (U g) \<Longrightarrow> set seen \<subseteq> set seen' \<Longrightarrow> ((g, xs, seen'), (g, x # xs, seen)) \<in> trav_par U"
  by (simp add: trav_par_def same_fst_def trav_rel_sibling)

lemma trav_par_child:
  "finite (U g) \<Longrightarrow> x \<notin> set seen \<Longrightarrow> (x \<notin> U g \<Longrightarrow> set ys \<subseteq> U g) \<Longrightarrow>
     ((g, ys, seen @ [x]), (g, x # xs, seen)) \<in> trav_par U"
  by (simp add: trav_par_def same_fst_def trav_rel_child)

text \<open>The edges that a successor function spans, where it does not throw.\<close>

definition res_edges :: "('a \<Rightarrow> 'e + 'a list) \<Rightarrow> ('a \<times> 'a) set" where
  "res_edges succs = {(x, y). \<exists>ys. succs x = Inr ys \<and> y \<in> set ys}"

section \<open>Collecting traversals\<close>

locale dfs_traversal =
  fixes visit :: "'a list \<Rightarrow> 'a list \<Rightarrow> 'e + 'a list"
    and succs :: "'a \<Rightarrow> 'e + 'a list"
  assumes visit_Nil: "visit [] seen = Inr seen"
    and visit_Cons: "visit (x # xs) seen =
      (if x \<in> set seen then visit xs seen
       else bind_res (succs x) (\<lambda>ys. bind_res (visit ys (seen @ [x])) (visit xs)))"
    and visit_induct: "\<And>P zs s0.
      (\<And>seen. P [] seen) \<Longrightarrow>
      (\<And>x xs seen.
         (x \<in> set seen \<Longrightarrow> P xs seen) \<Longrightarrow>
         (\<And>ys. x \<notin> set seen \<Longrightarrow> succs x = Inr ys \<Longrightarrow> P ys (seen @ [x])) \<Longrightarrow>
         (\<And>ys seen'. x \<notin> set seen \<Longrightarrow> succs x = Inr ys \<Longrightarrow>
            visit ys (seen @ [x]) = Inr seen' \<Longrightarrow> P xs seen') \<Longrightarrow>
         P (x # xs) seen) \<Longrightarrow>
      P zs s0"
begin

abbreviation edge :: "('a \<times> 'a) set" where
  "edge \<equiv> res_edges succs"

lemma edgeI: "succs x = Inr ys \<Longrightarrow> y \<in> set ys \<Longrightarrow> (x, y) \<in> edge"
  by (auto simp: res_edges_def)

text \<open>The visited set only grows, at its end, and stays free of duplicates.\<close>

lemma visit_extends: "visit xs seen = Inr r \<Longrightarrow> \<exists>new. r = seen @ new"
proof (induction xs seen arbitrary: r rule: visit_induct)
  case (1 seen)
  then show ?case by (simp add: visit_Nil)
next
  case (2 x xs seen)
  show ?case
  proof (cases "x \<in> set seen")
    case True
    with 2 show ?thesis by (simp add: visit_Cons)
  next
    case False
    with 2(4) obtain ys s' where s: "succs x = Inr ys" "visit ys (seen @ [x]) = Inr s'"
      "visit xs s' = Inr r" by (auto simp: visit_Cons bind_res_eq_Inr)
    obtain n1 where "s' = (seen @ [x]) @ n1" using 2(2) [OF False s(1) s(2)] by blast
    moreover obtain n2 where "r = s' @ n2" using 2(3) [OF False s] by blast
    ultimately show ?thesis by simp
  qed
qed

lemma visit_mono: "visit xs seen = Inr r \<Longrightarrow> set seen \<subseteq> set r"
  by (auto dest: visit_extends)

lemma visit_distinct: "visit xs seen = Inr r \<Longrightarrow> distinct seen \<Longrightarrow> distinct r"
proof (induction xs seen arbitrary: r rule: visit_induct)
  case (1 seen)
  then show ?case by (simp add: visit_Nil)
next
  case (2 x xs seen)
  show ?case
  proof (cases "x \<in> set seen")
    case True
    with 2 show ?thesis by (simp add: visit_Cons)
  next
    case False
    with 2(4) obtain ys s' where s: "succs x = Inr ys" "visit ys (seen @ [x]) = Inr s'"
      "visit xs s' = Inr r" by (auto simp: visit_Cons bind_res_eq_Inr)
    have "distinct s'" using 2(2) [OF False s(1) s(2)] 2(5) False by simp
    with 2(3) [OF False s] show ?thesis by simp
  qed
qed

lemma visit_covers: "visit xs seen = Inr r \<Longrightarrow> set xs \<subseteq> set r"
proof (induction xs seen arbitrary: r rule: visit_induct)
  case (1 seen)
  then show ?case by simp
next
  case (2 x xs seen)
  show ?case
  proof (cases "x \<in> set seen")
    case True
    with 2(4) have "visit xs seen = Inr r" by (simp add: visit_Cons)
    then show ?thesis using 2(1) [OF True] True visit_mono [of xs seen r] by auto
  next
    case False
    with 2(4) obtain ys s' where s: "succs x = Inr ys" "visit ys (seen @ [x]) = Inr s'"
      "visit xs s' = Inr r" by (auto simp: visit_Cons bind_res_eq_Inr)
    have "x \<in> set r" using visit_mono [OF s(2)] visit_mono [OF s(3)] by auto
    with 2(3) [OF False s] show ?thesis by simp
  qed
qed

lemma visit_sound: "visit xs seen = Inr r \<Longrightarrow> set r \<subseteq> set seen \<union> edge\<^sup>* `` set xs"
proof (induction xs seen arbitrary: r rule: visit_induct)
  case (1 seen)
  then show ?case by (simp add: visit_Nil)
next
  case (2 x xs seen)
  show ?case
  proof (cases "x \<in> set seen")
    case True
    with 2(4) have "visit xs seen = Inr r" by (simp add: visit_Cons)
    then show ?thesis using 2(1) [OF True] by auto
  next
    case False
    with 2(4) obtain ys s' where s: "succs x = Inr ys" "visit ys (seen @ [x]) = Inr s'"
      "visit xs s' = Inr r" by (auto simp: visit_Cons bind_res_eq_Inr)
    have "edge\<^sup>* `` set ys \<subseteq> edge\<^sup>* `` {x}"
      using s(1) by (auto intro: converse_rtrancl_into_rtrancl edgeI)
    with 2(2) [OF False s(1) s(2)] 2(3) [OF False s] show ?thesis by fastforce
  qed
qed

lemma visit_closed:
  "visit xs seen = Inr r \<Longrightarrow> y \<in> set r - set seen \<Longrightarrow> \<exists>zs. succs y = Inr zs \<and> set zs \<subseteq> set r"
proof (induction xs seen arbitrary: r rule: visit_induct)
  case (1 seen)
  then show ?case by (simp add: visit_Nil)
next
  case (2 x xs seen)
  show ?case
  proof (cases "x \<in> set seen")
    case True
    with 2 show ?thesis by (simp add: visit_Cons)
  next
    case False
    with 2(4) obtain ys s' where s: "succs x = Inr ys" "visit ys (seen @ [x]) = Inr s'"
      "visit xs s' = Inr r" by (auto simp: visit_Cons bind_res_eq_Inr)
    consider "y = x" | "y \<in> set s' - set (seen @ [x])" | "y \<in> set r - set s'"
      using 2(5) by auto
    then show ?thesis
    proof cases
      case 1
      with s visit_covers [OF s(2)] visit_mono [OF s(3)] show ?thesis by auto
    next
      case 2
      with "2.IH"(2) [OF False s(1) s(2)] visit_mono [OF s(3)] show ?thesis by blast
    next
      case 3
      with "2.IH"(3) [OF False s] show ?thesis by blast
    qed
  qed
qed

text \<open>Started with nothing visited, the traversal returns exactly the reachable elements.\<close>

theorem visit_reachable:
  assumes "visit xs [] = Inr r"
  shows "set r = edge\<^sup>* `` set xs" and "distinct r"
proof -
  have "edge\<^sup>* `` set r \<subseteq> set r"
  proof
    fix y assume "y \<in> edge\<^sup>* `` set r"
    then obtain x where "x \<in> set r" "(x, y) \<in> edge\<^sup>*" by auto
    from this(2,1) show "y \<in> set r"
    proof induction
      case (step y z)
      then show ?case using visit_closed [OF assms, of y] by (auto simp: res_edges_def)
    qed simp
  qed
  with visit_covers [OF assms] visit_sound [OF assms] show "set r = edge\<^sup>* `` set xs" by auto
  show "distinct r" using visit_distinct [OF assms] by simp
qed

text \<open>It throws only what the successors of a reachable element throw.\<close>

lemma visit_error:
  "visit xs seen = Inl e \<Longrightarrow> \<exists>x \<in> edge\<^sup>* `` set xs. succs x = Inl e"
proof (induction xs seen rule: visit_induct)
  case (1 seen)
  then show ?case by (simp add: visit_Nil)
next
  case (2 x xs seen)
  show ?case
  proof (cases "x \<in> set seen")
    case True
    with 2 show ?thesis by (auto simp: visit_Cons)
  next
    case False
    show ?thesis
    proof (cases "succs x")
      case (Inl e')
      with 2(4) False show ?thesis by (auto simp: visit_Cons)
    next
      case (Inr ys)
      have sub: "edge\<^sup>* `` set ys \<subseteq> edge\<^sup>* `` {x}"
        using Inr by (auto intro: converse_rtrancl_into_rtrancl edgeI)
      show ?thesis
      proof (cases "visit ys (seen @ [x])")
        case (Inl e')
        then have "e' = e" using 2(4) False Inr by (simp add: visit_Cons)
        with 2(2) [OF False Inr] Inl sub show ?thesis by fastforce
      next
        case r: (Inr s')
        then have "visit xs s' = Inl e" using 2(4) False Inr by (simp add: visit_Cons)
        with 2(3) [OF False Inr r] show ?thesis by auto
      qed
    qed
  qed
qed

lemma visit_total:
  "(\<And>x. x \<in> edge\<^sup>* `` set xs \<Longrightarrow> \<exists>ys. succs x = Inr ys) \<Longrightarrow> \<exists>r. visit xs seen = Inr r"
  using visit_error by (cases "visit xs seen") fastforce+

end

section \<open>Searching traversals\<close>

text \<open>
  The result pairs what was found with the visited set, because the set is shared between the
  branches of the search.
\<close>

locale dfs_search =
  fixes search :: "'a list \<Rightarrow> 'a list \<Rightarrow> 'e + ('a option \<times> 'a list)"
    and succs :: "'a \<Rightarrow> 'e + 'a list"
    and found :: "'a \<Rightarrow> bool"
  assumes search_Nil: "search [] seen = Inr (None, seen)"
    and search_Cons: "search (x # xs) seen =
      (if x \<in> set seen then search xs seen
       else if found x then Inr (Some x, seen @ [x])
       else bind_res (succs x) (\<lambda>ys. bind_res (search ys (seen @ [x]))
              (\<lambda>(r, seen'). case r of Some y \<Rightarrow> Inr (Some y, seen') | None \<Rightarrow> search xs seen')))"
    and search_induct: "\<And>P zs s0.
      (\<And>seen. P [] seen) \<Longrightarrow>
      (\<And>x xs seen.
         (x \<in> set seen \<Longrightarrow> P xs seen) \<Longrightarrow>
         (\<And>ys. x \<notin> set seen \<Longrightarrow> \<not> found x \<Longrightarrow> succs x = Inr ys \<Longrightarrow> P ys (seen @ [x])) \<Longrightarrow>
         (\<And>ys seen'. x \<notin> set seen \<Longrightarrow> \<not> found x \<Longrightarrow> succs x = Inr ys \<Longrightarrow>
            search ys (seen @ [x]) = Inr (None, seen') \<Longrightarrow> P xs seen') \<Longrightarrow>
         P (x # xs) seen) \<Longrightarrow>
      P zs s0"
begin

abbreviation edge :: "('a \<times> 'a) set" where
  "edge \<equiv> res_edges succs"

lemma edge_closure: "succs x = Inr ys \<Longrightarrow> edge\<^sup>* `` set ys \<subseteq> edge\<^sup>* `` {x}"
  by (auto intro: converse_rtrancl_into_rtrancl simp: res_edges_def)

lemma search_found: "search xs seen = Inr (Some y, s') \<Longrightarrow> found y \<and> y \<in> edge\<^sup>* `` set xs"
proof (induction xs seen arbitrary: s' rule: search_induct)
  case (1 seen)
  then show ?case by (simp add: search_Nil)
next
  case (2 x xs seen)
  consider "x \<in> set seen" | "x \<notin> set seen" "found x" | "x \<notin> set seen" "\<not> found x" by blast
  then show ?case
  proof cases
    case 1
    with 2 show ?thesis by (auto simp: search_Cons)
  next
    case 2
    with "2.prems" show ?thesis by (auto simp: search_Cons)
  next
    case 3
    with 2(4) obtain ys r s1 where s: "succs x = Inr ys" "search ys (seen @ [x]) = Inr (r, s1)"
      and rest: "(case r of Some z \<Rightarrow> Inr (Some z, s1) | None \<Rightarrow> search xs s1) = Inr (Some y, s')"
      by (auto simp: search_Cons bind_res_eq_Inr)
    show ?thesis
    proof (cases r)
      case None
      with 2(3) [OF 3 s(1)] s rest show ?thesis by fastforce
    next
      case (Some z)
      with 2(2) [OF 3 s(1)] s rest edge_closure [OF s(1)] show ?thesis by fastforce
    qed
  qed
qed

lemma search_None:
  "search xs seen = Inr (None, s') \<Longrightarrow>
     set seen \<union> set xs \<subseteq> set s' \<and>
     (\<forall>y \<in> set s' - set seen. \<not> found y \<and> (\<exists>zs. succs y = Inr zs \<and> set zs \<subseteq> set s'))"
proof (induction xs seen arbitrary: s' rule: search_induct)
  case (1 seen)
  then show ?case by (simp add: search_Nil)
next
  case (2 x xs seen)
  show ?case
  proof (cases "x \<in> set seen")
    case True
    with 2 show ?thesis by (auto simp: search_Cons)
  next
    case False
    with 2(4) have nf: "\<not> found x" by (auto simp: search_Cons)
    with False 2(4) obtain ys s1 where s: "succs x = Inr ys" "search ys (seen @ [x]) = Inr (None, s1)"
      "search xs s1 = Inr (None, s')"
      by (auto simp: search_Cons bind_res_eq_Inr split: option.splits)
    note a = 2(2) [OF False nf s(1) s(2)] and b = 2(3) [OF False nf s]
    have "\<not> found y \<and> (\<exists>zs. succs y = Inr zs \<and> set zs \<subseteq> set s')"
      if y: "y \<in> set s' - set seen" for y
    proof -
      consider "y = x" | "y \<in> set s1 - set (seen @ [x])" | "y \<in> set s' - set s1"
        using y by auto
      then show ?thesis using a b s(1) nf by cases (blast+)
    qed
    with a b show ?thesis by auto
  qed
qed

theorem search_complete:
  assumes "search xs [] = Inr (None, s')" and "y \<in> edge\<^sup>* `` set xs"
  shows "\<not> found y"
proof -
  note n = search_None [OF assms(1)]
  obtain x where "x \<in> set xs" "(x, y) \<in> edge\<^sup>*" using assms(2) by auto
  from this(2,1) have "y \<in> set s'"
  proof induction
    case (step y z)
    then obtain zs where "succs y = Inr zs" "set zs \<subseteq> set s'" using n by fastforce
    with step show ?case by (auto simp: res_edges_def)
  qed (use n in auto)
  with n show ?thesis by auto
qed

lemma search_error: "search xs seen = Inl e \<Longrightarrow> \<exists>x \<in> edge\<^sup>* `` set xs. succs x = Inl e"
proof (induction xs seen rule: search_induct)
  case (1 seen)
  then show ?case by (simp add: search_Nil)
next
  case (2 x xs seen)
  show ?case
  proof (cases "x \<in> set seen")
    case True
    with 2 show ?thesis by (auto simp: search_Cons)
  next
    case False
    with 2(4) have nf: "\<not> found x" by (auto simp: search_Cons)
    show ?thesis
    proof (cases "succs x")
      case (Inl e')
      with 2(4) False nf show ?thesis by (auto simp: search_Cons)
    next
      case (Inr ys)
      show ?thesis
      proof (cases "search ys (seen @ [x])")
        case (Inl e')
        then have "e' = e" using 2(4) False nf Inr by (simp add: search_Cons)
        with 2(2) [OF False nf Inr] Inl edge_closure [OF Inr] show ?thesis by fastforce
      next
        case r: (Inr p)
        obtain s1 where p: "p = (None, s1)" and "search xs s1 = Inl e"
          using 2(4) False nf Inr r by (cases p) (auto simp: search_Cons split: option.splits)
        with 2(3) [OF False nf Inr] r show ?thesis by auto
      qed
    qed
  qed
qed

end

section \<open>Bypassing a vertex\<close>

text \<open>
  The edge relation after a vertex is taken out and each of its predecessors is connected to
  each of its successors: paths between the other vertices are kept, in both directions.
\<close>

definition bypass :: "'a \<Rightarrow> ('a \<times> 'a) set \<Rightarrow> ('a \<times> 'a) set" where
  "bypass n E = {(a, b) \<in> E. a \<noteq> n \<and> b \<noteq> n} \<union> {(a, b). (a, n) \<in> E \<and> (n, b) \<in> E}"

lemma bypass_sub_trancl: "bypass n E \<subseteq> E\<^sup>+"
  by (auto simp: bypass_def)

lemma trancl_into_bypass:
  assumes "(a, x) \<in> E\<^sup>+" "a \<noteq> n"
  shows "if x = n then \<exists>y. y \<noteq> n \<and> (y, n) \<in> E \<and> (a, y) \<in> (bypass n E)\<^sup>*
         else (a, x) \<in> (bypass n E)\<^sup>+"
  using assms
proof (induction rule: trancl_induct)
  case (base y)
  then show ?case by (auto simp: bypass_def)
next
  case (step y z)
  show ?case
  proof (cases "y = n")
    case True
    with step obtain w where w: "w \<noteq> n" "(w, n) \<in> E" "(a, w) \<in> (bypass n E)\<^sup>*" by auto
    show ?thesis
    proof (cases "z = n")
      case True
      with w show ?thesis by auto
    next
      case False
      with w step(2) True have "(w, z) \<in> bypass n E" by (auto simp: bypass_def)
      with w False show ?thesis by auto
    qed
  next
    case False
    with step have ay: "(a, y) \<in> (bypass n E)\<^sup>+" by auto
    show ?thesis
    proof (cases "z = n")
      case True
      with False ay step(2) show ?thesis by (auto dest: trancl_into_rtrancl)
    next
      case z: False
      with False step(2) have "(y, z) \<in> bypass n E" by (auto simp: bypass_def)
      with ay z show ?thesis by auto
    qed
  qed
qed

lemma trancl_bypass:
  assumes "a \<noteq> n" "b \<noteq> n"
  shows "(a, b) \<in> (bypass n E)\<^sup>+ \<longleftrightarrow> (a, b) \<in> E\<^sup>+"
proof
  assume "(a, b) \<in> (bypass n E)\<^sup>+"
  then have "(a, b) \<in> (E\<^sup>+)\<^sup>+" by (rule trancl_mono) (rule bypass_sub_trancl)
  then show "(a, b) \<in> E\<^sup>+" by simp
next
  assume "(a, b) \<in> E\<^sup>+"
  with assms trancl_into_bypass [of a b E n] show "(a, b) \<in> (bypass n E)\<^sup>+" by simp
qed

lemma acyclic_bypass:
  assumes "acyclic E"
  shows "acyclic (bypass n E)"
  unfolding acyclic_def
proof (intro allI notI)
  fix x assume "(x, x) \<in> (bypass n E)\<^sup>+"
  then have "(x, x) \<in> (E\<^sup>+)\<^sup>+" by (rule trancl_mono) (rule bypass_sub_trancl)
  with assms show False by (simp add: acyclic_def)
qed

lemma bypass_restrict:
  "n \<in> D \<Longrightarrow> (n, n) \<notin> E \<Longrightarrow>
     bypass n E \<inter> (D - {n}) \<times> (D - {n}) = bypass n (E \<inter> D \<times> D)"
  by (auto simp: bypass_def)

section \<open>Walks\<close>

text \<open>
  A walk lists the vertices after its start. Whatever can be reached in \<open>k\<close> steps can be reached by
  a walk of at most \<open>k\<close> steps that repeats no vertex.
\<close>

fun walk :: "('a \<times> 'a) set \<Rightarrow> 'a \<Rightarrow> 'a list \<Rightarrow> 'a \<Rightarrow> bool" where
  "walk E a [] b = (a = b)"
| "walk E a (x # xs) b = ((a, x) \<in> E \<and> walk E x xs b)"

lemma walk_append: "walk E a (xs @ ys) b \<longleftrightarrow> (\<exists>c. walk E a xs c \<and> walk E c ys b)"
  by (induction xs arbitrary: a) auto

lemma walk_prefix:
  "walk E a xs b \<Longrightarrow> c \<in> set (a # xs) \<Longrightarrow> \<exists>ys zs. xs = ys @ zs \<and> walk E a ys c"
proof (induction xs arbitrary: a)
  case (Cons x xs)
  show ?case
  proof (cases "c = a")
    case True
    then show ?thesis by (intro exI [of _ "[]"] exI [of _ "x # xs"]) simp
  next
    case False
    with Cons.prems Cons.IH [of x] obtain ys zs where "xs = ys @ zs" "walk E x ys c" by auto
    with Cons.prems show ?thesis by (intro exI [of _ "x # ys"] exI [of _ zs]) simp
  qed
qed auto

lemma relpow_simple_walk:
  "(a, b) \<in> E ^^ k \<Longrightarrow> \<exists>xs. walk E a xs b \<and> distinct (a # xs) \<and> length xs \<le> k"
proof (induction k arbitrary: b)
  case 0
  then show ?case by (intro exI [of _ "[]"]) simp
next
  case (Suc k)
  then obtain c where c: "(a, c) \<in> E ^^ k" "(c, b) \<in> E" by auto
  from Suc.IH [OF c(1)] obtain xs where xs: "walk E a xs c" "distinct (a # xs)" "length xs \<le> k" by blast
  show ?case
  proof (cases "b \<in> set (a # xs)")
    case True
    from walk_prefix [OF xs(1) True] obtain ys zs where "xs = ys @ zs" "walk E a ys b" by blast
    with xs show ?thesis by (intro exI [of _ ys]) auto
  next
    case False
    with xs c(2) show ?thesis by (intro exI [of _ "xs @ [b]"]) (auto simp: walk_append)
  qed
qed

end
