(* ===== verification/Directed_Graph.thy ===== *)
theory Directed_Graph
  imports Workflow_Types Graph_Traversal
begin

text \<open>
  The class \<open>DirectedGraph\<close> of
  \<open>packages/core/src/execution-engine/partial-execution-utils/directed-graph.ts\<close>: a map of nodes
  by name and a map of connections by the key that \<open>makeKey\<close> builds. Methods that mutate
  return the new graph; methods with assertions return a \<open>result\<close>.

  \<open>graph_wf\<close> is the class invariant. The lemmas show which operations keep it, that
  \<open>makeKey\<close> identifies a connection when source names have no dash, and what the recursive
  queries return.
\<close>

record GraphConnection =
  from_node :: INode
  to_node :: INode
  gc_type :: NodeConnectionType
  outputIndex :: nat
  inputIndex :: nat

record DirectedGraph =
  g_nodes :: "(string, INode) jsmap"
  g_connections :: "(string, GraphConnection) jsmap"

definition empty_graph :: DirectedGraph where
  "empty_graph = \<lparr>g_nodes = [], g_connections = []\<rparr>"

definition makeKey :: "GraphConnection \<Rightarrow> string" where
  "makeKey c = node_name (from_node c) @ ''-'' @ connection_type_name (gc_type c) @ ''-''
     @ show_nat (outputIndex c) @ ''-'' @ show_nat (inputIndex c) @ ''-'' @ node_name (to_node c)"

definition hasNode :: "DirectedGraph \<Rightarrow> string \<Rightarrow> bool" where
  "hasNode g nm = map_has (g_nodes g) nm"

text \<open>\<open>[...graph.getNodes().values()]\<close> and \<open>[...connections.values()]\<close>.\<close>

definition getNodes :: "DirectedGraph \<Rightarrow> INode list" where
  "getNodes g = map_values (g_nodes g)"

definition getNodesByNames :: "DirectedGraph \<Rightarrow> string list \<Rightarrow> INode list" where
  "getNodesByNames g names =
     fold (\<lambda>nm nodes. case map_get (g_nodes g) nm of None \<Rightarrow> nodes | Some n \<Rightarrow> set_add n nodes)
       names []"

definition getConnections :: "DirectedGraph \<Rightarrow> INode option \<Rightarrow> GraphConnection list" where
  "getConnections g to =
     filter (\<lambda>c. case to of None \<Rightarrow> True | Some n \<Rightarrow> to_node c = n) (map_values (g_connections g))"

definition addNode :: "INode \<Rightarrow> DirectedGraph \<Rightarrow> DirectedGraph" where
  "addNode n g = g\<lparr>g_nodes := map_set (node_name n) n (g_nodes g)\<rparr>"

definition addNodes :: "INode list \<Rightarrow> DirectedGraph \<Rightarrow> DirectedGraph" where
  "addNodes ns g = fold addNode ns g"

text \<open>\<open>this.nodes.get(node.name) === node\<close>.\<close>

definition nodeExists :: "DirectedGraph \<Rightarrow> INode \<Rightarrow> bool" where
  "nodeExists g n = (map_get (g_nodes g) (node_name n) = Some n)"

definition getDirectChildConnections :: "DirectedGraph \<Rightarrow> INode \<Rightarrow> GraphConnection list result" where
  "getDirectChildConnections g n =
     bind_res (assert_res (nodeExists g n))
       (\<lambda>_. Inr (filter (\<lambda>c. from_node c = n) (map_values (g_connections g))))"

definition getDirectParentConnections :: "DirectedGraph \<Rightarrow> INode \<Rightarrow> GraphConnection list result" where
  "getDirectParentConnections g n =
     bind_res (assert_res (nodeExists g n))
       (\<lambda>_. Inr (filter (\<lambda>c. to_node c = n) (map_values (g_connections g))))"

text \<open>\<open>this.connections.set(this.makeKey(connection), connection)\<close>.\<close>

definition set_connection :: "GraphConnection \<Rightarrow> DirectedGraph \<Rightarrow> DirectedGraph" where
  "set_connection c g = g\<lparr>g_connections := map_set (makeKey c) c (g_connections g)\<rparr>"

text \<open>\<open>addConnection\<close>: the optional properties of its argument are the \<open>option\<close> parameters.\<close>

definition addConnection ::
  "INode \<Rightarrow> INode \<Rightarrow> NodeConnectionType option \<Rightarrow> nat option \<Rightarrow> nat option \<Rightarrow> DirectedGraph
     \<Rightarrow> DirectedGraph result" where
  "addConnection from to ty oi ii g =
     bind_res (assert_res (nodeExists g from)) (\<lambda>_.
     bind_res (assert_res (nodeExists g to)) (\<lambda>_.
       let c = \<lparr>from_node = from, to_node = to,
                gc_type = (case ty of None \<Rightarrow> Main | Some t \<Rightarrow> t),
                outputIndex = (case oi of None \<Rightarrow> 0 | Some i \<Rightarrow> i),
                inputIndex = (case ii of None \<Rightarrow> 0 | Some i \<Rightarrow> i)\<rparr>
       in Inr (set_connection c g)))"

text \<open>\<open>addConnection\<close> called with a whole connection object.\<close>

abbreviation addGraphConnection :: "DirectedGraph \<Rightarrow> GraphConnection \<Rightarrow> DirectedGraph result" where
  "addGraphConnection g c \<equiv>
     addConnection (from_node c) (to_node c) (Some (gc_type c)) (Some (outputIndex c))
       (Some (inputIndex c)) g"

definition addConnections :: "GraphConnection list \<Rightarrow> DirectedGraph \<Rightarrow> DirectedGraph result" where
  "addConnections cs g = fold_res addGraphConnection g cs"

text \<open>The deletion loop shared by both branches of \<open>removeNode\<close>.\<close>

definition drop_connections :: "INode \<Rightarrow> DirectedGraph \<Rightarrow> DirectedGraph" where
  "drop_connections n g =
     g\<lparr>g_connections :=
        filter (\<lambda>(k, c). \<not> (to_node c = n \<or> from_node c = n)) (g_connections g)\<rparr>"

text \<open>The connections that replace the node: every kept parent with every kept child.\<close>

definition bridge_connections ::
  "(GraphConnection \<Rightarrow> bool) \<Rightarrow> GraphConnection list \<Rightarrow> GraphConnection list \<Rightarrow> GraphConnection list"
where
  "bridge_connections skip ins outs =
     concat (map (\<lambda>i. map (\<lambda>out. i\<lparr>to_node := to_node out, inputIndex := inputIndex out\<rparr>)
                       (filter (\<lambda>out. \<not> skip out) outs))
                 (filter (\<lambda>i. \<not> skip i) ins))"

definition removeNode :: "INode \<Rightarrow> DirectedGraph \<Rightarrow> DirectedGraph" where
  "removeNode n g =
     (let g' = drop_connections n g in g'\<lparr>g_nodes := map_delete (node_name n) (g_nodes g')\<rparr>)"

definition removeNodeReconnect ::
  "(GraphConnection \<Rightarrow> bool) \<Rightarrow> INode \<Rightarrow> DirectedGraph
     \<Rightarrow> (GraphConnection list \<times> DirectedGraph) result" where
  "removeNodeReconnect skip n g =
     bind_res (getDirectParentConnections g n) (\<lambda>ins.
     bind_res (getDirectChildConnections g n) (\<lambda>outs.
       let new = bridge_connections skip ins outs;
           g1 = drop_connections n g;
           g2 = fold set_connection new g1
       in Inr (new, g2\<lparr>g_nodes := map_delete (node_name n) (g_nodes g2)\<rparr>)))"

definition getConnection ::
  "DirectedGraph \<Rightarrow> INode \<Rightarrow> nat \<Rightarrow> NodeConnectionType \<Rightarrow> nat \<Rightarrow> INode \<Rightarrow> GraphConnection option"
where
  "getConnection g from oi ty ii to =
     map_get (g_connections g)
       (makeKey \<lparr>from_node = from, to_node = to, gc_type = ty, outputIndex = oi, inputIndex = ii\<rparr>)"

definition clone :: "DirectedGraph \<Rightarrow> DirectedGraph result" where
  "clone g = addConnections (getConnections g None) (addNodes (getNodes g) empty_graph)"

section \<open>The class invariant\<close>

definition graph_wf :: "DirectedGraph \<Rightarrow> bool" where
  "graph_wf g =
     (map_wf (g_nodes g) \<and> map_wf (g_connections g)
      \<and> (\<forall>(k, n) \<in> set (g_nodes g). node_name n = k)
      \<and> (\<forall>(k, c) \<in> set (g_connections g).
            k = makeKey c \<and> nodeExists g (from_node c) \<and> nodeExists g (to_node c)))"

text \<open>The sources of the connections have no dash in their name.\<close>

definition dash_free :: "INode \<Rightarrow> bool" where
  "dash_free n = (CHR ''-'' \<notin> set (node_name n))"

lemma nodeExists_iff:
  "graph_wf g \<Longrightarrow> nodeExists g n \<longleftrightarrow> n \<in> set (getNodes g)"
  unfolding nodeExists_def getNodes_def graph_wf_def
  by (force simp: map_wf_get_iff)

lemma nodeExists_inject:
  "nodeExists g m \<Longrightarrow> nodeExists g n \<Longrightarrow> node_name m = node_name n \<Longrightarrow> m = n"
  by (simp add: nodeExists_def)

lemma graph_wf_empty [simp, intro]: "graph_wf empty_graph"
  by (simp add: graph_wf_def empty_graph_def)

lemma graph_wf_connD:
  "graph_wf g \<Longrightarrow> (k, c) \<in> set (g_connections g) \<Longrightarrow>
     k = makeKey c \<and> nodeExists g (from_node c) \<and> nodeExists g (to_node c)"
  unfolding graph_wf_def by fast

lemma makeKey_inject:
  assumes "dash_free (from_node c)" "dash_free (from_node d)"
  shows "makeKey c = makeKey d \<longleftrightarrow>
    node_name (from_node c) = node_name (from_node d) \<and> gc_type c = gc_type d \<and>
    outputIndex c = outputIndex d \<and> inputIndex c = inputIndex d \<and>
    node_name (to_node c) = node_name (to_node d)"
  using assms by (auto simp: makeKey_def dash_free_def append_sep_inject)

lemma makeKey_eq_imp_eq:
  assumes "graph_wf g" "nodeExists g (from_node c)" "nodeExists g (from_node d)"
    "nodeExists g (to_node c)" "nodeExists g (to_node d)"
    "dash_free (from_node c)" "dash_free (from_node d)" "makeKey c = makeKey d"
  shows "c = d"
proof -
  have "from_node c = from_node d" "to_node c = to_node d" "gc_type c = gc_type d"
    "outputIndex c = outputIndex d" "inputIndex c = inputIndex d"
    using assms nodeExists_inject [of g] by (auto simp: makeKey_inject)
  then show ?thesis by simp
qed

lemma set_connection_sel [simp]:
  "g_nodes (set_connection c g) = g_nodes g"
  "g_connections (set_connection c g) = map_set (makeKey c) c (g_connections g)"
  "nodeExists (set_connection c g) n = nodeExists g n"
  by (simp_all add: set_connection_def nodeExists_def)

lemma graph_wf_set_connection:
  assumes "graph_wf g" "nodeExists g (from_node c)" "nodeExists g (to_node c)"
  shows "graph_wf (set_connection c g)"
proof -
  have "set (map_set (makeKey c) c (g_connections g)) \<subseteq> insert (makeKey c, c) (set (g_connections g))"
    by (rule set_map_set_subset)
  with assms show ?thesis unfolding graph_wf_def by auto
qed

lemma addGraphConnection_eq:
  "addGraphConnection g c =
     (if nodeExists g (from_node c) \<and> nodeExists g (to_node c)
      then Inr (set_connection c g) else Inl AssertionError)"
  by (cases c) (simp add: addConnection_def Let_def assert_res_def)

lemma graph_wf_addConnection:
  "graph_wf g \<Longrightarrow> addConnection from to ty oi ii g = Inr g' \<Longrightarrow> graph_wf g'"
  by (auto simp: addConnection_def bind_res_eq_Inr Let_def intro!: graph_wf_set_connection)

section \<open>Connections as a set\<close>

definition conns :: "DirectedGraph \<Rightarrow> GraphConnection set" where
  "conns g = set (map_values (g_connections g))"

definition all_dash_free :: "DirectedGraph \<Rightarrow> bool" where
  "all_dash_free g = list_all dash_free (getNodes g)"

lemma conns_empty [simp]: "conns empty_graph = {}"
  by (simp add: conns_def empty_graph_def)

lemma conns_exist:
  "graph_wf g \<Longrightarrow> c \<in> conns g \<Longrightarrow> nodeExists g (from_node c) \<and> nodeExists g (to_node c)"
  unfolding conns_def by (auto dest: graph_wf_connD)

lemma conns_key: "graph_wf g \<Longrightarrow> c \<in> conns g \<longleftrightarrow> (makeKey c, c) \<in> set (g_connections g)"
  unfolding conns_def by (force dest: graph_wf_connD)

lemma all_dash_freeD: "graph_wf g \<Longrightarrow> all_dash_free g \<Longrightarrow> nodeExists g n \<Longrightarrow> dash_free n"
  by (simp add: all_dash_free_def list_all_iff nodeExists_iff)

lemma conns_set_connection:
  assumes "graph_wf g" "all_dash_free g" "nodeExists g (from_node c)" "nodeExists g (to_node c)"
  shows "conns (set_connection c g) = insert c (conns g)"
proof -
  have same: "d = c" if "(makeKey c, d) \<in> set (g_connections g)" for d
  proof -
    note d = graph_wf_connD [OF assms(1) that]
    have "d \<in> conns g" using that by (force simp: conns_def)
    then show ?thesis
      using d assms conns_exist [OF assms(1)] all_dash_freeD [OF assms(1,2)]
      by (intro makeKey_eq_imp_eq [OF assms(1)]) auto
  qed
  have "map_wf (g_connections g)" using assms(1) by (simp add: graph_wf_def)
  with same show ?thesis
    unfolding conns_def by (force simp: set_map_set)
qed

lemma addConnections_spec:
  assumes "graph_wf g" "all_dash_free g"
    and "\<And>c. c \<in> set cs \<Longrightarrow> nodeExists g (from_node c) \<and> nodeExists g (to_node c)"
  shows "\<exists>g'. addConnections cs g = Inr g' \<and> graph_wf g' \<and> g_nodes g' = g_nodes g
     \<and> conns g' = conns g \<union> set cs"
  using assms
proof (induction cs arbitrary: g)
  case Nil
  then show ?case by (simp add: addConnections_def)
next
  case (Cons c cs)
  let ?g = "set_connection c g"
  have ex: "nodeExists g (from_node c)" "nodeExists g (to_node c)" using Cons.prems(3) by auto
  have "graph_wf ?g" using Cons.prems(1) ex by (rule graph_wf_set_connection)
  moreover have "all_dash_free ?g" using Cons.prems(2) by (simp add: all_dash_free_def getNodes_def)
  moreover have "\<And>d. d \<in> set cs \<Longrightarrow> nodeExists ?g (from_node d) \<and> nodeExists ?g (to_node d)"
    using Cons.prems(3) by simp
  ultimately obtain g' where "addConnections cs ?g = Inr g'" "graph_wf g'" "g_nodes g' = g_nodes ?g"
    "conns g' = conns ?g \<union> set cs" using Cons.IH by blast
  moreover have "addConnections (c # cs) g = addConnections cs ?g"
    using ex by (simp add: addConnections_def addGraphConnection_eq)
  ultimately show ?case
    using conns_set_connection [OF Cons.prems(1,2) ex] by simp
qed

section \<open>Removing nodes\<close>

lemma drop_connections_sel [simp]:
  "g_nodes (drop_connections n g) = g_nodes g"
  "nodeExists (drop_connections n g) m = nodeExists g m"
  by (simp_all add: drop_connections_def nodeExists_def)

lemma conns_drop: "conns (drop_connections n g) = {c \<in> conns g. from_node c \<noteq> n \<and> to_node c \<noteq> n}"
  by (force simp: conns_def drop_connections_def)

lemma graph_wf_drop: "graph_wf g \<Longrightarrow> graph_wf (drop_connections n g)"
  unfolding graph_wf_def by (auto simp: drop_connections_def nodeExists_def)

definition delete_node :: "INode \<Rightarrow> DirectedGraph \<Rightarrow> DirectedGraph" where
  "delete_node n g = g\<lparr>g_nodes := map_delete (node_name n) (g_nodes g)\<rparr>"

lemma conns_delete_node [simp]: "conns (delete_node n g) = conns g"
  by (simp add: delete_node_def conns_def)

lemma nodeExists_delete_node:
  "nodeExists g n \<Longrightarrow> nodeExists (delete_node n g) m \<longleftrightarrow> nodeExists g m \<and> m \<noteq> n"
  by (auto simp: nodeExists_def delete_node_def)

lemma graph_wf_delete_node:
  assumes "graph_wf g" "nodeExists g n" "\<And>c. c \<in> conns g \<Longrightarrow> from_node c \<noteq> n \<and> to_node c \<noteq> n"
  shows "graph_wf (delete_node n g)"
  unfolding graph_wf_def
proof (intro conjI)
  show "map_wf (g_nodes (delete_node n g))" "map_wf (g_connections (delete_node n g))"
    using assms(1) by (auto simp: delete_node_def graph_wf_def)
  show "\<forall>(k, m) \<in> set (g_nodes (delete_node n g)). node_name m = k"
    using assms(1) by (auto simp: delete_node_def graph_wf_def set_map_delete)
  have "k = makeKey c \<and> nodeExists (delete_node n g) (from_node c)
      \<and> nodeExists (delete_node n g) (to_node c)"
    if "(k, c) \<in> set (g_connections (delete_node n g))" for k c
  proof -
    have kc: "(k, c) \<in> set (g_connections g)" using that by (simp add: delete_node_def)
    then have "c \<in> conns g" by (force simp: conns_def)
    with graph_wf_connD [OF assms(1) kc] assms(3) show ?thesis
      by (simp add: nodeExists_delete_node [OF assms(2)])
  qed
  then show "\<forall>(k, c) \<in> set (g_connections (delete_node n g)). k = makeKey c
      \<and> nodeExists (delete_node n g) (from_node c) \<and> nodeExists (delete_node n g) (to_node c)"
    by blast
qed

lemma removeNode_spec:
  assumes "graph_wf g" "nodeExists g n"
  shows "graph_wf (removeNode n g)"
    and "nodeExists (removeNode n g) m \<longleftrightarrow> nodeExists g m \<and> m \<noteq> n"
    and "conns (removeNode n g) = {c \<in> conns g. from_node c \<noteq> n \<and> to_node c \<noteq> n}"
proof -
  have eq: "removeNode n g = delete_node n (drop_connections n g)"
    by (simp add: removeNode_def delete_node_def Let_def)
  show "graph_wf (removeNode n g)"
    unfolding eq using assms by (intro graph_wf_delete_node graph_wf_drop) (auto simp: conns_drop)
  show "nodeExists (removeNode n g) m \<longleftrightarrow> nodeExists g m \<and> m \<noteq> n"
    unfolding eq using assms by (simp add: nodeExists_delete_node)
  show "conns (removeNode n g) = {c \<in> conns g. from_node c \<noteq> n \<and> to_node c \<noteq> n}"
    unfolding eq by (simp add: conns_drop)
qed

text \<open>The data flow: who is connected to whom by a \<open>Main\<close> connection.\<close>

definition main_edges :: "DirectedGraph \<Rightarrow> (INode \<times> INode) set" where
  "main_edges g = {(from_node c, to_node c) | c. c \<in> conns g \<and> gc_type c = Main}"

lemma main_edges_iff:
  "(a, b) \<in> main_edges g \<longleftrightarrow> (\<exists>c \<in> conns g. gc_type c = Main \<and> from_node c = a \<and> to_node c = b)"
  by (auto simp: main_edges_def)

lemma main_edges_exist: "graph_wf g \<Longrightarrow> (a, b) \<in> main_edges g \<Longrightarrow> nodeExists g a \<and> nodeExists g b"
  by (auto simp: main_edges_iff dest: conns_exist)

lemma getDirectChildConnections_eq:
  "getDirectChildConnections g n =
     (if nodeExists g n then Inr (filter (\<lambda>c. from_node c = n) (map_values (g_connections g)))
      else Inl AssertionError)"
  by (simp add: getDirectChildConnections_def assert_res_def)

lemma getDirectParentConnections_eq:
  "getDirectParentConnections g n =
     (if nodeExists g n then Inr (filter (\<lambda>c. to_node c = n) (map_values (g_connections g)))
      else Inl AssertionError)"
  by (simp add: getDirectParentConnections_def assert_res_def)

lemma getDirectChildConnections_set:
  "getDirectChildConnections g n = Inr cs \<Longrightarrow> set cs = {c \<in> conns g. from_node c = n}"
  by (force simp: getDirectChildConnections_eq conns_def split: if_splits)

lemma getDirectParentConnections_set:
  "getDirectParentConnections g n = Inr cs \<Longrightarrow> set cs = {c \<in> conns g. to_node c = n}"
  by (force simp: getDirectParentConnections_eq conns_def split: if_splits)

lemma set_bridge_connections:
  "set (bridge_connections skip ins outs) =
     {i\<lparr>to_node := to_node out, inputIndex := inputIndex out\<rparr> | i out.
        i \<in> set ins \<and> out \<in> set outs \<and> \<not> skip i \<and> \<not> skip out}"
  by (auto simp: bridge_connections_def)

lemma fold_set_connection_eq:
  assumes "\<And>c. c \<in> set cs \<Longrightarrow> nodeExists g (from_node c) \<and> nodeExists g (to_node c)"
  shows "addConnections cs g = Inr (fold set_connection cs g)"
  using assms
proof (induction cs arbitrary: g)
  case Nil
  then show ?case by (simp add: addConnections_def)
next
  case (Cons c cs)
  have "addConnections (c # cs) g = addConnections cs (set_connection c g)"
    using Cons.prems by (simp add: addConnections_def addGraphConnection_eq)
  then show ?case using Cons.IH [of "set_connection c g"] Cons.prems by simp
qed

text \<open>
  Removing a node with \<open>reconnectConnections\<close> never throws on a node of the graph. The
  connections afterwards are those that do not touch the node and the bridging ones.
\<close>

lemma removeNodeReconnect_spec:
  assumes "graph_wf g" "all_dash_free g" "nodeExists g n"
  obtains new g' where "removeNodeReconnect skip n g = Inr (new, g')"
    and "set new = {i\<lparr>to_node := to_node out, inputIndex := inputIndex out\<rparr> | i out.
           i \<in> conns g \<and> to_node i = n \<and> out \<in> conns g \<and> from_node out = n \<and> \<not> skip i \<and> \<not> skip out}"
    and "conns g' = {c \<in> conns g. from_node c \<noteq> n \<and> to_node c \<noteq> n} \<union> set new"
    and "g_nodes g' = map_delete (node_name n) (g_nodes g)"
    and "(\<forall>c \<in> set new. from_node c \<noteq> n \<and> to_node c \<noteq> n) \<Longrightarrow> graph_wf g'"
proof -
  let ?ins = "filter (\<lambda>c. to_node c = n) (map_values (g_connections g))"
  let ?outs = "filter (\<lambda>c. from_node c = n) (map_values (g_connections g))"
  let ?new = "bridge_connections skip ?ins ?outs"
  let ?g1 = "drop_connections n g"
  let ?g2 = "fold set_connection ?new ?g1"
  have new: "set ?new = {i\<lparr>to_node := to_node out, inputIndex := inputIndex out\<rparr> | i out.
      i \<in> conns g \<and> to_node i = n \<and> out \<in> conns g \<and> from_node out = n \<and> \<not> skip i \<and> \<not> skip out}"
    by (auto simp: set_bridge_connections conns_def)
  have ex: "nodeExists ?g1 (from_node c) \<and> nodeExists ?g1 (to_node c)" if "c \<in> set ?new" for c
    using that conns_exist [OF assms(1)] unfolding new by auto
  have "all_dash_free ?g1" using assms(2) by (simp add: all_dash_free_def getNodes_def)
  with addConnections_spec [OF graph_wf_drop [OF assms(1)] _ ex] fold_set_connection_eq [OF ex]
  have g2: "graph_wf ?g2" "g_nodes ?g2 = g_nodes g" "conns ?g2 = conns ?g1 \<union> set ?new" by auto
  then have n2: "nodeExists ?g2 n" using assms(3) by (simp add: nodeExists_def)
  show ?thesis
  proof (rule that [of ?new "delete_node n ?g2"])
    show "removeNodeReconnect skip n g = Inr (?new, delete_node n ?g2)"
      using assms(3) by (simp add: removeNodeReconnect_def getDirectChildConnections_eq
          getDirectParentConnections_eq Let_def delete_node_def)
    show "conns (delete_node n ?g2) = {c \<in> conns g. from_node c \<noteq> n \<and> to_node c \<noteq> n} \<union> set ?new"
      by (simp add: g2 conns_drop)
    show "g_nodes (delete_node n ?g2) = map_delete (node_name n) (g_nodes g)"
      by (simp add: delete_node_def g2)
    show "graph_wf (delete_node n ?g2)" if "\<forall>c \<in> set ?new. from_node c \<noteq> n \<and> to_node c \<noteq> n"
    proof (rule graph_wf_delete_node [OF g2(1) n2])
      fix c assume "c \<in> conns ?g2"
      then have "c \<in> conns ?g1 \<or> c \<in> set ?new" unfolding g2(3) by simp
      then show "from_node c \<noteq> n \<and> to_node c \<noteq> n"
      proof
        assume "c \<in> conns ?g1"
        then show ?thesis unfolding conns_drop by blast
      qed (rule bspec [OF that])
    qed
  qed (rule new)
qed

lemma main_edges_removeNodeReconnect:
  assumes "graph_wf g" "all_dash_free g" "nodeExists g n"
    and "removeNodeReconnect (\<lambda>c. gc_type c \<noteq> Main) n g = Inr (new, g')"
  shows "main_edges g' = bypass n (main_edges g)"
proof -
  obtain new' g'' where r: "removeNodeReconnect (\<lambda>c. gc_type c \<noteq> Main) n g = Inr (new', g'')"
    and new: "set new' = {i\<lparr>to_node := to_node out, inputIndex := inputIndex out\<rparr> | i out.
      i \<in> conns g \<and> to_node i = n \<and> out \<in> conns g \<and> from_node out = n
      \<and> \<not> gc_type i \<noteq> Main \<and> \<not> gc_type out \<noteq> Main}"
    and c: "conns g'' = {c \<in> conns g. from_node c \<noteq> n \<and> to_node c \<noteq> n} \<union> set new'"
    by (rule removeNodeReconnect_spec [OF assms(1-3), of "\<lambda>c. gc_type c \<noteq> Main"]) blast
  have [simp]: "g'' = g'" using r assms(4) by simp
  have old: "{(from_node c, to_node c) | c. c \<in> conns g \<and> from_node c \<noteq> n \<and> to_node c \<noteq> n
      \<and> gc_type c = Main} = {(a, b) \<in> main_edges g. a \<noteq> n \<and> b \<noteq> n}"
    by (auto simp: main_edges_def)
  have "(a, b) \<in> {(from_node c, to_node c) | c. c \<in> set new' \<and> gc_type c = Main} \<longleftrightarrow>
      (a, n) \<in> main_edges g \<and> (n, b) \<in> main_edges g" (is "?L \<longleftrightarrow> ?R") for a b
  proof
    assume ?L
    then show ?R unfolding new main_edges_iff by auto
  next
    assume ?R
    then obtain i out where "i \<in> conns g" "gc_type i = Main" "from_node i = a" "to_node i = n"
      "out \<in> conns g" "gc_type out = Main" "from_node out = n" "to_node out = b"
      unfolding main_edges_iff by blast
    then show ?L unfolding new
      by (intro CollectI exI [of _ "i\<lparr>to_node := to_node out, inputIndex := inputIndex out\<rparr>"]) auto
  qed
  then have "{(from_node c, to_node c) | c. c \<in> set new' \<and> gc_type c = Main}
      = {(a, b). (a, n) \<in> main_edges g \<and> (n, b) \<in> main_edges g}" by auto
  moreover have "main_edges g' = {(from_node c, to_node c) | c. c \<in> conns g \<and> from_node c \<noteq> n
      \<and> to_node c \<noteq> n \<and> gc_type c = Main}
      \<union> {(from_node c, to_node c) | c. c \<in> set new' \<and> gc_type c = Main}"
    using c by (auto simp: main_edges_def)
  ultimately show ?thesis unfolding bypass_def old by simp
qed

end
