(* ===== verification/Graph_Queries.thy ===== *)
theory Graph_Queries
  imports Directed_Graph
begin

text \<open>
  The recursive queries of \<open>DirectedGraph\<close>: \<open>getChildren\<close>, \<open>getParentConnections\<close> and
  \<open>depthFirstSearch\<close>. Each recursive method and the loop inside it become one function over
  the list of siblings still to visit, with the mutated set threaded through. The
  interpretations \<open>ch\<close>, \<open>pc\<close> and \<open>ds\<close> of the traversal contracts give their results:
  the reachable nodes, the connections upstream of a node, the first match.
\<close>

section \<open>Children\<close>

definition child_nodes :: "DirectedGraph \<Rightarrow> INode \<Rightarrow> INode list result" where
  "child_nodes g n = bind_res (getDirectChildConnections g n) (\<lambda>cs. Inr (map to_node cs))"

lemma child_nodes_eq:
  "child_nodes g n =
     (if nodeExists g n
      then Inr (map to_node (filter (\<lambda>c. from_node c = n) (map_values (g_connections g))))
      else Inl AssertionError)"
  by (simp add: child_nodes_def getDirectChildConnections_eq)

function children_loop :: "DirectedGraph \<Rightarrow> INode list \<Rightarrow> INode list \<Rightarrow> INode list result" where
  "children_loop g [] children = Inr children"
| "children_loop g (n # ns) children =
     (if n \<in> set children then children_loop g ns children
      else bind_res (child_nodes g n) (\<lambda>ms.
           bind_res (children_loop g ms (children @ [n])) (\<lambda>children'.
             children_loop g ns children')))"
  by pat_completeness auto

lemma children_loop_mono:
  "children_loop_dom (g, ns, s) \<Longrightarrow> children_loop g ns s = Inr r \<Longrightarrow> set s \<subseteq> set r"
proof (induction g ns s arbitrary: r rule: children_loop.pinduct)
  case (1 g s)
  then show ?case by (simp add: children_loop.psimps)
next
  case (2 g n ns s)
  show ?case
  proof (cases "n \<in> set s")
    case True
    with 2 show ?thesis by (simp add: children_loop.psimps)
  next
    case False
    with 2 obtain ms s' where "child_nodes g n = Inr ms" "children_loop g ms (s @ [n]) = Inr s'"
      "children_loop g ns s' = Inr r" by (auto simp: children_loop.psimps bind_res_eq_Inr)
    with 2(3,4) [OF False] show ?thesis by fastforce
  qed
qed

text \<open>Only sources of connections have children, so at most that many nodes are expanded.\<close>

lemma child_nodes_source:
  "child_nodes g n = Inr ms \<Longrightarrow> n \<notin> from_node ` conns g \<Longrightarrow> ms = []"
  by (force simp: child_nodes_eq conns_def filter_empty_conv split: if_splits)

lemma finite_conns [simp, intro]: "finite (conns g)"
  by (simp add: conns_def)

termination children_loop
proof (relation "trav_par (\<lambda>g. from_node ` conns g)")
  fix g :: DirectedGraph and n ns s ms
  assume n: "n \<notin> set s" and ms: "child_nodes g n = Inr ms"
  then show "((g, ms, s @ [n]), (g, n # ns, s)) \<in> trav_par (\<lambda>g. from_node ` conns g)"
    using child_nodes_source [OF ms] by (intro trav_par_child) auto
  fix s' assume d: "children_loop_dom (g, ms, s @ [n])" and r: "children_loop g ms (s @ [n]) = Inr s'"
  from children_loop_mono [OF d r]
  show "((g, ns, s'), (g, n # ns, s)) \<in> trav_par (\<lambda>g. from_node ` conns g)"
    by (intro trav_par_sibling) auto
qed (auto intro: trav_par_sibling)

definition getChildrenRecursive :: "DirectedGraph \<Rightarrow> INode \<Rightarrow> INode list \<Rightarrow> INode list result" where
  "getChildrenRecursive g n children =
     bind_res (getDirectChildConnections g n) (\<lambda>cs. children_loop g (map to_node cs) children)"

definition getChildren :: "DirectedGraph \<Rightarrow> INode \<Rightarrow> INode list result" where
  "getChildren g n = getChildrenRecursive g n []"

text \<open>The loop calls the recursive method on each child that is not yet in the set.\<close>

lemma children_loop_recursive:
  "children_loop g (n # ns) children =
     (if n \<in> set children then children_loop g ns children
      else bind_res (getChildrenRecursive g n (children @ [n])) (children_loop g ns))"
  by (simp add: getChildrenRecursive_def child_nodes_def bind_res_assoc)

interpretation ch: dfs_traversal "children_loop g" "child_nodes g"
proof unfold_locales
  fix P :: "INode list \<Rightarrow> INode list \<Rightarrow> bool" and zs s0
  assume "\<And>seen. P [] seen"
    and "\<And>x xs seen.
         (x \<in> set seen \<Longrightarrow> P xs seen) \<Longrightarrow>
         (\<And>ys. x \<notin> set seen \<Longrightarrow> child_nodes g x = Inr ys \<Longrightarrow> P ys (seen @ [x])) \<Longrightarrow>
         (\<And>ys seen'. x \<notin> set seen \<Longrightarrow> child_nodes g x = Inr ys \<Longrightarrow>
            children_loop g ys (seen @ [x]) = Inr seen' \<Longrightarrow> P xs seen') \<Longrightarrow>
         P (x # xs) seen"
  then show "P zs s0"
    by (induction g zs s0 rule: children_loop.induct) blast+
qed auto

text \<open>The edge relation of the whole graph, whatever the type of the connections.\<close>

definition graph_edges :: "DirectedGraph \<Rightarrow> (INode \<times> INode) set" where
  "graph_edges g = {(from_node c, to_node c) | c. c \<in> conns g}"

lemma res_edges_child_nodes: "graph_wf g \<Longrightarrow> res_edges (child_nodes g) = graph_edges g"
  unfolding res_edges_def graph_edges_def
  by (force simp: child_nodes_eq conns_def dest: graph_wf_connD split: if_splits)

lemma child_nodes_edges: "child_nodes g n = Inr ms \<Longrightarrow> set ms = graph_edges g `` {n}"
  by (force simp: child_nodes_eq graph_edges_def conns_def split: if_splits)

lemma graph_edges_exist:
  "graph_wf g \<Longrightarrow> (a, b) \<in> graph_edges g \<Longrightarrow> nodeExists g a \<and> nodeExists g b"
  unfolding graph_edges_def by (auto dest: conns_exist)

lemma graph_edges_rtrancl_exist:
  "graph_wf g \<Longrightarrow> (a, b) \<in> (graph_edges g)\<^sup>* \<Longrightarrow> nodeExists g a \<Longrightarrow> nodeExists g b"
  by (erule rtrancl_induct) (auto dest: graph_edges_exist)

lemma main_edges_sub: "main_edges g \<subseteq> graph_edges g"
  by (auto simp: main_edges_def graph_edges_def)

text \<open>
  In a well-formed graph the query does not throw on a node of the graph, and returns, without
  duplicates, the nodes that a non-empty path leads to. In particular a node is its own child
  exactly when it lies on a cycle.
\<close>

lemma getChildren_spec:
  assumes "graph_wf g" "nodeExists g n"
  shows "\<exists>r. getChildren g n = Inr r \<and> distinct r \<and> set r = (graph_edges g)\<^sup>+ `` {n}"
proof -
  let ?ms = "map to_node (filter (\<lambda>c. from_node c = n) (map_values (g_connections g)))"
  have E: "res_edges (child_nodes g) = graph_edges g" by (rule res_edges_child_nodes [OF assms(1)])
  have ms: "set ?ms = graph_edges g `` {n}" by (force simp: graph_edges_def conns_def)
  have eq: "getChildren g n = children_loop g ?ms []"
    using assms(2) by (simp add: getChildren_def getChildrenRecursive_def getDirectChildConnections_eq)
  have "\<exists>ys. child_nodes g x = Inr ys" if "x \<in> (graph_edges g)\<^sup>* `` set ?ms" for x
    using that graph_edges_rtrancl_exist [OF assms(1)] graph_edges_exist [OF assms(1)]
    unfolding ms by (fastforce simp: child_nodes_eq)
  then obtain r where r: "children_loop g ?ms [] = Inr r"
    using ch.visit_total [of g ?ms "[]"] unfolding E by blast
  have "set r = (graph_edges g)\<^sup>* `` (graph_edges g `` {n})" "distinct r"
    using ch.visit_reachable [OF r] unfolding E ms by auto
  moreover have "(graph_edges g)\<^sup>* `` (graph_edges g `` {n}) = (graph_edges g)\<^sup>+ `` {n}"
    by (auto simp: trancl_unfold_left)
  ultimately show ?thesis using r eq by simp
qed

section \<open>Parent connections\<close>

function parents_loop ::
  "DirectedGraph \<Rightarrow> GraphConnection list \<Rightarrow> GraphConnection list \<Rightarrow> GraphConnection list result" where
  "parents_loop g [] connections = Inr connections"
| "parents_loop g (c # cs) connections =
     (if c \<in> set connections then parents_loop g cs connections
      else bind_res (getDirectParentConnections g (from_node c)) (\<lambda>ds.
           bind_res (parents_loop g ds (connections @ [c])) (\<lambda>connections'.
             parents_loop g cs connections')))"
  by pat_completeness auto

lemma parents_loop_mono:
  "parents_loop_dom (g, cs, s) \<Longrightarrow> parents_loop g cs s = Inr r \<Longrightarrow> set s \<subseteq> set r"
proof (induction g cs s arbitrary: r rule: parents_loop.pinduct)
  case (1 g s)
  then show ?case by (simp add: parents_loop.psimps)
next
  case (2 g c cs s)
  show ?case
  proof (cases "c \<in> set s")
    case True
    with 2 show ?thesis by (simp add: parents_loop.psimps)
  next
    case False
    with 2 obtain ds s' where "getDirectParentConnections g (from_node c) = Inr ds"
      "parents_loop g ds (s @ [c]) = Inr s'" "parents_loop g cs s' = Inr r"
      by (auto simp: parents_loop.psimps bind_res_eq_Inr)
    with 2(3,4) [OF False] show ?thesis by fastforce
  qed
qed

lemma getDirectParentConnections_sub:
  "getDirectParentConnections g n = Inr ds \<Longrightarrow> set ds \<subseteq> conns g"
  by (auto simp: getDirectParentConnections_eq conns_def split: if_splits)

termination parents_loop
proof (relation "trav_par conns")
  fix g :: DirectedGraph and c :: GraphConnection and cs s ds
  assume c: "c \<notin> set s" and ds: "getDirectParentConnections g (from_node c) = Inr ds"
  then show "((g, ds, s @ [c]), (g, c # cs, s)) \<in> trav_par conns"
    using getDirectParentConnections_sub [OF ds] by (intro trav_par_child) auto
  fix s' assume d: "parents_loop_dom (g, ds, s @ [c])" and r: "parents_loop g ds (s @ [c]) = Inr s'"
  from parents_loop_mono [OF d r] show "((g, cs, s'), (g, c # cs, s)) \<in> trav_par conns"
    by (intro trav_par_sibling) auto
qed (auto intro: trav_par_sibling)

definition getParentConnectionsRecursive ::
  "DirectedGraph \<Rightarrow> INode \<Rightarrow> GraphConnection list \<Rightarrow> GraphConnection list result" where
  "getParentConnectionsRecursive g n connections =
     bind_res (getDirectParentConnections g n) (\<lambda>cs. parents_loop g cs connections)"

definition getParentConnections :: "DirectedGraph \<Rightarrow> INode \<Rightarrow> GraphConnection list result" where
  "getParentConnections g n = getParentConnectionsRecursive g n []"

interpretation pc: dfs_traversal "parents_loop g" "\<lambda>c. getDirectParentConnections g (from_node c)"
proof unfold_locales
  fix P :: "GraphConnection list \<Rightarrow> GraphConnection list \<Rightarrow> bool" and zs s0
  assume "\<And>seen. P [] seen"
    and "\<And>x xs seen.
         (x \<in> set seen \<Longrightarrow> P xs seen) \<Longrightarrow>
         (\<And>ys. x \<notin> set seen \<Longrightarrow> getDirectParentConnections g (from_node x) = Inr ys \<Longrightarrow>
            P ys (seen @ [x])) \<Longrightarrow>
         (\<And>ys seen'. x \<notin> set seen \<Longrightarrow> getDirectParentConnections g (from_node x) = Inr ys \<Longrightarrow>
            parents_loop g ys (seen @ [x]) = Inr seen' \<Longrightarrow> P xs seen') \<Longrightarrow>
         P (x # xs) seen"
  then show "P zs s0"
    by (induction g zs s0 rule: parents_loop.induct) blast+
qed auto

text \<open>The connections from which the node can be reached.\<close>

lemma parents_rtrancl_iff:
  assumes "graph_wf g"
  shows "(\<exists>d \<in> conns g. to_node d = n \<and>
       (d, c) \<in> (res_edges (\<lambda>c. getDirectParentConnections g (from_node c)))\<^sup>*) \<longleftrightarrow>
     c \<in> conns g \<and> (to_node c, n) \<in> (graph_edges g)\<^sup>*" (is "?L \<longleftrightarrow> ?M")
proof
  let ?R = "res_edges (\<lambda>c. getDirectParentConnections g (from_node c))"
  have R: "(d, c) \<in> ?R \<longleftrightarrow> nodeExists g (from_node d) \<and> c \<in> conns g \<and> to_node c = from_node d" for c d
    by (auto simp: res_edges_def getDirectParentConnections_eq conns_def split: if_splits)
  {
    fix d c assume "(d, c) \<in> ?R\<^sup>*" "d \<in> conns g" "to_node d = n"
    then have "c \<in> conns g \<and> (to_node c, n) \<in> (graph_edges g)\<^sup>*"
    proof induction
      case (step c e)
      then have "e \<in> conns g" "to_node e = from_node c" by (auto simp: R)
      moreover have "(from_node c, to_node c) \<in> graph_edges g"
        using step by (auto simp: graph_edges_def)
      ultimately show ?case using step by (auto intro: converse_rtrancl_into_rtrancl)
    qed simp
  }
  then show ?M if ?L using that by blast
  assume ?M
  then have "(to_node c, n) \<in> (graph_edges g)\<^sup>*" "c \<in> conns g" by auto
  then show ?L
  proof (induction "to_node c" arbitrary: c rule: converse_rtrancl_induct)
    case base
    then show ?case by blast
  next
    case (step z)
    then obtain e where e: "e \<in> conns g" "from_node e = to_node c" "to_node e = z"
      by (auto simp: graph_edges_def)
    with step(3) obtain d where "d \<in> conns g" "to_node d = n" "(d, e) \<in> ?R\<^sup>*" by blast
    moreover have "(e, c) \<in> ?R" using e step.prems conns_exist [OF assms] by (auto simp: R)
    ultimately show ?case by (blast intro: rtrancl_into_rtrancl)
  qed
qed

lemma getParentConnections_spec:
  assumes "graph_wf g" "nodeExists g n"
  shows "\<exists>r. getParentConnections g n = Inr r \<and> distinct r
     \<and> set r = {c \<in> conns g. (to_node c, n) \<in> (graph_edges g)\<^sup>*}"
proof -
  let ?cs = "filter (\<lambda>c. to_node c = n) (map_values (g_connections g))"
  have cs: "set ?cs = {d \<in> conns g. to_node d = n}" by (auto simp: conns_def)
  have eq: "getParentConnections g n = parents_loop g ?cs []"
    using assms(2) by (simp add: getParentConnections_def getParentConnectionsRecursive_def
        getDirectParentConnections_eq)
  let ?R = "res_edges (\<lambda>c. getDirectParentConnections g (from_node c))"
  have reach: "?R\<^sup>* `` set ?cs = {c \<in> conns g. (to_node c, n) \<in> (graph_edges g)\<^sup>*}"
    using parents_rtrancl_iff [OF assms(1), of n] unfolding cs by auto
  have "\<exists>ys. getDirectParentConnections g (from_node x) = Inr ys" if "x \<in> ?R\<^sup>* `` set ?cs" for x
    using that conns_exist [OF assms(1)] unfolding reach
    by (auto simp: getDirectParentConnections_eq)
  then obtain r where r: "parents_loop g ?cs [] = Inr r"
    using pc.visit_total [of g ?cs "[]"] by blast
  with pc.visit_reachable [OF r] reach eq show ?thesis by auto
qed

section \<open>Depth-first search\<close>

text \<open>
  \<open>search_loop g fn ns seen\<close> searches from each node of \<open>ns\<close> in turn; the method itself is
  the case of one node. The result carries the set \<open>seen\<close>, which all branches share.
\<close>

function search_loop ::
  "DirectedGraph \<Rightarrow> (INode \<Rightarrow> bool) \<Rightarrow> INode list \<Rightarrow> INode list \<Rightarrow> (INode option \<times> INode list) result"
where
  "search_loop g fn [] seen = Inr (None, seen)"
| "search_loop g fn (n # ns) seen =
     (if n \<in> set seen then search_loop g fn ns seen
      else if fn n then Inr (Some n, seen @ [n])
      else bind_res (child_nodes g n) (\<lambda>ms.
           bind_res (search_loop g fn ms (seen @ [n])) (\<lambda>(r, seen').
             case r of Some found \<Rightarrow> Inr (Some found, seen')
                     | None \<Rightarrow> search_loop g fn ns seen')))"
  by pat_completeness auto

lemma search_loop_mono:
  "search_loop_dom (g, fn, ns, s) \<Longrightarrow> search_loop g fn ns s = Inr (r, s') \<Longrightarrow> set s \<subseteq> set s'"
proof (induction g fn ns s arbitrary: r s' rule: search_loop.pinduct)
  case (1 g fn s)
  then show ?case by (simp add: search_loop.psimps)
next
  case (2 g fn n ns s)
  consider "n \<in> set s" | "n \<notin> set s" "fn n" | "n \<notin> set s" "\<not> fn n" by blast
  then show ?case
  proof cases
    case 3
    with 2(1,5) obtain ms r1 s1 where a: "child_nodes g n = Inr ms"
      "search_loop g fn ms (s @ [n]) = Inr (r1, s1)"
      "(case r1 of Some f \<Rightarrow> Inr (Some f, s1) | None \<Rightarrow> search_loop g fn ns s1) = Inr (r, s')"
      by (auto simp: search_loop.psimps bind_res_eq_Inr)
    have "set s \<subseteq> set s1" using 2(3) [OF 3 a(1,2)] by auto
    moreover have "set s1 \<subseteq> set s'"
      using a(3) 2(4) [OF 3 a(1,2) refl, of r s'] by (cases r1) auto
    ultimately show ?thesis by auto
  qed (use 2 in \<open>auto simp: search_loop.psimps\<close>)
qed

termination search_loop
proof (relation "inv_image (trav_par (\<lambda>g. from_node ` conns g)) (\<lambda>(g, fn, ns, s). (g, ns, s))")
  fix g :: DirectedGraph and fn :: "INode \<Rightarrow> bool" and n ns s ms
  assume n: "n \<notin> set s" and ms: "child_nodes g n = Inr ms"
  then show "((g, fn, ms, s @ [n]), (g, fn, n # ns, s))
      \<in> inv_image (trav_par (\<lambda>g. from_node ` conns g)) (\<lambda>(g, fn, ns, s). (g, ns, s))"
    using child_nodes_source [OF ms] by (auto intro!: trav_par_child)
  fix p r s' assume d: "search_loop_dom (g, fn, ms, s @ [n])"
    and r: "search_loop g fn ms (s @ [n]) = Inr p" "(r, s') = p"
  from search_loop_mono [OF d] r
  show "((g, fn, ns, s'), (g, fn, n # ns, s))
      \<in> inv_image (trav_par (\<lambda>g. from_node ` conns g)) (\<lambda>(g, fn, ns, s). (g, ns, s))"
    by (auto intro!: trav_par_sibling)
qed (auto intro: trav_par_sibling)

definition depthFirstSearch :: "DirectedGraph \<Rightarrow> INode \<Rightarrow> (INode \<Rightarrow> bool) \<Rightarrow> INode option result" where
  "depthFirstSearch g from fn = bind_res (search_loop g fn [from] []) (\<lambda>(r, _). Inr r)"

interpretation ds: dfs_search "search_loop g fn" "child_nodes g" fn
proof unfold_locales
  fix P :: "INode list \<Rightarrow> INode list \<Rightarrow> bool" and zs s0
  assume base: "\<And>seen. P [] seen"
    and step: "\<And>x xs seen.
         (x \<in> set seen \<Longrightarrow> P xs seen) \<Longrightarrow>
         (\<And>ys. x \<notin> set seen \<Longrightarrow> \<not> fn x \<Longrightarrow> child_nodes g x = Inr ys \<Longrightarrow> P ys (seen @ [x])) \<Longrightarrow>
         (\<And>ys seen'. x \<notin> set seen \<Longrightarrow> \<not> fn x \<Longrightarrow> child_nodes g x = Inr ys \<Longrightarrow>
            search_loop g fn ys (seen @ [x]) = Inr (None, seen') \<Longrightarrow> P xs seen') \<Longrightarrow>
         P (x # xs) seen"
  show "P zs s0"
    using base step
  proof (induction g fn zs s0 rule: search_loop.induct)
    case (2 g fn n ns seen)
    show ?case
    proof (rule "2.prems"(2))
      show "P ns seen" if "n \<in> set seen" using "2.IH"(1) [OF that "2.prems"] .
      show "P ms (seen @ [n])" if "n \<notin> set seen" "\<not> fn n" "child_nodes g n = Inr ms" for ms
        using "2.IH"(2) [OF that "2.prems"] .
      show "P ns s'" if "n \<notin> set seen" "\<not> fn n" "child_nodes g n = Inr ms"
        "search_loop g fn ms (seen @ [n]) = Inr (None, s')" for ms s'
        using "2.IH"(3) [OF that refl refl "2.prems"] .
    qed
  qed
qed auto

lemma depthFirstSearch_spec:
  assumes "graph_wf g" "nodeExists g from"
  shows "\<exists>r. depthFirstSearch g from fn = Inr r \<and>
     (case r of Some n \<Rightarrow> fn n \<and> (from, n) \<in> (graph_edges g)\<^sup>*
              | None \<Rightarrow> \<forall>n. (from, n) \<in> (graph_edges g)\<^sup>* \<longrightarrow> \<not> fn n)"
proof (cases "search_loop g fn [from] []")
  case (Inl e)
  from ds.search_error [OF this, unfolded res_edges_child_nodes [OF assms(1)]]
  obtain x where x: "(from, x) \<in> (graph_edges g)\<^sup>*" "child_nodes g x = Inl e" by auto
  have "nodeExists g x" using graph_edges_rtrancl_exist [OF assms(1) x(1) assms(2)] .
  with x(2) show ?thesis by (simp add: child_nodes_eq)
next
  case (Inr p)
  obtain r s where p: "p = (r, s)" by (cases p)
  show ?thesis
  proof (cases r)
    case None
    have "\<not> fn n" if "(from, n) \<in> (graph_edges g)\<^sup>*" for n
      using ds.search_complete [of g fn "[from]" s n, unfolded res_edges_child_nodes [OF assms(1)]]
        Inr p None that by simp
    with Inr p None show ?thesis by (simp add: depthFirstSearch_def)
  next
    case (Some n)
    have "fn n \<and> (from, n) \<in> (graph_edges g)\<^sup>*"
      using ds.search_found [of g fn "[from]" "[]" n s, unfolded res_edges_child_nodes [OF assms(1)]]
        Inr p Some by simp
    with Inr p Some show ?thesis by (simp add: depthFirstSearch_def)
  qed
qed

end
