(* ===== verification/Partial_Subgraph.thy ===== *)
theory Partial_Subgraph
  imports Graph_Queries
begin

text \<open>
  The graph part of a partial execution, from
  \<open>packages/core/src/execution-engine/partial-execution-utils/\<close>: \<open>filterDisabledNodes\<close>
  (\<open>filter-disabled-nodes.ts\<close>), \<open>findSubgraph\<close> (\<open>find-subgraph.ts\<close>) and \<open>rewireGraph\<close>
  (\<open>rewire-graph.ts\<close>).

  Taking out the disabled nodes keeps the data flow between the enabled ones, provided no cycle
  runs through disabled nodes only; with such a cycle the result has dangling connections. The
  subgraph is a part of the graph and contains every simple path of \<open>Main\<close> connections from the
  trigger to the destination.
\<close>

section \<open>Cloning\<close>

lemma addNodes_rebuild:
  assumes "map_wf (acc @ m)" "\<forall>(k, n) \<in> set m. node_name n = k"
  shows "addNodes (map_values m) \<lparr>g_nodes = acc, g_connections = cs\<rparr>
     = \<lparr>g_nodes = acc @ m, g_connections = cs\<rparr>"
  using assms
proof (induction m arbitrary: acc)
  case Nil
  then show ?case by (simp add: addNodes_def)
next
  case (Cons p m)
  obtain k n where p: "p = (k, n)" by (cases p)
  with Cons.prems have "k \<notin> set (map_keys acc)" "node_name n = k" by (auto simp: map_wf_def)
  then have "addNode n \<lparr>g_nodes = acc, g_connections = cs\<rparr>
      = \<lparr>g_nodes = acc @ [(k, n)], g_connections = cs\<rparr>"
    by (simp add: addNode_def map_set_fresh)
  with Cons.IH [of "acc @ [p]"] Cons.prems p show ?case by (simp add: addNodes_def)
qed

lemma addConnections_rebuild:
  assumes "map_wf (acc @ m)" "\<forall>(k, c) \<in> set m. k = makeKey c
    \<and> nodeExists \<lparr>g_nodes = ns, g_connections = acc\<rparr> (from_node c)
    \<and> nodeExists \<lparr>g_nodes = ns, g_connections = acc\<rparr> (to_node c)"
  shows "addConnections (map_values m) \<lparr>g_nodes = ns, g_connections = acc\<rparr>
     = Inr \<lparr>g_nodes = ns, g_connections = acc @ m\<rparr>"
  using assms
proof (induction m arbitrary: acc)
  case Nil
  then show ?case by (simp add: addConnections_def)
next
  case (Cons p m)
  obtain k c where p: "p = (k, c)" by (cases p)
  with Cons.prems have "k \<notin> set (map_keys acc)" "k = makeKey c" by (auto simp: map_wf_def)
  then have "set_connection c \<lparr>g_nodes = ns, g_connections = acc\<rparr>
      = \<lparr>g_nodes = ns, g_connections = acc @ [(k, c)]\<rparr>"
    by (simp add: set_connection_def map_set_fresh)
  moreover have "addConnections (map_values m) \<lparr>g_nodes = ns, g_connections = acc @ [p]\<rparr>
      = Inr \<lparr>g_nodes = ns, g_connections = (acc @ [p]) @ m\<rparr>"
    using Cons.prems by (intro Cons.IH) (auto simp: nodeExists_def)
  ultimately show ?case
    using Cons.prems p by (simp add: addConnections_def addGraphConnection_eq)
qed

lemma clone_eq: "graph_wf g \<Longrightarrow> clone g = Inr g"
proof -
  assume wf: "graph_wf g"
  have "addNodes (getNodes g) empty_graph = \<lparr>g_nodes = g_nodes g, g_connections = []\<rparr>"
    using addNodes_rebuild [of "[]" "g_nodes g" "[]"] wf
    by (simp add: graph_wf_def empty_graph_def getNodes_def)
  moreover have "addConnections (map_values (g_connections g)) \<lparr>g_nodes = g_nodes g, g_connections = []\<rparr>
      = Inr \<lparr>g_nodes = g_nodes g, g_connections = g_connections g\<rparr>"
    using addConnections_rebuild [of "[]" "g_connections g" "g_nodes g"] wf
    by (simp add: graph_wf_def nodeExists_def)
  ultimately show ?thesis by (simp add: clone_def getConnections_def)
qed

section \<open>Disabled nodes\<close>

definition is_disabled :: "INode \<Rightarrow> bool" where
  "is_disabled n = (disabled n = Some True)"

definition filterDisabledNodes :: "DirectedGraph \<Rightarrow> DirectedGraph result" where
  "filterDisabledNodes graph =
     bind_res (clone graph) (\<lambda>filteredGraph.
       fold_res (\<lambda>g n. if is_disabled n
                       then bind_res (removeNodeReconnect (\<lambda>c. gc_type c \<noteq> Main) n g)
                              (\<lambda>(_, g'). Inr g')
                       else Inr g)
         filteredGraph (getNodes filteredGraph))"

lemma nodeExists_removed:
  "nodeExists g n \<Longrightarrow> g_nodes g' = map_delete (node_name n) (g_nodes g) \<Longrightarrow>
     nodeExists g' m \<longleftrightarrow> nodeExists g m \<and> m \<noteq> n"
  by (auto simp: nodeExists_def)

lemma all_dash_free_removed:
  "all_dash_free g \<Longrightarrow> g_nodes g' = map_delete k (g_nodes g) \<Longrightarrow> all_dash_free g'"
  by (auto simp: all_dash_free_def getNodes_def list_all_iff set_map_delete)

lemma remove_disabled_step:
  assumes wf: "graph_wf g" "all_dash_free g" and n: "nodeExists g n" "is_disabled n"
    and ac: "acyclic (main_edges g \<inter> Collect is_disabled \<times> Collect is_disabled)"
  shows "\<exists>new g'. removeNodeReconnect (\<lambda>c. gc_type c \<noteq> Main) n g = Inr (new, g')
     \<and> graph_wf g' \<and> all_dash_free g' \<and> (\<forall>m. nodeExists g' m \<longleftrightarrow> nodeExists g m \<and> m \<noteq> n)
     \<and> main_edges g' = bypass n (main_edges g)
     \<and> acyclic (main_edges g' \<inter> Collect is_disabled \<times> Collect is_disabled)"
proof -
  let ?skip = "\<lambda>c. gc_type c \<noteq> Main"
  let ?D = "Collect is_disabled"
  obtain new g' where r: "removeNodeReconnect ?skip n g = Inr (new, g')"
    and new: "set new = {i\<lparr>to_node := to_node out, inputIndex := inputIndex out\<rparr> | i out.
       i \<in> conns g \<and> to_node i = n \<and> out \<in> conns g \<and> from_node out = n \<and> \<not> ?skip i \<and> \<not> ?skip out}"
    and nodes: "g_nodes g' = map_delete (node_name n) (g_nodes g)"
    and wf': "(\<forall>c \<in> set new. from_node c \<noteq> n \<and> to_node c \<noteq> n) \<Longrightarrow> graph_wf g'"
    by (rule removeNodeReconnect_spec [OF wf n(1), of ?skip]) blast
  have loop: "(n, n) \<notin> main_edges g"
  proof
    assume "(n, n) \<in> main_edges g"
    with n have "(n, n) \<in> (main_edges g \<inter> ?D \<times> ?D)\<^sup>+" by (intro r_into_trancl) simp
    with ac show False by (simp add: acyclic_def)
  qed
  then have "\<forall>c \<in> set new. from_node c \<noteq> n \<and> to_node c \<noteq> n"
    unfolding new by (auto simp: main_edges_iff)
  with wf' have g': "graph_wf g'" by blast
  have E: "main_edges g' = bypass n (main_edges g)"
    by (rule main_edges_removeNodeReconnect [OF wf n(1) r])
  have ex: "nodeExists g' m \<longleftrightarrow> nodeExists g m \<and> m \<noteq> n" for m
    by (rule nodeExists_removed [OF n(1) nodes])
  have "main_edges g' \<inter> ?D \<times> ?D = bypass n (main_edges g) \<inter> (?D - {n}) \<times> (?D - {n})"
    using main_edges_exist [OF g'] ex unfolding E by blast
  also have "\<dots> = bypass n (main_edges g \<inter> ?D \<times> ?D)"
    using n(2) loop by (intro bypass_restrict) auto
  finally have "acyclic (main_edges g' \<inter> ?D \<times> ?D)" using acyclic_bypass [OF ac] by simp
  with r g' E ex all_dash_free_removed [OF wf(2) nodes] show ?thesis by blast
qed

lemma filter_disabled_loop:
  assumes "graph_wf g" "all_dash_free g" "distinct ns" "\<forall>n \<in> set ns. nodeExists g n"
    and "acyclic (main_edges g \<inter> Collect is_disabled \<times> Collect is_disabled)"
  shows "\<exists>g'. fold_res (\<lambda>g n. if is_disabled n
        then bind_res (removeNodeReconnect (\<lambda>c. gc_type c \<noteq> Main) n g) (\<lambda>(_, g'). Inr g')
        else Inr g) g ns = Inr g'
     \<and> graph_wf g' \<and> all_dash_free g'
     \<and> (\<forall>m. nodeExists g' m \<longleftrightarrow> nodeExists g m \<and> \<not> (m \<in> set ns \<and> is_disabled m))
     \<and> (\<forall>a b. \<not> is_disabled a \<longrightarrow> \<not> is_disabled b \<longrightarrow>
           (a, b) \<in> (main_edges g')\<^sup>+ \<longleftrightarrow> (a, b) \<in> (main_edges g)\<^sup>+)"
  using assms
proof (induction ns arbitrary: g)
  case Nil
  then show ?case by simp
next
  case (Cons n ns)
  show ?case
  proof (cases "is_disabled n")
    case False
    with Cons.IH [OF Cons.prems(1,2) _ _ Cons.prems(5)] Cons.prems(3,4) show ?thesis by force
  next
    case True
    from remove_disabled_step [OF Cons.prems(1,2) _ True Cons.prems(5)] Cons.prems(4)
    obtain new h where h: "removeNodeReconnect (\<lambda>c. gc_type c \<noteq> Main) n g = Inr (new, h)"
      "graph_wf h" "all_dash_free h" "\<forall>m. nodeExists h m \<longleftrightarrow> nodeExists g m \<and> m \<noteq> n"
      "main_edges h = bypass n (main_edges g)"
      "acyclic (main_edges h \<inter> Collect is_disabled \<times> Collect is_disabled)" by auto
    have "distinct ns" "\<forall>m \<in> set ns. nodeExists h m" using Cons.prems(3,4) h(4) by auto
    from Cons.IH [OF h(2,3) this h(6)] obtain g' where
      g': "fold_res (\<lambda>g n. if is_disabled n
        then bind_res (removeNodeReconnect (\<lambda>c. gc_type c \<noteq> Main) n g) (\<lambda>(_, g'). Inr g')
        else Inr g) h ns = Inr g'" "graph_wf g'" "all_dash_free g'"
      "\<forall>m. nodeExists g' m \<longleftrightarrow> nodeExists h m \<and> \<not> (m \<in> set ns \<and> is_disabled m)"
      "\<forall>a b. \<not> is_disabled a \<longrightarrow> \<not> is_disabled b \<longrightarrow>
         (a, b) \<in> (main_edges g')\<^sup>+ \<longleftrightarrow> (a, b) \<in> (main_edges h)\<^sup>+" by blast
    have "(a, b) \<in> (main_edges g')\<^sup>+ \<longleftrightarrow> (a, b) \<in> (main_edges g)\<^sup>+"
      if "\<not> is_disabled a" "\<not> is_disabled b" for a b
      using g'(5) that True trancl_bypass [of a n b] unfolding h(5) by metis
    with g' h(1,4) True show ?thesis by (intro exI [of _ g']) auto
  qed
qed

lemma filterDisabledNodes_spec:
  assumes "graph_wf g" "all_dash_free g"
    and "acyclic (main_edges g \<inter> Collect is_disabled \<times> Collect is_disabled)"
  shows "\<exists>g'. filterDisabledNodes g = Inr g' \<and> graph_wf g'
     \<and> set (getNodes g') = {n \<in> set (getNodes g). \<not> is_disabled n}
     \<and> (\<forall>a b. \<not> is_disabled a \<longrightarrow> \<not> is_disabled b \<longrightarrow>
           (a, b) \<in> (main_edges g')\<^sup>+ \<longleftrightarrow> (a, b) \<in> (main_edges g)\<^sup>+)"
proof -
  have "distinct (getNodes g)"
  proof -
    have "map node_name (getNodes g) = map_keys (g_nodes g)"
      using assms(1) by (force simp: getNodes_def graph_wf_def)
    then show ?thesis using assms(1) by (metis distinct_map graph_wf_def map_wf_def)
  qed
  moreover have "\<forall>n \<in> set (getNodes g). nodeExists g n" by (simp add: nodeExists_iff [OF assms(1)])
  ultimately obtain g' where g': "fold_res (\<lambda>g n. if is_disabled n
        then bind_res (removeNodeReconnect (\<lambda>c. gc_type c \<noteq> Main) n g) (\<lambda>(_, g'). Inr g')
        else Inr g) g (getNodes g) = Inr g'"
    and wf': "graph_wf g'"
    and ex: "\<forall>m. nodeExists g' m \<longleftrightarrow> nodeExists g m \<and> \<not> (m \<in> set (getNodes g) \<and> is_disabled m)"
    and reach: "\<forall>a b. \<not> is_disabled a \<longrightarrow> \<not> is_disabled b \<longrightarrow>
       (a, b) \<in> (main_edges g')\<^sup>+ \<longleftrightarrow> (a, b) \<in> (main_edges g)\<^sup>+"
    using filter_disabled_loop [OF assms(1,2) _ _ assms(3), of "getNodes g"] by blast
  have "set (getNodes g') = {n \<in> set (getNodes g). \<not> is_disabled n}"
    using ex nodeExists_iff [OF wf'] nodeExists_iff [OF assms(1)] by blast
  with g' wf' reach show ?thesis
    by (simp add: filterDisabledNodes_def clone_eq [OF assms(1)])
qed

section \<open>The subgraph between trigger and destination\<close>

text \<open>The loop that keeps a branch: it adds the end points and the connection.\<close>

definition keep_branch :: "DirectedGraph \<Rightarrow> GraphConnection list \<Rightarrow> DirectedGraph result" where
  "keep_branch newGraph currentBranch =
     fold_res (\<lambda>ng c. addGraphConnection (addNodes [from_node c, to_node c] ng) c)
       newGraph currentBranch"

function findSubgraphRecursive ::
  "DirectedGraph \<Rightarrow> INode \<Rightarrow> INode \<Rightarrow> INode \<Rightarrow> DirectedGraph \<Rightarrow> GraphConnection list
     \<Rightarrow> DirectedGraph result" where
  "findSubgraphRecursive graph destinationNode current trigger newGraph currentBranch =
     (if current = trigger then keep_branch (addNode trigger newGraph) currentBranch
      else bind_res (getDirectParentConnections graph current) (\<lambda>parentConnections.
        if parentConnections = [] then Inr newGraph
        else if current = destinationNode
                \<and> list_ex (\<lambda>c. to_node c = destinationNode) currentBranch then Inr newGraph
        else if list_ex (\<lambda>c. to_node c = current) currentBranch then
          keep_branch newGraph currentBranch
        else fold_res (\<lambda>ng parentConnection.
               if gc_type parentConnection \<noteq> Main then Inr ng
               else findSubgraphRecursive graph destinationNode (from_node parentConnection)
                      trigger ng (currentBranch @ [parentConnection]))
             newGraph parentConnections))"
  by pat_completeness auto
termination
proof (relation "measure (\<lambda>(g, d, c, t, ng, branch). card (to_node ` conns g - to_node ` set branch))",
    goal_cases)
  case (2 g d cur t ng branch ps ng' p)
  have p: "p \<in> conns g" "to_node p = cur"
    using 2(2,6) by (auto simp: getDirectParentConnections_eq conns_def split: if_splits)
  have "cur \<notin> to_node ` set branch" using 2(5) by (auto simp: list_ex_iff)
  then have "to_node ` conns g - to_node ` set (branch @ [p]) \<subset> to_node ` conns g - to_node ` set branch"
    using p by auto
  then show ?case by (simp add: psubset_card_mono)
qed simp

declare findSubgraphRecursive.simps [simp del]

text \<open>The last loop of \<open>findSubgraph\<close>: utility nodes come back with their connections.\<close>

definition readd_utility_connections :: "DirectedGraph \<Rightarrow> DirectedGraph \<Rightarrow> INode \<Rightarrow> DirectedGraph result"
where
  "readd_utility_connections graph subgraph n =
     bind_res (getParentConnections graph n) (\<lambda>parentConnections.
       keep_branch subgraph (filter (\<lambda>c. gc_type c \<noteq> Main) parentConnections))"

definition findSubgraph :: "DirectedGraph \<Rightarrow> INode \<Rightarrow> INode \<Rightarrow> DirectedGraph result" where
  "findSubgraph graph destination trigger =
     bind_res (findSubgraphRecursive graph destination destination trigger empty_graph [])
       (\<lambda>subgraph. fold_res (readd_utility_connections graph) subgraph (getNodes subgraph))"

text \<open>A part of a graph: the same nodes and connections under the same names and keys.\<close>

definition part_of :: "DirectedGraph \<Rightarrow> DirectedGraph \<Rightarrow> bool" where
  "part_of h g =
     (graph_wf h \<and> (\<forall>n. nodeExists h n \<longrightarrow> nodeExists g n) \<and> conns h \<subseteq> conns g)"

lemma part_of_empty: "part_of empty_graph g"
  by (simp add: part_of_def nodeExists_def empty_graph_def conns_def graph_wf_def)

lemma nodeExists_addNode:
  "nodeExists (addNode n h) m \<longleftrightarrow> m = n \<or> (node_name m \<noteq> node_name n \<and> nodeExists h m)"
  by (auto simp: nodeExists_def addNode_def)

text \<open>Adding a node of \<open>g\<close> to a part of \<open>g\<close> changes nothing that is already there.\<close>

lemma part_of_addNode:
  assumes "part_of h g" "nodeExists g n"
  shows "part_of (addNode n h) g"
    and "nodeExists (addNode n h) m \<longleftrightarrow> m = n \<or> nodeExists h m"
    and "conns (addNode n h) = conns h"
proof -
  have same: "m = n" if "nodeExists h m" "node_name m = node_name n" for m
    using assms that nodeExists_inject [of g m n] by (simp add: part_of_def)
  then show ex: "nodeExists (addNode n h) m \<longleftrightarrow> m = n \<or> nodeExists h m" for m
    by (auto simp: nodeExists_addNode)
  show c: "conns (addNode n h) = conns h" by (simp add: conns_def addNode_def)
  have "graph_wf (addNode n h)"
    unfolding graph_wf_def
  proof (intro conjI)
    show "\<forall>(k, m) \<in> set (g_nodes (addNode n h)). node_name m = k"
      using assms(1) set_map_set_subset [of "node_name n" n "g_nodes h"]
      by (auto simp: part_of_def graph_wf_def addNode_def)
    have "k = makeKey c \<and> nodeExists (addNode n h) (from_node c) \<and> nodeExists (addNode n h) (to_node c)"
      if "(k, c) \<in> set (g_connections h)" for k c
      using graph_wf_connD [OF _ that] assms(1) ex by (simp add: part_of_def)
    then show "\<forall>(k, c) \<in> set (g_connections (addNode n h)). k = makeKey c
        \<and> nodeExists (addNode n h) (from_node c) \<and> nodeExists (addNode n h) (to_node c)"
      by (auto simp: addNode_def)
  qed (use assms(1) in \<open>auto simp: part_of_def graph_wf_def addNode_def\<close>)
  with assms ex c show "part_of (addNode n h) g" by (auto simp: part_of_def)
qed

text \<open>Every connection of \<open>h\<close> whose source is dash free stays when another one is kept.\<close>

lemma keep_one:
  assumes "part_of h g" "graph_wf g" "all_dash_free g" "c \<in> conns g"
  shows "\<exists>h'. addGraphConnection (addNodes [from_node c, to_node c] h) c = Inr h' \<and> part_of h' g
     \<and> conns h' = insert c (conns h)
     \<and> (\<forall>m. nodeExists h' m \<longleftrightarrow> m = from_node c \<or> m = to_node c \<or> nodeExists h m)"
proof -
  have ex: "nodeExists g (from_node c)" "nodeExists g (to_node c)"
    using conns_exist [OF assms(2,4)] by auto
  let ?h = "addNode (to_node c) (addNode (from_node c) h)"
  note 1 = part_of_addNode [OF assms(1) ex(1)]
  note 2 = part_of_addNode [OF 1(1) ex(2)]
  have h: "graph_wf ?h" "nodeExists ?h (from_node c)" "nodeExists ?h (to_node c)"
    using 2(1) by (auto simp: part_of_def 2(2) 1(2))
  have "all_dash_free ?h"
    using nodeExists_iff [OF h(1)] all_dash_freeD [OF assms(2,3)] 2(1)
    by (auto simp: all_dash_free_def list_all_iff part_of_def)
  then have "conns (set_connection c ?h) = insert c (conns h)"
    using conns_set_connection [OF h(1) _ h(2,3)] 1(3) 2(3) by simp
  moreover have "graph_wf (set_connection c ?h)" by (rule graph_wf_set_connection [OF h])
  ultimately have "part_of (set_connection c ?h) g"
    using 2(1) assms(1,4) by (auto simp: part_of_def)
  with \<open>conns (set_connection c ?h) = insert c (conns h)\<close> h show ?thesis
    by (auto simp: addNodes_def addGraphConnection_eq 2(2) 1(2))
qed

lemma keep_branch_spec:
  assumes "part_of h g" "graph_wf g" "all_dash_free g" "set branch \<subseteq> conns g"
  shows "\<exists>h'. keep_branch h branch = Inr h' \<and> part_of h' g \<and> conns h' = conns h \<union> set branch
     \<and> (\<forall>m. nodeExists h' m \<longleftrightarrow> m \<in> from_node ` set branch \<union> to_node ` set branch \<or> nodeExists h m)"
  using assms
proof (induction branch arbitrary: h)
  case Nil
  then show ?case by (simp add: keep_branch_def)
next
  case (Cons c cs)
  from keep_one [OF Cons.prems(1-3), of c] Cons.prems(4) obtain h1 where
    h1: "addGraphConnection (addNodes [from_node c, to_node c] h) c = Inr h1" "part_of h1 g"
    "conns h1 = insert c (conns h)"
    "\<forall>m. nodeExists h1 m \<longleftrightarrow> m = from_node c \<or> m = to_node c \<or> nodeExists h m" by auto
  from Cons.IH [OF h1(2) Cons.prems(2,3)] Cons.prems(4) obtain h' where
    "keep_branch h1 cs = Inr h'" "part_of h' g" "conns h' = conns h1 \<union> set cs"
    "\<forall>m. nodeExists h' m \<longleftrightarrow> m \<in> from_node ` set cs \<union> to_node ` set cs \<or> nodeExists h1 m" by auto
  with h1 show ?case by (auto simp: keep_branch_def)
qed

text \<open>What the recursion keeps: a part of the graph that only grows.\<close>

definition grows :: "DirectedGraph \<Rightarrow> DirectedGraph \<Rightarrow> DirectedGraph \<Rightarrow> bool" where
  "grows g h h' = (part_of h' g \<and> conns h \<subseteq> conns h' \<and> (\<forall>m. nodeExists h m \<longrightarrow> nodeExists h' m))"

lemma grows_refl [simp]: "grows g h h \<longleftrightarrow> part_of h g"
  by (simp add: grows_def)

lemma grows_trans: "grows g a b \<Longrightarrow> grows g b c \<Longrightarrow> grows g a c"
  by (auto simp: grows_def)

lemma keep_branch_grows:
  assumes "part_of h g" "graph_wf g" "all_dash_free g" "set branch \<subseteq> conns g"
  shows "\<exists>h'. keep_branch h branch = Inr h' \<and> grows g h h' \<and> set branch \<subseteq> conns h'"
  using keep_branch_spec [OF assms] by (auto simp: grows_def)

lemma fold_res_grows:
  assumes "part_of h g" "\<And>x t. x \<in> set xs \<Longrightarrow> part_of t g \<Longrightarrow> \<exists>t'. f t x = Inr t' \<and> grows g t t'"
  shows "\<exists>h'. fold_res f h xs = Inr h' \<and> grows g h h'"
proof (rule fold_res_total)
  show "grows g h h" using assms(1) by simp
  fix t x assume x: "x \<in> set xs" and t: "grows g h t"
  then have "part_of t g" by (simp add: grows_def)
  from assms(2) [OF x this] obtain t' where "f t x = Inr t'" "grows g t t'" by blast
  with grows_trans [OF t] show "\<exists>t'. f t x = Inr t' \<and> grows g h t'" by blast
qed

lemma findSubgraphRecursive_grows:
  assumes "graph_wf g" "all_dash_free g"
  shows "part_of h g \<Longrightarrow> set branch \<subseteq> conns g \<Longrightarrow> nodeExists g cur \<Longrightarrow>
     \<exists>h'. findSubgraphRecursive g d cur t h branch = Inr h' \<and> grows g h h'"
  using assms
proof (induction g d cur t h branch rule: findSubgraphRecursive.induct)
  case (1 g d cur t h branch)
  let ?ps = "filter (\<lambda>c. to_node c = cur) (map_values (g_connections g))"
  have ps: "getDirectParentConnections g cur = Inr ?ps"
    using "1.prems" by (simp add: getDirectParentConnections_eq)
  have sub: "set ?ps \<subseteq> conns g" by (auto simp: conns_def)
  show ?case
  proof (cases "cur = t")
    case True
    then have "part_of (addNode t h) g" and g: "grows g h (addNode t h)"
      using part_of_addNode [OF "1.prems"(1), of t] "1.prems"(3) by (auto simp: grows_def)
    from keep_branch_grows [OF this(1) "1.prems"(4,5,2)] obtain h' where
      "keep_branch (addNode t h) branch = Inr h'" "grows g (addNode t h) h'" by blast
    with True grows_trans [OF g] show ?thesis by (auto simp: findSubgraphRecursive.simps)
  next
    case ne: False
    show ?thesis
    proof (cases "?ps = [] \<or> cur = d \<and> list_ex (\<lambda>c. to_node c = d) branch")
      case True
      with ne ps "1.prems"(1) show ?thesis
        by (auto simp: findSubgraphRecursive.simps [of g d cur t h branch])
    next
      case go: False
      show ?thesis
      proof (cases "list_ex (\<lambda>c. to_node c = cur) branch")
        case True
        with ne ps go keep_branch_grows [OF "1.prems"(1,4,5,2)] show ?thesis
          by (auto simp: findSubgraphRecursive.simps [of g d cur t h branch])
      next
        case False
        let ?f = "\<lambda>ng p. if gc_type p \<noteq> Main then Inr ng
          else findSubgraphRecursive g d (from_node p) t ng (branch @ [p])"
        have "\<exists>h'. fold_res ?f h ?ps = Inr h' \<and> grows g h h'"
        proof (rule fold_res_grows [OF "1.prems"(1)])
          fix p ng assume p: "p \<in> set ?ps" and ng: "part_of ng g"
          have "p \<in> conns g" using p sub by blast
          then have "nodeExists g (from_node p)" "set (branch @ [p]) \<subseteq> conns g"
            using conns_exist [OF "1.prems"(4)] "1.prems"(2) by auto
          with "1.IH" [OF ne ps _ _ False p _ ng] go ng "1.prems"(4,5)
          show "\<exists>h'. ?f ng p = Inr h' \<and> grows g ng h'" by auto
        qed
        with ne ps go False show ?thesis
          by (auto simp: findSubgraphRecursive.simps [of g d cur t h branch])
      qed
    qed
  qed
qed

text \<open>A path of \<open>Main\<close> connections, written from its end back to its start.\<close>

fun back_path :: "DirectedGraph \<Rightarrow> INode \<Rightarrow> GraphConnection list \<Rightarrow> INode \<Rightarrow> bool" where
  "back_path g cur [] t = (cur = t)"
| "back_path g cur (p # ps) t =
     (p \<in> conns g \<and> gc_type p = Main \<and> to_node p = cur \<and> back_path g (from_node p) ps t)"

lemma findSubgraphRecursive_path:
  assumes "graph_wf g" "all_dash_free g"
  shows "findSubgraphRecursive g d cur t h branch = Inr h' \<Longrightarrow> part_of h g \<Longrightarrow>
     set branch \<subseteq> conns g \<Longrightarrow> nodeExists g cur \<Longrightarrow> back_path g cur path t \<Longrightarrow>
     distinct (map to_node (branch @ path)) \<Longrightarrow> t \<notin> to_node ` set path \<Longrightarrow>
     set (branch @ path) \<subseteq> conns h'"
proof (induction path arbitrary: cur h branch h')
  case Nil
  then have "part_of (addNode t h) g" using part_of_addNode(1) by simp
  with keep_branch_grows [OF this assms Nil.prems(3)] Nil.prems show ?case
    by (auto simp: findSubgraphRecursive.simps)
next
  case (Cons p ps)
  let ?ps = "filter (\<lambda>c. to_node c = cur) (map_values (g_connections g))"
  let ?f = "\<lambda>ng p. if gc_type p \<noteq> Main then Inr ng
          else findSubgraphRecursive g d (from_node p) t ng (branch @ [p])"
  have p: "p \<in> conns g" "gc_type p = Main" "to_node p = cur" "back_path g (from_node p) ps t"
    using Cons.prems(5) by auto
  have pin: "p \<in> set ?ps" using p by (auto simp: conns_def)
  have fresh: "\<not> list_ex (\<lambda>c. to_node c = cur) branch"
    using Cons.prems(6) p(3) by (auto simp: list_ex_iff image_iff)
  have "cur \<noteq> t" using Cons.prems(7) p(3) by auto
  moreover have "?ps \<noteq> []" using pin by (metis empty_iff list.set(1))
  ultimately have fold: "fold_res ?f h ?ps = Inr h'"
    using Cons.prems(1,4) fresh
    by (simp add: findSubgraphRecursive.simps [of g d cur] getDirectParentConnections_eq
        split: if_split_asm)
  have grow: "grows g ng ng'" if "q \<in> set ?ps" "part_of ng g" "?f ng q = Inr ng'" for q ng ng'
  proof (cases "gc_type q = Main")
    case True
    have q: "q \<in> conns g" using that(1) by (auto simp: conns_def)
    then have "\<exists>h'. findSubgraphRecursive g d (from_node q) t ng (branch @ [q]) = Inr h' \<and> grows g ng h'"
      using that(2) Cons.prems(3) conns_exist [OF assms(1) q]
      by (intro findSubgraphRecursive_grows [OF assms]) auto
    with True that(3) show ?thesis by auto
  qed (use that in auto)
  show ?case
  proof (rule fold_res_establish [OF fold pin, where Q = "\<lambda>ng. part_of ng g"
        and P = "\<lambda>ng. part_of ng g \<and> set (branch @ p # ps) \<subseteq> conns ng", THEN conjunct2])
    show "part_of h g" by fact
  next
    fix ng q ng' assume "q \<in> set ?ps" "part_of ng g" "?f ng q = Inr ng'"
    then show "part_of ng' g" using grow by (simp add: grows_def)
  next
    fix ng ng' assume ng: "part_of ng g" "?f ng p = Inr ng'"
    then have "set ((branch @ [p]) @ ps) \<subseteq> conns ng'"
      using p Cons.prems conns_exist [OF assms(1) p(1)]
      by (intro Cons.IH [of "from_node p" ng "branch @ [p]" ng']) auto
    with grow [OF pin ng] show "part_of ng' g \<and> set (branch @ p # ps) \<subseteq> conns ng'"
      by (simp add: grows_def)
  next
    fix ng q ng' assume "q \<in> set ?ps" "part_of ng g \<and> set (branch @ p # ps) \<subseteq> conns ng"
      "?f ng q = Inr ng'"
    with grow [of q ng ng'] show "part_of ng' g \<and> set (branch @ p # ps) \<subseteq> conns ng'"
      unfolding grows_def by blast
  qed
qed

lemma getNodes_exist: "graph_wf g \<Longrightarrow> n \<in> set (getNodes g) \<Longrightarrow> nodeExists g n"
  by (simp add: nodeExists_iff)

lemma readd_utility_grows:
  assumes "graph_wf g" "all_dash_free g" "nodeExists g n" "part_of h g"
  shows "\<exists>h'. readd_utility_connections g h n = Inr h' \<and> grows g h h'
     \<and> {c \<in> conns g. gc_type c \<noteq> Main \<and> (to_node c, n) \<in> (graph_edges g)\<^sup>*} \<subseteq> conns h'"
proof -
  from getParentConnections_spec [OF assms(1,3)] obtain r where
    r: "getParentConnections g n = Inr r"
    "set r = {c \<in> conns g. (to_node c, n) \<in> (graph_edges g)\<^sup>*}" by blast
  have "set (filter (\<lambda>c. gc_type c \<noteq> Main) r) \<subseteq> conns g" using r(2) by auto
  from keep_branch_grows [OF assms(4,1,2) this] obtain h' where
    "keep_branch h (filter (\<lambda>c. gc_type c \<noteq> Main) r) = Inr h'" "grows g h h'"
    "set (filter (\<lambda>c. gc_type c \<noteq> Main) r) \<subseteq> conns h'" by blast
  with r show ?thesis by (auto simp: readd_utility_connections_def)
qed

lemma findSubgraph_spec:
  assumes wf: "graph_wf g" "all_dash_free g" and d: "nodeExists g d"
  shows "\<exists>h. findSubgraph g d t = Inr h \<and> part_of h g
     \<and> (\<forall>path. back_path g d path t \<longrightarrow> distinct (map to_node path) \<longrightarrow> t \<notin> to_node ` set path \<longrightarrow>
           set path \<subseteq> conns h)"
proof -
  have "\<exists>h0. findSubgraphRecursive g d d t empty_graph [] = Inr h0 \<and> grows g empty_graph h0"
    by (rule findSubgraphRecursive_grows [OF wf part_of_empty _ d]) simp
  then obtain h0 where h0: "findSubgraphRecursive g d d t empty_graph [] = Inr h0" "part_of h0 g"
    by (auto simp: grows_def)
  have "\<exists>h. fold_res (readd_utility_connections g) h0 (getNodes h0) = Inr h \<and> grows g h0 h"
  proof (rule fold_res_grows [OF h0(2)])
    fix n h assume "n \<in> set (getNodes h0)" "part_of h g"
    moreover from this have "nodeExists g n"
      using h0(2) getNodes_exist by (auto simp: part_of_def)
    ultimately show "\<exists>h'. readd_utility_connections g h n = Inr h' \<and> grows g h h'"
      using readd_utility_grows [OF wf] by blast
  qed
  then obtain h where h: "fold_res (readd_utility_connections g) h0 (getNodes h0) = Inr h"
    "grows g h0 h" by blast
  have "set path \<subseteq> conns h" if "back_path g d path t" "distinct (map to_node path)"
    "t \<notin> to_node ` set path" for path
    using findSubgraphRecursive_path [OF wf h0(1) part_of_empty _ d that(1)] that(2,3) h(2)
    by (auto simp: grows_def)
  with h0 h show ?thesis by (auto simp: findSubgraph_def grows_def)
qed

section \<open>Running a tool\<close>

text \<open>
  \<open>rewireGraph\<close> assigns to a property of the node object \<open>tool\<close>, which the graph shares: the
  assignment shows in the map of nodes and in the connections.
\<close>

definition replace_node :: "INode \<Rightarrow> INode \<Rightarrow> INode \<Rightarrow> INode" where
  "replace_node old new n = (if n = old then new else n)"

definition mutate_node :: "INode \<Rightarrow> INode \<Rightarrow> DirectedGraph \<Rightarrow> DirectedGraph" where
  "mutate_node old new g =
     \<lparr>g_nodes = map (\<lambda>(k, n). (k, replace_node old new n)) (g_nodes g),
      g_connections = map (\<lambda>(k, c). (k, c\<lparr>from_node := replace_node old new (from_node c),
                                         to_node := replace_node old new (to_node c)\<rparr>))
                          (g_connections g)\<rparr>"

definition TOOL_EXECUTOR_NODE_NAME :: string where
  "TOOL_EXECUTOR_NODE_NAME = ''PartialExecutionToolExecutor''"

text \<open>The object literal \<open>toolExecutor\<close>; \<open>fresh\<close> is the identity of the new object.\<close>

definition tool_executor :: "nat \<Rightarrow> INode \<Rightarrow> (json option \<times> string option) option \<Rightarrow> INode" where
  "tool_executor fresh rootNode agentRequest =
     (new_INode fresh TOOL_EXECUTOR_NODE_NAME ''@n8n/n8n-nodes-langchain.toolExecutor'')
       \<lparr>disabled := Some False,
        parameters := [(''query'', case agentRequest of Some (Some q, _) \<Rightarrow> q | _ \<Rightarrow> JObj []),
                       (''toolName'', JStr (case agentRequest of Some (_, Some nm) \<Rightarrow> nm | _ \<Rightarrow> []))],
        node_id := node_id rootNode, typeVersion := 0\<rparr>"

definition rewireGraph ::
  "nat \<Rightarrow> INode \<Rightarrow> DirectedGraph \<Rightarrow> (json option \<times> string option) option \<Rightarrow> DirectedGraph result" where
  "rewireGraph fresh tool graph agentRequest =
     bind_res (clone graph) (\<lambda>modifiedGraph.
     bind_res (getChildren modifiedGraph tool) (\<lambda>children.
       case children of [] \<Rightarrow> Inr graph
       | rootNode # _ \<Rightarrow>
         bind_res (getDirectParentConnections modifiedGraph rootNode) (\<lambda>incoming.
           let allIncomingConnection = filter (\<lambda>cn. gc_type cn = Main) incoming;
               toolExecutor = tool_executor fresh rootNode agentRequest;
               tool' = tool\<lparr>rewireOutputLogTo := Some AiTool\<rparr>;
               g1 = mutate_node tool tool' (addNode toolExecutor modifiedGraph)
           in bind_res (addConnection tool' toolExecutor (Some AiTool) None None g1) (\<lambda>g2.
              bind_res (fold_res (\<lambda>g cn. addConnection (replace_node tool tool' (from_node cn))
                                          toolExecutor (Some (gc_type cn)) None None g)
                          g2 allIncomingConnection) (\<lambda>g3.
                Inr (removeNode (replace_node tool tool' rootNode) g3))))))"

end
