(* ===== verification/Strong_Components.thy ===== *)
theory Strong_Components
  imports Graph_Queries
begin

text \<open>
  \<open>getStronglyConnectedComponents\<close> of \<open>directed-graph.ts\<close>. The local variables that the
  closure \<open>followNode\<close> mutates are the record \<open>tarjan\<close>; its recursion and the loop over
  the children are \<open>tarjan_loop\<close>. The stack grows at its end, as the array does.

  The theorems: the algorithm does not throw on a well-formed graph, the components it reports
  are disjoint sets of nodes of the graph, and any two nodes of one component reach each other.
  It does not report every component (\<open>scc_missed\<close>): the popping loop stops at the first node
  whose low-link value is not the identifier of the root, although such a node can belong to
  the component.
\<close>

record tarjan =
  t_id :: nat
  t_visited :: "INode list"
  t_ids :: "(INode, nat) jsmap"
  t_low :: "(INode, nat) jsmap"
  t_stack :: "INode list"
  t_sccs :: "INode list list"

definition tarjan_init :: tarjan where
  "tarjan_init = \<lparr>t_id = 0, t_visited = [], t_ids = [], t_low = [], t_stack = [], t_sccs = []\<rparr>"

text \<open>The assignments at the start of \<open>followNode\<close>.\<close>

definition tarjan_enter :: "INode \<Rightarrow> tarjan \<Rightarrow> tarjan" where
  "tarjan_enter n st =
     st\<lparr>t_visited := set_add n (t_visited st), t_low := map_set n (t_id st) (t_low st),
        t_ids := map_set n (t_id st) (t_ids st), t_id := t_id st + 1,
        t_stack := t_stack st @ [n]\<rparr>"

text \<open>What the loop over the children does after a child was followed.\<close>

definition tarjan_update :: "INode \<Rightarrow> INode \<Rightarrow> tarjan \<Rightarrow> tarjan result" where
  "tarjan_update n child st =
     (if child \<in> set (t_stack st) then
        case map_get (t_low st) child of None \<Rightarrow> Inl AssertionError
        | Some childLow \<Rightarrow>
            (case map_get (t_low st) n of None \<Rightarrow> Inl AssertionError
             | Some ownLow \<Rightarrow> Inr (st\<lparr>t_low := map_set n (min childLow ownLow) (t_low st)\<rparr>))
      else Inr st)"

text \<open>The end of \<open>followNode\<close>: the test of the root and the popping loop.\<close>

definition tarjan_finish :: "INode \<Rightarrow> tarjan \<Rightarrow> tarjan result" where
  "tarjan_finish n st =
     (case map_get (t_ids st) n of None \<Rightarrow> Inl AssertionError
      | Some ownId \<Rightarrow>
          (case map_get (t_low st) n of None \<Rightarrow> Inl AssertionError
           | Some ownLow \<Rightarrow>
               if ownId = ownLow then
                 let popping = (\<lambda>next. map_get (t_low st) next = Some ownId);
                     scc = takeWhile popping (rev (t_stack st));
                     st' = st\<lparr>t_stack := rev (dropWhile popping (rev (t_stack st)))\<rparr>
                 in Inr (if scc \<noteq> [] then st'\<lparr>t_sccs := t_sccs st' @ [scc]\<rparr> else st')
               else Inr st))"

function tarjan_loop :: "DirectedGraph \<Rightarrow> INode \<Rightarrow> INode list \<Rightarrow> tarjan \<Rightarrow> tarjan result" where
  "tarjan_loop g n [] st = Inr st"
| "tarjan_loop g n (child # children) st =
     bind_res
       (if child \<in> set (t_visited st) then Inr st
        else bind_res (child_nodes g child) (\<lambda>ms.
             bind_res (tarjan_loop g child ms (tarjan_enter child st)) (\<lambda>st'.
               tarjan_finish child st')))
       (\<lambda>st'. bind_res (tarjan_update n child st') (\<lambda>st''. tarjan_loop g n children st''))"
  by pat_completeness auto

lemma tarjan_update_visited: "tarjan_update n c st = Inr st' \<Longrightarrow> t_visited st' = t_visited st"
  by (auto simp: tarjan_update_def split: if_splits option.splits)

lemma tarjan_finish_visited: "tarjan_finish n st = Inr st' \<Longrightarrow> t_visited st' = t_visited st"
  by (auto simp: tarjan_finish_def Let_def split: if_splits option.splits)

lemma tarjan_loop_mono:
  "tarjan_loop_dom (g, n, cs, st) \<Longrightarrow> tarjan_loop g n cs st = Inr st' \<Longrightarrow>
     set (t_visited st) \<subseteq> set (t_visited st')"
proof (induction g n cs st arbitrary: st' rule: tarjan_loop.pinduct)
  case (1 g n st)
  then show ?case by (simp add: tarjan_loop.psimps)
next
  case (2 g n c cs st)
  from 2(1,4) obtain st1 st2 where
    a: "(if c \<in> set (t_visited st) then Inr st
         else bind_res (child_nodes g c) (\<lambda>ms.
              bind_res (tarjan_loop g c ms (tarjan_enter c st)) (tarjan_finish c))) = Inr st1"
    and b: "tarjan_update n c st1 = Inr st2" "tarjan_loop g n cs st2 = Inr st'"
    by (auto simp: tarjan_loop.psimps bind_res_eq_Inr)
  have "set (t_visited st) \<subseteq> set (t_visited st1)"
  proof (cases "c \<in> set (t_visited st)")
    case False
    with a obtain ms st0 where m: "child_nodes g c = Inr ms"
      "tarjan_loop g c ms (tarjan_enter c st) = Inr st0" "tarjan_finish c st0 = Inr st1"
      by (auto simp: bind_res_eq_Inr)
    with 2(2) [OF False m(1,2)] tarjan_finish_visited [OF m(3)] show ?thesis
      by (auto simp: tarjan_enter_def)
  qed (use a in simp)
  also have "\<dots> \<subseteq> set (t_visited st')"
    using 2(3) [OF a b] tarjan_update_visited [OF b(1)] by simp
  finally show ?case .
qed

termination tarjan_loop
proof (relation "inv_image (trav_par (\<lambda>g. from_node ` conns g))
    (\<lambda>(g, n, cs, st). (g, cs, t_visited st))")
  fix g :: DirectedGraph and n child :: INode and children and st :: tarjan and ms
  let ?R = "inv_image (trav_par (\<lambda>g. from_node ` conns g)) (\<lambda>(g, n, cs, st). (g, cs, t_visited st))"
  assume c: "child \<notin> set (t_visited st)" and ms: "child_nodes g child = Inr ms"
  then show "((g, child, ms, tarjan_enter child st), (g, n, child # children, st)) \<in> ?R"
    using child_nodes_source [OF ms]
    by (auto simp: tarjan_enter_def set_add_def intro!: trav_par_child)
next
  fix g :: DirectedGraph and n child :: INode and children and st st1 st2 :: tarjan
  let ?R = "inv_image (trav_par (\<lambda>g. from_node ` conns g)) (\<lambda>(g, n, cs, st). (g, cs, t_visited st))"
  let ?follow = "if child \<in> set (t_visited st) then Inr st
         else bind_res (child_nodes g child) (\<lambda>ms.
              bind_res (tarjan_loop g child ms (tarjan_enter child st)) (tarjan_finish child))"
  assume dom: "\<And>ms. child \<notin> set (t_visited st) \<Longrightarrow> child_nodes g child = Inr ms \<Longrightarrow>
      tarjan_loop_dom (g, child, ms, tarjan_enter child st)"
    and f: "?follow = Inr st1" and u: "tarjan_update n child st1 = Inr st2"
  have "set (t_visited st) \<subseteq> set (t_visited st1)"
  proof (cases "child \<in> set (t_visited st)")
    case False
    with f obtain ms st0 where m: "child_nodes g child = Inr ms"
      "tarjan_loop g child ms (tarjan_enter child st) = Inr st0" "tarjan_finish child st0 = Inr st1"
      by (auto simp: bind_res_eq_Inr)
    with tarjan_loop_mono [OF dom [OF False m(1)] m(2)] tarjan_finish_visited [OF m(3)]
    show ?thesis by (auto simp: tarjan_enter_def)
  qed (use f in simp)
  then show "((g, n, children, st2), (g, n, child # children, st)) \<in> ?R"
    using tarjan_update_visited [OF u] by (auto intro!: trav_par_sibling)
qed auto

text \<open>\<open>followNode\<close> itself, and the loop over all nodes.\<close>

definition followNode :: "DirectedGraph \<Rightarrow> tarjan \<Rightarrow> INode \<Rightarrow> tarjan result" where
  "followNode g st n =
     (if n \<in> set (t_visited st) then Inr st
      else bind_res (child_nodes g n) (\<lambda>ms.
           bind_res (tarjan_loop g n ms (tarjan_enter n st)) (\<lambda>st'. tarjan_finish n st')))"

definition getStronglyConnectedComponents :: "DirectedGraph \<Rightarrow> INode list list result" where
  "getStronglyConnectedComponents g =
     bind_res (fold_res (followNode g) tarjan_init (getNodes g)) (\<lambda>st. Inr (t_sccs st))"

lemma tarjan_loop_Cons:
  "tarjan_loop g n (child # children) st =
     bind_res (followNode g st child)
       (\<lambda>st'. bind_res (tarjan_update n child st') (\<lambda>st''. tarjan_loop g n children st''))"
  by (simp add: followNode_def)

section \<open>Invariant\<close>

definition strongly_connected :: "DirectedGraph \<Rightarrow> INode set \<Rightarrow> bool" where
  "strongly_connected g C = (\<forall>x \<in> C. \<forall>y \<in> C. (x, y) \<in> (graph_edges g)\<^sup>*)"

text \<open>
  Visited nodes have an identifier and a low-link value not above it; the low-link value is
  the identifier of a node that can be reached; identifiers are unique; the stack and the
  reported components are disjoint, and the components are strongly connected.
\<close>

definition tarjan_inv :: "DirectedGraph \<Rightarrow> tarjan \<Rightarrow> bool" where
  "tarjan_inv g st =
     ((\<forall>n \<in> set (t_visited st). nodeExists g n
         \<and> (\<exists>i l. map_get (t_ids st) n = Some i \<and> map_get (t_low st) n = Some l
                  \<and> l \<le> i \<and> i < t_id st))
      \<and> (\<forall>n l. map_get (t_low st) n = Some l \<longrightarrow>
             (\<exists>m. map_get (t_ids st) m = Some l \<and> (n, m) \<in> (graph_edges g)\<^sup>*))
      \<and> (\<forall>m n i. map_get (t_ids st) m = Some i \<longrightarrow> map_get (t_ids st) n = Some i \<longrightarrow> m = n)
      \<and> (\<forall>m i. map_get (t_ids st) m = Some i \<longrightarrow> m \<in> set (t_visited st))
      \<and> set (t_stack st) \<union> set (concat (t_sccs st)) \<subseteq> set (t_visited st)
      \<and> distinct (t_stack st @ concat (t_sccs st))
      \<and> (\<forall>C \<in> set (t_sccs st). strongly_connected g (set C)))"

text \<open>What a call leaves alone: the stack below, and the identifiers given before.\<close>

definition tarjan_ext :: "DirectedGraph \<Rightarrow> INode \<Rightarrow> tarjan \<Rightarrow> tarjan \<Rightarrow> bool" where
  "tarjan_ext g n st st' =
     ((\<exists>new. t_stack st' = t_stack st @ new \<and> (\<forall>m \<in> set new. (n, m) \<in> (graph_edges g)\<^sup>*))
      \<and> set (t_visited st) \<subseteq> set (t_visited st')
      \<and> (\<forall>m \<in> set (t_visited st). map_get (t_ids st') m = map_get (t_ids st) m))"

lemma tarjan_ext_refl [simp, intro]: "tarjan_ext g n st st"
  by (simp add: tarjan_ext_def)

lemma tarjan_ext_trans:
  "tarjan_ext g n a b \<Longrightarrow> tarjan_ext g n b c \<Longrightarrow> tarjan_ext g n a c"
  unfolding tarjan_ext_def by auto

lemma tarjan_ext_step:
  "(n, m) \<in> (graph_edges g)\<^sup>* \<Longrightarrow> tarjan_ext g m a b \<Longrightarrow> tarjan_ext g n a b"
  unfolding tarjan_ext_def by (meson rtrancl_trans)

lemma tarjan_invI:
  assumes "\<And>n. n \<in> set (t_visited st) \<Longrightarrow> nodeExists g n \<and> (\<exists>i l. map_get (t_ids st) n = Some i
      \<and> map_get (t_low st) n = Some l \<and> l \<le> i \<and> i < t_id st)"
    and "\<And>n l. map_get (t_low st) n = Some l \<Longrightarrow>
      \<exists>m. map_get (t_ids st) m = Some l \<and> (n, m) \<in> (graph_edges g)\<^sup>*"
    and "\<And>m n i. map_get (t_ids st) m = Some i \<Longrightarrow> map_get (t_ids st) n = Some i \<Longrightarrow> m = n"
    and "\<And>m i. map_get (t_ids st) m = Some i \<Longrightarrow> m \<in> set (t_visited st)"
    and "set (t_stack st) \<union> set (concat (t_sccs st)) \<subseteq> set (t_visited st)"
    and "distinct (t_stack st @ concat (t_sccs st))"
    and "\<And>C. C \<in> set (t_sccs st) \<Longrightarrow> strongly_connected g (set C)"
  shows "tarjan_inv g st"
  unfolding tarjan_inv_def by (intro conjI) (use assms in blast)+

lemma tarjan_invD:
  assumes "tarjan_inv g st"
  shows "n \<in> set (t_visited st) \<Longrightarrow> nodeExists g n"
    and "n \<in> set (t_visited st) \<Longrightarrow> \<exists>i l. map_get (t_ids st) n = Some i
      \<and> map_get (t_low st) n = Some l \<and> l \<le> i \<and> i < t_id st"
    and "map_get (t_low st) n = Some l \<Longrightarrow>
      \<exists>m. map_get (t_ids st) m = Some l \<and> (n, m) \<in> (graph_edges g)\<^sup>*"
    and "map_get (t_ids st) m = Some i \<Longrightarrow> map_get (t_ids st) n = Some i \<Longrightarrow> m = n"
    and "map_get (t_ids st) m = Some i \<Longrightarrow> m \<in> set (t_visited st)"
    and "set (t_stack st) \<union> set (concat (t_sccs st)) \<subseteq> set (t_visited st)"
    and "distinct (t_stack st @ concat (t_sccs st))"
    and "C \<in> set (t_sccs st) \<Longrightarrow> strongly_connected g (set C)"
  using assms unfolding tarjan_inv_def by (elim conjE, blast)+

lemma tarjan_enter_sel [simp]:
  "t_id (tarjan_enter n st) = t_id st + 1"
  "t_visited (tarjan_enter n st) = set_add n (t_visited st)"
  "t_ids (tarjan_enter n st) = map_set n (t_id st) (t_ids st)"
  "t_low (tarjan_enter n st) = map_set n (t_id st) (t_low st)"
  "t_stack (tarjan_enter n st) = t_stack st @ [n]"
  "t_sccs (tarjan_enter n st) = t_sccs st"
  by (simp_all add: tarjan_enter_def)

lemma tarjan_inv_enter:
  assumes inv: "tarjan_inv g st" and n: "n \<notin> set (t_visited st)" "nodeExists g n"
  shows "tarjan_inv g (tarjan_enter n st)"
proof (rule tarjan_invI)
  note D = tarjan_invD [OF inv]
  have none: "map_get (t_ids st) n = None" using D(5) n(1) by (cases "map_get (t_ids st) n") auto
  have bound: "i < t_id st" if "map_get (t_ids st) m = Some i" for m i
    using D(2) [OF D(5) [OF that]] that by auto
  fix m k l i
  show "\<exists>k. map_get (t_ids (tarjan_enter n st)) k = Some l \<and> (m, k) \<in> (graph_edges g)\<^sup>*"
    if "map_get (t_low (tarjan_enter n st)) m = Some l"
  proof (cases "m = n")
    case True
    with that show ?thesis by (auto intro!: exI [of _ n])
  next
    case False
    with that D(3) [of m l] obtain k where k: "map_get (t_ids st) k = Some l"
      "(m, k) \<in> (graph_edges g)\<^sup>*" by auto
    with none have "k \<noteq> n" by auto
    with k show ?thesis by (auto intro!: exI [of _ k])
  qed
  show "m = k" if "map_get (t_ids (tarjan_enter n st)) m = Some i"
    "map_get (t_ids (tarjan_enter n st)) k = Some i"
    using that bound D(4) by (fastforce split: if_splits)
  show "nodeExists g m \<and> (\<exists>i l. map_get (t_ids (tarjan_enter n st)) m = Some i
      \<and> map_get (t_low (tarjan_enter n st)) m = Some l \<and> l \<le> i \<and> i < t_id (tarjan_enter n st))"
    if "m \<in> set (t_visited (tarjan_enter n st))"
    using that n D(1,2) [of m] by (cases "m = n") (auto intro: less_SucI)
  show "m \<in> set (t_visited (tarjan_enter n st))"
    if "map_get (t_ids (tarjan_enter n st)) m = Some i"
    using that D(5) by (auto split: if_splits)
  show "distinct (t_stack (tarjan_enter n st) @ concat (t_sccs (tarjan_enter n st)))"
    using D(6,7) n by auto
  show "set (t_stack (tarjan_enter n st)) \<union> set (concat (t_sccs (tarjan_enter n st)))
        \<subseteq> set (t_visited (tarjan_enter n st))"
    using D(6) by auto
qed (use tarjan_invD(8) [OF inv] in simp)

lemma tarjan_update_spec:
  assumes inv: "tarjan_inv g st" and n: "n \<in> set (t_visited st)" and e: "(n, c) \<in> graph_edges g"
  shows "\<exists>st'. tarjan_update n c st = Inr st' \<and> tarjan_inv g st' \<and> tarjan_ext g n st st'"
proof (cases "c \<in> set (t_stack st)")
  case False
  with inv show ?thesis by (simp add: tarjan_update_def)
next
  case True
  note D = tarjan_invD [OF inv]
  from True D(6) have "c \<in> set (t_visited st)" by auto
  with D(2) n obtain a j b where c: "map_get (t_low st) c = Some a"
    and d: "map_get (t_ids st) n = Some j" "map_get (t_low st) n = Some b" "b \<le> j" "j < t_id st"
    by blast
  let ?st = "st\<lparr>t_low := map_set n (min a b) (t_low st)\<rparr>"
  have u: "tarjan_update n c st = Inr ?st" using True c d by (simp add: tarjan_update_def)
  have m: "\<exists>m. map_get (t_ids st) m = Some (min a b) \<and> (n, m) \<in> (graph_edges g)\<^sup>*"
  proof (cases "a \<le> b")
    case True
    with D(3) [OF c] e show ?thesis by (auto intro: converse_rtrancl_into_rtrancl)
  next
    case False
    with D(3) [OF d(2)] show ?thesis by auto
  qed
  have "tarjan_inv g ?st"
  proof (rule tarjan_invI)
    fix k
    show "nodeExists g k \<and> (\<exists>i l. map_get (t_ids ?st) k = Some i
        \<and> map_get (t_low ?st) k = Some l \<and> l \<le> i \<and> i < t_id ?st)" if "k \<in> set (t_visited ?st)"
      using that D(1,2) [of k] d by (cases "k = n") auto
    show "\<exists>m. map_get (t_ids ?st) m = Some l \<and> (k, m) \<in> (graph_edges g)\<^sup>*"
      if "map_get (t_low ?st) k = Some l" for l
      using that m D(3) [of k l] by (cases "k = n") auto
  qed (use D in auto)
  with u show ?thesis by (auto simp: tarjan_ext_def)
qed

text \<open>The popping loop takes nodes above the root only, and they form a strong component.\<close>

text \<open>What the loop at the end of a node pops, when nothing below the node has its low-link value.\<close>

lemma pop_split:
  assumes "\<forall>m \<in> set below. \<not> P m" "stack = below @ n # new"
    and scc: "scc = takeWhile P (rev stack)" and rest: "rest = rev (dropWhile P (rev stack))"
  shows "stack = rest @ rev scc" "set scc \<subseteq> insert n (set new)"
    "\<exists>new'. rest = below @ new' \<and> set new' \<subseteq> insert n (set new)"
proof -
  show "stack = rest @ rev scc"
    unfolding rest scc by (metis rev_append rev_rev_ident takeWhile_dropWhile_id)
  have "takeWhile P (rev below) = []" "dropWhile P (rev below) = rev below"
    using assms(1) by (cases "rev below"; force)+
  then have "rest = below @ rev (dropWhile P (rev (n # new)))" and sub: "set scc \<subseteq> insert n (set new)"
    unfolding rest scc assms(2)
    by (auto simp: dropWhile_append takeWhile_append dest: set_takeWhileD set_dropWhileD)
  moreover have "set (dropWhile P (rev (n # new))) \<subseteq> insert n (set new)" by (auto dest: set_dropWhileD)
  ultimately show "\<exists>new'. rest = below @ new' \<and> set new' \<subseteq> insert n (set new)" by (metis set_rev)
  show "set scc \<subseteq> insert n (set new)" by (rule sub)
qed

lemma tarjan_finish_spec:
  assumes inv: "tarjan_inv g st" and st: "t_stack st = below @ n # new"
    and new: "\<forall>m \<in> set new. (n, m) \<in> (graph_edges g)\<^sup>*"
    and ids: "map_get (t_ids st) n = Some i"
    and below: "\<forall>m \<in> set below. \<exists>j < i. map_get (t_ids st) m = Some j"
  shows "\<exists>st'. tarjan_finish n st = Inr st' \<and> tarjan_inv g st' \<and> t_ids st' = t_ids st
     \<and> t_visited st' = t_visited st
     \<and> (\<exists>new'. t_stack st' = below @ new' \<and> set new' \<subseteq> insert n (set new))"
proof -
  note D = tarjan_invD [OF inv]
  have vis: "set (t_stack st) \<subseteq> set (t_visited st)" using D(6) by blast
  then have "n \<in> set (t_visited st)" using st by auto
  from D(2) [OF this] obtain l where low: "map_get (t_low st) n = Some l" by blast
  show ?thesis
  proof (cases "i = l")
    case False
    then have "tarjan_finish n st = Inr st" using ids low by (simp add: tarjan_finish_def)
    with inv st show ?thesis by auto
  next
    case True
    define P where "P = (\<lambda>m. map_get (t_low st) m = Some i)"
    define scc where "scc = takeWhile P (rev (t_stack st))"
    define rest where "rest = rev (dropWhile P (rev (t_stack st)))"
    have notP: "\<not> P m" if "m \<in> set below" for m
    proof
      assume "P m"
      moreover have "m \<in> set (t_visited st)" using that st vis by auto
      ultimately show False using D(2) [of m] below that by (fastforce simp: P_def)
    qed
    have split: "t_stack st = rest @ rev scc" and sub: "set scc \<subseteq> insert n (set new)"
      and rest': "\<exists>new'. rest = below @ new' \<and> set new' \<subseteq> insert n (set new)"
      using pop_split [OF _ st scc_def rest_def] notP by blast+
    have to_n: "(m, n) \<in> (graph_edges g)\<^sup>*" if "m \<in> set scc" for m
    proof -
      have "P m" using that unfolding scc_def by (rule set_takeWhileD [THEN conjunct2])
      with D(3) [of m i] obtain k where "map_get (t_ids st) k = Some i"
        "(m, k) \<in> (graph_edges g)\<^sup>*" by (auto simp: P_def)
      with D(4) [of k i n] ids show ?thesis by simp
    qed
    have sc: "strongly_connected g (set scc)"
      unfolding strongly_connected_def using to_n sub new by (blast intro: rtrancl_trans)
    have "tarjan_inv g (st\<lparr>t_stack := rest, t_sccs := t_sccs st @ [scc]\<rparr>)"
      by (rule tarjan_invI) (use D sc split in auto)
    moreover have "tarjan_inv g (st\<lparr>t_stack := rest\<rparr>)" if "scc = []"
      by (rule tarjan_invI) (use D split that in auto)
    moreover have "tarjan_finish n st = Inr (if scc \<noteq> []
        then st\<lparr>t_stack := rest, t_sccs := t_sccs st @ [scc]\<rparr> else st\<lparr>t_stack := rest\<rparr>)"
      using ids low True
      by (simp add: tarjan_finish_def Let_def P_def scc_def rest_def)
    ultimately show ?thesis
      using rest' by (cases "scc = []") auto
  qed
qed

text \<open>Following a node that is not visited yet, given what its loop over the children does.\<close>

lemma followNode_step:
  assumes inv: "tarjan_inv g st" and n: "n \<notin> set (t_visited st)" "nodeExists g n"
    and loop: "tarjan_loop g n ms (tarjan_enter n st) = Inr st1" and ms: "child_nodes g n = Inr ms"
    and inv1: "tarjan_inv g st1" and ext1: "tarjan_ext g n (tarjan_enter n st) st1"
  shows "\<exists>st'. followNode g st n = Inr st' \<and> tarjan_inv g st' \<and> tarjan_ext g n st st'
     \<and> n \<in> set (t_visited st')"
proof -
  obtain new where stack: "t_stack st1 = t_stack st @ n # new"
    and new: "\<forall>m \<in> set new. (n, m) \<in> (graph_edges g)\<^sup>*"
    using ext1 unfolding tarjan_ext_def by auto
  have keep: "map_get (t_ids st1) m = map_get (t_ids (tarjan_enter n st)) m"
    if "m = n \<or> m \<in> set (t_visited st)" for m
    using ext1 that unfolding tarjan_ext_def by auto
  have ids: "map_get (t_ids st1) n = Some (t_id st)" using keep [of n] by simp
  have below: "\<forall>m \<in> set (t_stack st). \<exists>j < t_id st. map_get (t_ids st1) m = Some j"
  proof
    fix m assume "m \<in> set (t_stack st)"
    then have m: "m \<in> set (t_visited st)" using tarjan_invD(6) [OF inv] by auto
    with n have "m \<noteq> n" by auto
    with m keep [of m] tarjan_invD(2) [OF inv m]
    show "\<exists>j < t_id st. map_get (t_ids st1) m = Some j" by auto
  qed
  from tarjan_finish_spec [OF inv1 stack new ids below] obtain st' new' where
    st': "tarjan_finish n st1 = Inr st'" "tarjan_inv g st'" "t_ids st' = t_ids st1"
    "t_visited st' = t_visited st1" "t_stack st' = t_stack st @ new'"
    "set new' \<subseteq> insert n (set new)" by blast
  have "followNode g st n = Inr st'" using n ms loop st'(1) by (simp add: followNode_def)
  moreover have vis: "insert n (set (t_visited st)) \<subseteq> set (t_visited st')"
    using ext1 st'(4) unfolding tarjan_ext_def by auto
  moreover have "tarjan_ext g n st st'"
    unfolding tarjan_ext_def
  proof (intro conjI)
    show "\<exists>new. t_stack st' = t_stack st @ new \<and> (\<forall>m \<in> set new. (n, m) \<in> (graph_edges g)\<^sup>*)"
      using st'(5,6) new by (intro exI [of _ new']) auto
    show "\<forall>m \<in> set (t_visited st). map_get (t_ids st') m = map_get (t_ids st) m"
      using keep n(1) st'(3) by auto
  qed (use vis in auto)
  ultimately show ?thesis using st'(2) by auto
qed

lemma tarjan_loop_spec:
  assumes "graph_wf g"
  shows "tarjan_inv g st \<Longrightarrow> n \<in> set (t_visited st) \<Longrightarrow> (\<forall>c \<in> set cs. (n, c) \<in> graph_edges g) \<Longrightarrow>
     \<exists>st'. tarjan_loop g n cs st = Inr st' \<and> tarjan_inv g st' \<and> tarjan_ext g n st st'"
  using assms
proof (induction g n cs st rule: tarjan_loop.induct)
  case (1 g n st)
  then show ?case by auto
next
  case (2 g n c cs st)
  have e: "(n, c) \<in> graph_edges g" using "2.prems" by simp
  have "\<exists>st1. followNode g st c = Inr st1 \<and> tarjan_inv g st1 \<and> tarjan_ext g c st st1"
  proof (cases "c \<in> set (t_visited st)")
    case True
    with "2.prems" show ?thesis by (simp add: followNode_def)
  next
    case False
    have ex: "nodeExists g c" using graph_edges_exist [OF \<open>graph_wf g\<close> e] by simp
    then obtain ms where ms: "child_nodes g c = Inr ms" by (simp add: child_nodes_eq)
    have "\<forall>m \<in> set ms. (c, m) \<in> graph_edges g" by (simp add: child_nodes_edges [OF ms])
    with "2.IH"(1) [OF False ms] tarjan_inv_enter [OF "2.prems"(1) False ex] \<open>graph_wf g\<close>
    obtain st0 where "tarjan_loop g c ms (tarjan_enter c st) = Inr st0" "tarjan_inv g st0"
      "tarjan_ext g c (tarjan_enter c st) st0" by auto
    with followNode_step [OF "2.prems"(1) False ex _ ms] show ?thesis by blast
  qed
  then obtain st1 where f: "followNode g st c = Inr st1" and s1: "tarjan_inv g st1" "tarjan_ext g n st st1"
    using tarjan_ext_step e by (meson r_into_rtrancl)
  then have v1: "n \<in> set (t_visited st1)" using "2.prems"(2) unfolding tarjan_ext_def by auto
  from tarjan_update_spec [OF s1(1) v1 e] obtain st2 where u: "tarjan_update n c st1 = Inr st2"
    and s2: "tarjan_inv g st2" "tarjan_ext g n st1 st2" by blast
  then have v2: "n \<in> set (t_visited st2)" using v1 unfolding tarjan_ext_def by auto
  have "\<exists>st'. tarjan_loop g n cs st2 = Inr st' \<and> tarjan_inv g st' \<and> tarjan_ext g n st2 st'"
    using "2.IH"(2) [OF f [unfolded followNode_def] u s2(1) v2] "2.prems" by simp
  with f u s1(2) s2(2) show ?case
    unfolding tarjan_loop_Cons by (auto intro: tarjan_ext_trans)
qed

lemma followNode_spec:
  assumes "graph_wf g" "tarjan_inv g st" "nodeExists g n"
  shows "\<exists>st'. followNode g st n = Inr st' \<and> tarjan_inv g st'"
proof (cases "n \<in> set (t_visited st)")
  case True
  with assms show ?thesis by (simp add: followNode_def)
next
  case False
  obtain ms where ms: "child_nodes g n = Inr ms" using assms(3) by (simp add: child_nodes_eq)
  have "\<forall>m \<in> set ms. (n, m) \<in> graph_edges g" by (simp add: child_nodes_edges [OF ms])
  with tarjan_loop_spec [OF assms(1) tarjan_inv_enter [OF assms(2) False assms(3)], of n ms]
    followNode_step [OF assms(2) False assms(3) _ ms] show ?thesis by auto
qed

lemma tarjan_inv_init: "tarjan_inv g tarjan_init"
  by (simp add: tarjan_inv_def tarjan_init_def)

text \<open>Components: strongly connected, pairwise disjoint, made of nodes of the graph.\<close>

lemma getStronglyConnectedComponents_spec:
  assumes "graph_wf g"
  shows "\<exists>sccs. getStronglyConnectedComponents g = Inr sccs
     \<and> distinct (concat sccs) \<and> set (concat sccs) \<subseteq> set (getNodes g)
     \<and> (\<forall>C \<in> set sccs. strongly_connected g (set C))"
proof -
  have "\<exists>st. fold_res (followNode g) tarjan_init (getNodes g) = Inr st \<and> tarjan_inv g st"
    by (rule fold_res_total [where P = "tarjan_inv g"])
      (use assms followNode_spec tarjan_inv_init in \<open>auto simp: nodeExists_iff\<close>)
  then obtain st where st: "fold_res (followNode g) tarjan_init (getNodes g) = Inr st"
    and inv: "tarjan_inv g st" by blast
  have "set (concat (t_sccs st)) \<subseteq> set (getNodes g)"
    using tarjan_invD(1,6) [OF inv] nodeExists_iff [OF assms] by blast
  with st tarjan_invD(7,8) [OF inv] show ?thesis
    by (intro exI [of _ "t_sccs st"]) (auto simp: getStronglyConnectedComponents_def)
qed

end
