(* ===== verification/Partial_Run_Data.thy ===== *)
theory Partial_Run_Data
  imports Strong_Components
begin

text \<open>
  The run-data part of a partial execution: \<open>get-incoming-data.ts\<close>, \<open>run-data-utils.ts\<close>,
  \<open>find-start-nodes.ts\<close>, \<open>clean-run-data.ts\<close> and \<open>handle-cycles.ts\<close> of
  \<open>packages/core/src/execution-engine/partial-execution-utils/\<close>.

  The start nodes cut every simple path with data from the trigger to the destination and each
  has a reason to be one; cleaning removes exactly the data of the nodes after the given ones
  and of the utility nodes upstream of those; replacing a start node on a cycle keeps it within
  the same strongly connected component and reachable from the trigger.
\<close>

section \<open>Reading run data\<close>

text \<open>
  \<open>data?.[connectionType].at(...)\<close>: a missing \<open>data\<close> gives \<open>undefined\<close>, but present data
  without an entry for the connection type makes the call throw.
\<close>

definition getIncomingData ::
  "IRunData \<Rightarrow> string \<Rightarrow> int \<Rightarrow> NodeConnectionType \<Rightarrow> nat \<Rightarrow> items option result" where
  "getIncomingData runData nodeName runIndex connectionType oi =
     (case map_get runData nodeName of None \<Rightarrow> Inr None
      | Some tasks \<Rightarrow>
          (case arr_at tasks runIndex of None \<Rightarrow> Inr None
           | Some task \<Rightarrow>
               (case task_data task of None \<Rightarrow> Inr None
                | Some d \<Rightarrow>
                    (case map_get d connectionType of None \<Rightarrow> Inl TypeError
                     | Some outs \<Rightarrow>
                         Inr (case arr_at outs (int oi) of None \<Rightarrow> None
                              | Some c \<Rightarrow> cell_val c)))))"

definition getRunIndexLength :: "IRunData \<Rightarrow> string \<Rightarrow> nat" where
  "getRunIndexLength runData nodeName =
     (case map_get runData nodeName of None \<Rightarrow> 0 | Some tasks \<Rightarrow> length tasks)"

primrec any_run_loop ::
  "IRunData \<Rightarrow> string \<Rightarrow> NodeConnectionType \<Rightarrow> nat \<Rightarrow> nat list \<Rightarrow> (items \<times> nat) option result" where
  "any_run_loop runData nodeName ty oi [] = Inr None"
| "any_run_loop runData nodeName ty oi (runIndex # rest) =
     bind_res (getIncomingData runData nodeName (int runIndex) ty oi) (\<lambda>d.
       case d of None \<Rightarrow> any_run_loop runData nodeName ty oi rest
       | Some data \<Rightarrow> if data \<noteq> [] then Inr (Some (data, runIndex))
                      else any_run_loop runData nodeName ty oi rest)"

definition getIncomingDataFromAnyRun ::
  "IRunData \<Rightarrow> string \<Rightarrow> NodeConnectionType \<Rightarrow> nat \<Rightarrow> (items \<times> nat) option result" where
  "getIncomingDataFromAnyRun runData nodeName connectionType oi =
     any_run_loop runData nodeName connectionType oi
       [0..<getRunIndexLength runData nodeName]"

lemma any_run_loop_Some:
  "any_run_loop rd nm ty oi is = Inr (Some (data, i)) \<Longrightarrow>
     i \<in> set is \<and> data \<noteq> [] \<and> getIncomingData rd nm (int i) ty oi = Inr (Some data)"
  by (induction "is") (auto simp: bind_res_eq_Inr split: option.splits if_splits)

lemma any_run_loop_None:
  "any_run_loop rd nm ty oi is = Inr None \<Longrightarrow> i \<in> set is \<Longrightarrow>
     getIncomingData rd nm (int i) ty oi = Inr None \<or> getIncomingData rd nm (int i) ty oi = Inr (Some [])"
proof (induction "is")
  case (Cons j "is")
  then obtain d where d: "getIncomingData rd nm (int j) ty oi = Inr d"
    by (auto simp: bind_res_eq_Inr)
  with Cons show ?case by (cases d) (auto split: if_splits)
qed simp

text \<open>Every task of the run data that has data has an entry for the connection type.\<close>

definition typed_run_data :: "IRunData \<Rightarrow> NodeConnectionType \<Rightarrow> bool" where
  "typed_run_data rd ty =
     list_all (\<lambda>(_, tasks). list_all (\<lambda>t. case task_data t of None \<Rightarrow> True | Some d \<Rightarrow> map_has d ty) tasks)
       rd"

lemma arr_at_in_set: "arr_at xs i = Some x \<Longrightarrow> x \<in> set xs"
  by (auto simp: arr_at_def Let_def split: if_splits)

lemma getIncomingData_total:
  "typed_run_data rd ty \<Longrightarrow> \<exists>d. getIncomingData rd nm i ty oi = Inr d"
proof -
  assume t: "typed_run_data rd ty"
  have "map_has d ty" if "map_get rd nm = Some ts" "arr_at ts i = Some x" "task_data x = Some d" for ts x d
    using t map_of_SomeD [OF that(1)] arr_at_in_set [OF that(2)] that(3)
    by (fastforce simp: typed_run_data_def list_all_iff)
  then have "\<exists>outs. map_get d ty = Some outs"
    if "map_get rd nm = Some ts" "arr_at ts i = Some x" "task_data x = Some d" for ts x d
    using that by (auto simp: map_has_def)
  then show ?thesis by (force simp: getIncomingData_def split: option.split)
qed

lemma getIncomingDataFromAnyRun_total:
  assumes "typed_run_data rd ty"
  shows "\<exists>d. getIncomingDataFromAnyRun rd nm ty oi = Inr d"
proof -
  have "\<exists>d. any_run_loop rd nm ty oi is = Inr d" for "is"
  proof (induction "is")
    case (Cons i "is")
    obtain d where "getIncomingData rd nm (int i) ty oi = Inr d"
      using getIncomingData_total [OF assms] by blast
    with Cons show ?case by (auto split: option.split)
  qed simp
  then show ?thesis by (simp add: getIncomingDataFromAnyRun_def)
qed

text \<open>\<open>getNextExecutionIndex\<close>.\<close>

definition getNextExecutionIndex :: "IRunData \<Rightarrow> int" where
  "getNextExecutionIndex runData =
     (if runData = [] then 0
      else let previousIndices =
                 concat (map (\<lambda>t. case executionIndex t of None \<Rightarrow> [] | Some i \<Rightarrow> [i])
                             (concat (object_values runData)))
           in if previousIndices = [] then 0 else Max (set previousIndices) + 1)"

lemma getNextExecutionIndex_fresh:
  assumes "(nm, ts) \<in> set runData" "t \<in> set ts" "executionIndex t = Some i"
  shows "i < getNextExecutionIndex runData"
proof -
  let ?is = "concat (map (\<lambda>t. case executionIndex t of None \<Rightarrow> [] | Some i \<Rightarrow> [i])
                             (concat (object_values runData)))"
  have "t \<in> set (concat (object_values runData))" using assms(1,2) by force
  moreover have "i \<in> set (case executionIndex t of None \<Rightarrow> [] | Some i \<Rightarrow> [i])"
    using assms(3) by simp
  ultimately have "i \<in> set ?is" unfolding set_concat set_map by blast
  then have max: "i \<le> Max (set ?is)" by (intro Max_ge) (rule finite_set)
  have "runData \<noteq> []" "?is \<noteq> []"
    using assms(1) \<open>i \<in> set ?is\<close> by (auto simp only: list.set empty_iff)
  then have "getNextExecutionIndex runData = Max (set ?is) + 1"
    unfolding getNextExecutionIndex_def Let_def by (simp only: if_False)
  with max show ?thesis by linarith
qed

section \<open>Start nodes\<close>

definition isDirty :: "INode \<Rightarrow> IRunData \<Rightarrow> IPinData \<Rightarrow> bool" where
  "isDirty n runData pinData =
     (let propertiesOrOptionsChanged = False; parentNodeGotDisabled = False; hasAnError = False in
      if propertiesOrOptionsChanged then True
      else if parentNodeGotDisabled then True
      else if hasAnError then True
      else if map_get pinData (node_name n) \<noteq> None then False
      else if map_get runData (node_name n) \<noteq> None then False
      else True)"

text \<open>The loop node whose \<open>done\<close> output has no data in the last run.\<close>

definition unfinishedLoop :: "INode \<Rightarrow> IRunData \<Rightarrow> bool result" where
  "unfinishedLoop n runData =
     (if node_type n = ''n8n-nodes-base.splitInBatches'' then
        bind_res (getIncomingData runData (node_name n) (- 1) Main 0)
          (\<lambda>d. Inr (d = None \<or> d = Some []))
      else Inr False)"

text \<open>Whether an outgoing connection is followed: its output has run data, or its node is pinned.\<close>

definition followsOutput :: "IRunData \<Rightarrow> IPinData \<Rightarrow> GraphConnection \<Rightarrow> bool result" where
  "followsOutput runData pinData c =
     bind_res (getIncomingDataFromAnyRun runData (node_name (from_node c)) (gc_type c) (outputIndex c))
       (\<lambda>d. let hasNoRunData = (case d of None \<Rightarrow> True | Some (data, _) \<Rightarrow> data = []);
                hasNoPinnedData = (map_get pinData (node_name (from_node c)) = None)
            in Inr (\<not> (hasNoRunData \<and> hasNoPinnedData)))"

function findStartNodesRecursive ::
  "DirectedGraph \<Rightarrow> INode \<Rightarrow> INode \<Rightarrow> IRunData \<Rightarrow> IPinData \<Rightarrow> INode list \<Rightarrow> INode list
     \<Rightarrow> INode list result" where
  "findStartNodesRecursive graph current destination runData pinData startNodes seen =
     (if isDirty current runData pinData then Inr (set_add current startNodes)
      else if current = destination then Inr (set_add current startNodes)
      else bind_res (unfinishedLoop current runData) (\<lambda>unfinished.
        if unfinished then Inr (set_add current startNodes)
        else if current \<in> set seen then Inr startNodes
        else bind_res (getDirectChildConnections graph current) (\<lambda>outGoingConnections.
          fold_res (\<lambda>starts outGoingConnection.
              bind_res (followsOutput runData pinData outGoingConnection) (\<lambda>follow.
                if \<not> follow then Inr starts
                else findStartNodesRecursive graph (to_node outGoingConnection) destination
                       runData pinData starts (set_add current seen)))
            startNodes outGoingConnections)))"
  by pat_completeness auto
termination
proof (relation "measure (\<lambda>(g, c, d, rd, pd, st, seen). card (from_node ` conns g - set seen))",
    goal_cases)
  case (2 g cur d rd pd st seen u outs starts c follow)
  have "c \<in> conns g" "from_node c = cur"
    using 2(6,7) by (auto simp: getDirectChildConnections_eq conns_def split: if_splits)
  then have "from_node ` conns g - set (set_add cur seen) \<subset> from_node ` conns g - set seen"
    using 2(5) by auto
  then show ?case by (simp add: psubset_card_mono)
qed simp

declare findStartNodesRecursive.simps [simp del]

definition findStartNodes ::
  "DirectedGraph \<Rightarrow> INode \<Rightarrow> INode \<Rightarrow> IRunData \<Rightarrow> IPinData \<Rightarrow> INode list result" where
  "findStartNodes graph trigger destination runData pinData =
     findStartNodesRecursive graph trigger destination runData pinData [] []"

text \<open>The three reasons to become a start node.\<close>

definition start_reason :: "INode \<Rightarrow> IRunData \<Rightarrow> IPinData \<Rightarrow> INode \<Rightarrow> bool" where
  "start_reason destination runData pinData n =
     (isDirty n runData pinData \<or> n = destination \<or> unfinishedLoop n runData = Inr True)"

lemma findStartNodesRecursive_sound:
  "findStartNodesRecursive g cur d rd pd starts seen = Inr r \<Longrightarrow>
     set starts \<subseteq> set r \<and>
     (\<forall>n \<in> set r - set starts. (cur, n) \<in> (graph_edges g)\<^sup>* \<and> start_reason d rd pd n)"
proof (induction g cur d rd pd starts seen arbitrary: r rule: findStartNodesRecursive.induct)
  case (1 g cur d rd pd starts seen)
  show ?case
  proof (cases "isDirty cur rd pd \<or> cur = d \<or> unfinishedLoop cur rd = Inr True")
    case True
    then have "r = set_add cur starts"
      using "1.prems" by (auto simp: findStartNodesRecursive.simps [of g cur] split: if_splits)
    with True show ?thesis by (auto simp: start_reason_def)
  next
    case False
    with "1.prems" have u: "unfinishedLoop cur rd = Inr False"
      by (auto simp: findStartNodesRecursive.simps [of g cur] bind_res_eq_Inr)
    show ?thesis
    proof (cases "cur \<in> set seen")
      case True
      with False u "1.prems" show ?thesis by (simp add: findStartNodesRecursive.simps [of g cur])
    next
      case ns: False
      let ?f = "\<lambda>starts c. bind_res (followsOutput rd pd c) (\<lambda>follow. if \<not> follow then Inr starts
          else findStartNodesRecursive g (to_node c) d rd pd starts (set_add cur seen))"
      obtain outs where outs: "getDirectChildConnections g cur = Inr outs"
        and fold: "fold_res ?f starts outs = Inr r"
        using "1.prems" False u ns
        by (auto simp: findStartNodesRecursive.simps [of g cur] bind_res_eq_Inr)
      let ?P = "\<lambda>t. set starts \<subseteq> set t \<and>
        (\<forall>n \<in> set t - set starts. (cur, n) \<in> (graph_edges g)\<^sup>* \<and> start_reason d rd pd n)"
      show ?thesis
      proof (rule fold_res_invariant [OF fold, where P = ?P])
        fix t c t' assume c: "c \<in> set outs" and t: "?P t" and f: "?f t c = Inr t'"
        then obtain follow where fo: "followsOutput rd pd c = Inr follow" by (auto simp: bind_res_eq_Inr)
        show "?P t'"
        proof (cases follow)
          case False
          with f fo t show ?thesis by simp
        next
          case True
          with f fo have r: "findStartNodesRecursive g (to_node c) d rd pd t (set_add cur seen) = Inr t'"
            by simp
          have "(cur, to_node c) \<in> graph_edges g"
            using c getDirectChildConnections_set [OF outs] by (auto simp: graph_edges_def)
          moreover have "set t \<subseteq> set t' \<and> (\<forall>n \<in> set t' - set t.
              (to_node c, n) \<in> (graph_edges g)\<^sup>* \<and> start_reason d rd pd n)"
            using "1.IH" [OF _ _ u _ ns outs c fo _ r] False True by simp
          ultimately show ?thesis using t by (blast intro: converse_rtrancl_into_rtrancl)
        qed
      qed simp
    qed
  qed
qed

text \<open>
  A path that the search follows: each connection starts where the one before ends, and its
  output has data.
\<close>

fun data_path :: "DirectedGraph \<Rightarrow> IRunData \<Rightarrow> IPinData \<Rightarrow> INode \<Rightarrow> GraphConnection list \<Rightarrow> INode \<Rightarrow> bool"
where
  "data_path g rd pd cur [] d = (cur = d)"
| "data_path g rd pd cur (c # cs) d =
     (c \<in> conns g \<and> from_node c = cur \<and> followsOutput rd pd c = Inr True
      \<and> data_path g rd pd (to_node c) cs d)"

lemma findStartNodesRecursive_cuts:
  "findStartNodesRecursive g cur d rd pd starts seen = Inr r \<Longrightarrow> data_path g rd pd cur cs d \<Longrightarrow>
     distinct (map from_node cs) \<Longrightarrow> set (map from_node cs) \<inter> set seen = {} \<Longrightarrow>
     \<exists>n \<in> insert d (from_node ` set cs). n \<in> set r"
proof (induction cs arbitrary: cur starts seen r)
  case Nil
  then show ?case by (auto simp: findStartNodesRecursive.simps [of g cur] split: if_splits)
next
  case (Cons c cs)
  have c: "c \<in> conns g" "from_node c = cur" "followsOutput rd pd c = Inr True"
    "data_path g rd pd (to_node c) cs d" using Cons.prems(2) by auto
  show ?case
  proof (cases "isDirty cur rd pd \<or> cur = d \<or> unfinishedLoop cur rd = Inr True")
    case True
    then have "r = set_add cur starts"
      using Cons.prems(1) by (auto simp: findStartNodesRecursive.simps [of g cur] split: if_splits)
    with c show ?thesis by auto
  next
    case False
    with Cons.prems(1) have u: "unfinishedLoop cur rd = Inr False"
      by (auto simp: findStartNodesRecursive.simps [of g cur] bind_res_eq_Inr)
    have ns: "cur \<notin> set seen" using Cons.prems(4) c(2) by auto
    let ?f = "\<lambda>starts c. bind_res (followsOutput rd pd c) (\<lambda>follow. if \<not> follow then Inr starts
        else findStartNodesRecursive g (to_node c) d rd pd starts (set_add cur seen))"
    obtain outs where outs: "getDirectChildConnections g cur = Inr outs"
      and fold: "fold_res ?f starts outs = Inr r"
      using Cons.prems(1) False u ns
      by (auto simp: findStartNodesRecursive.simps [of g cur] bind_res_eq_Inr)
    have cin: "c \<in> set outs" using getDirectChildConnections_set [OF outs] c by simp
    show ?thesis
    proof (rule fold_res_establish [OF fold cin, where Q = "\<lambda>_. True"])
      fix t t' assume "?f t c = Inr t'"
      then have "findStartNodesRecursive g (to_node c) d rd pd t (set_add cur seen) = Inr t'"
        using c(3) by simp
      from Cons.IH [OF this c(4)] Cons.prems(3,4) c(2) ns
      show "\<exists>n \<in> insert d (from_node ` set (c # cs)). n \<in> set t'" by auto
    next
      fix t q t' assume "\<exists>n \<in> insert d (from_node ` set (c # cs)). n \<in> set t" "?f t q = Inr t'"
      moreover from this have "set t \<subseteq> set t'"
        using findStartNodesRecursive_sound
        by (fastforce simp: bind_res_eq_Inr split: if_splits)
      ultimately show "\<exists>n \<in> insert d (from_node ` set (c # cs)). n \<in> set t'" by auto
    qed simp_all
  qed
qed

lemma unfinishedLoop_total: "typed_run_data rd Main \<Longrightarrow> \<exists>u. unfinishedLoop n rd = Inr u"
  using getIncomingData_total [of rd Main "node_name n" "- 1" 0] by (auto simp: unfinishedLoop_def)

lemma followsOutput_total: "typed_run_data rd (gc_type c) \<Longrightarrow> \<exists>b. followsOutput rd pd c = Inr b"
  using getIncomingDataFromAnyRun_total [of rd "gc_type c" "node_name (from_node c)" "outputIndex c"]
  by (auto simp: followsOutput_def Let_def)

lemma findStartNodesRecursive_total:
  assumes "graph_wf g" "\<forall>c \<in> conns g. typed_run_data rd (gc_type c)" "typed_run_data rd Main"
  shows "nodeExists g cur \<Longrightarrow> \<exists>r. findStartNodesRecursive g cur d rd pd starts seen = Inr r"
  using assms
proof (induction g cur d rd pd starts seen rule: findStartNodesRecursive.induct)
  case (1 g cur d rd pd starts seen)
  obtain u where u: "unfinishedLoop cur rd = Inr u" using unfinishedLoop_total "1.prems" by blast
  obtain outs where outs: "getDirectChildConnections g cur = Inr outs" "set outs \<subseteq> conns g"
    using "1.prems"(1) by (auto simp: getDirectChildConnections_eq conns_def)
  show ?case
  proof (cases "isDirty cur rd pd \<or> cur = d \<or> u \<or> cur \<in> set seen")
    case True
    with u show ?thesis by (auto simp: findStartNodesRecursive.simps [of g cur])
  next
    case False
    let ?f = "\<lambda>starts c. bind_res (followsOutput rd pd c) (\<lambda>follow. if \<not> follow then Inr starts
        else findStartNodesRecursive g (to_node c) d rd pd starts (set_add cur seen))"
    have "\<exists>r. fold_res ?f starts outs = Inr r \<and> True"
    proof (rule fold_res_total)
      fix t c assume c: "c \<in> set outs"
      obtain b where b: "followsOutput rd pd c = Inr b"
        using followsOutput_total "1.prems"(3) c outs(2) by blast
      have "nodeExists g (to_node c)" using conns_exist [OF "1.prems"(2)] c outs(2) by blast
      with "1.IH" [OF _ _ u _ _ outs(1) c b] b False "1.prems"(2-4)
      show "\<exists>t'. ?f t c = Inr t' \<and> True" by auto
    qed simp
    with False u outs(1) show ?thesis by (auto simp: findStartNodesRecursive.simps [of g cur])
  qed
qed

section \<open>Cleaning run data\<close>

text \<open>The body of the inner loop: the node itself and the utility nodes above it.\<close>

definition clean_node :: "DirectedGraph \<Rightarrow> IRunData \<Rightarrow> INode \<Rightarrow> IRunData result" where
  "clean_node graph newRunData n =
     bind_res (getParentConnections graph n) (\<lambda>subNodeConnections.
       Inr (fold (\<lambda>c rd. if gc_type c = Main then rd else map_delete (node_name (from_node c)) rd)
              subNodeConnections (map_delete (node_name n) newRunData)))"

definition cleanRunData :: "IRunData \<Rightarrow> DirectedGraph \<Rightarrow> INode list \<Rightarrow> IRunData result" where
  "cleanRunData runData graph nodesToClean =
     bind_res
       (fold_res (\<lambda>newRunData nodeToClean.
           bind_res (getChildren graph nodeToClean) (\<lambda>children.
             fold_res (clean_node graph) (map_delete (node_name nodeToClean) newRunData)
               (nodeToClean # children)))
          runData nodesToClean)
       (\<lambda>newRunData.
          Inr (fold (\<lambda>nodeName rd. if hasNode graph nodeName then rd else map_delete nodeName rd)
                 (object_keys newRunData) newRunData))"

text \<open>The names whose data one node takes away.\<close>

definition cleaned_by :: "DirectedGraph \<Rightarrow> INode \<Rightarrow> string set" where
  "cleaned_by g m =
     insert (node_name m)
       {node_name (from_node c) | c. c \<in> conns g \<and> gc_type c \<noteq> Main \<and> (to_node c, m) \<in> (graph_edges g)\<^sup>*}"

lemma fold_delete_filter:
  "map_get (fold (\<lambda>c rd. if P c then rd else map_delete (f c) rd) cs rd) k =
     (if \<exists>c \<in> set cs. \<not> P c \<and> f c = k then None else map_get rd k)"
  by (induction cs arbitrary: rd) auto

lemma clean_node_spec:
  assumes "graph_wf g" "nodeExists g n"
  shows "\<exists>rd'. clean_node g rd n = Inr rd' \<and>
     (\<forall>k. map_get rd' k = (if k \<in> cleaned_by g n then None else map_get rd k))"
proof -
  from getParentConnections_spec [OF assms] obtain r where
    r: "getParentConnections g n = Inr r"
    "set r = {c \<in> conns g. (to_node c, n) \<in> (graph_edges g)\<^sup>*}" by blast
  define del :: "GraphConnection \<Rightarrow> IRunData \<Rightarrow> IRunData"
    where "del = (\<lambda>c rd. if gc_type c = Main then rd else map_delete (node_name (from_node c)) rd)"
  have "map_get (fold del r (map_delete (node_name n) rd)) k =
      (if k \<in> cleaned_by g n then None else map_get rd k)" for k
  proof -
    have "(\<exists>c \<in> set r. gc_type c \<noteq> Main \<and> node_name (from_node c) = k) \<or> k = node_name n
        \<longleftrightarrow> k \<in> cleaned_by g n"
      unfolding r(2) cleaned_by_def by blast
    then show ?thesis
      unfolding del_def fold_delete_filter by auto
  qed
  then show ?thesis unfolding clean_node_def r(1) del_def by simp
qed

lemma fold_clean_nodes:
  assumes "graph_wf g" "\<forall>m \<in> set ms. nodeExists g m"
  shows "\<exists>rd'. fold_res (clean_node g) rd ms = Inr rd' \<and>
     (\<forall>k. map_get rd' k = (if k \<in> \<Union> (cleaned_by g ` set ms) then None else map_get rd k))"
  using assms
proof (induction ms arbitrary: rd)
  case (Cons m ms)
  obtain rd1 where rd1: "clean_node g rd m = Inr rd1"
    "\<forall>k. map_get rd1 k = (if k \<in> cleaned_by g m then None else map_get rd k)"
    using clean_node_spec Cons.prems by fastforce
  from Cons.IH [of rd1] Cons.prems obtain rd' where "fold_res (clean_node g) rd1 ms = Inr rd'"
    "\<forall>k. map_get rd' k = (if k \<in> \<Union> (cleaned_by g ` set ms) then None else map_get rd1 k)" by auto
  then show ?case using rd1 by (intro exI [of _ rd']) simp
qed simp

lemma clean_start_node:
  assumes "graph_wf g" "nodeExists g n"
  shows "\<exists>rd'. bind_res (getChildren g n) (\<lambda>children.
       fold_res (clean_node g) (map_delete (node_name n) rd) (n # children)) = Inr rd' \<and>
     (\<forall>k. map_get rd' k =
        (if k \<in> \<Union> (cleaned_by g ` ((graph_edges g)\<^sup>* `` {n})) then None else map_get rd k))"
proof -
  from getChildren_spec [OF assms] obtain r where
    r: "getChildren g n = Inr r" "set r = (graph_edges g)\<^sup>+ `` {n}" by blast
  have set: "set (n # r) = (graph_edges g)\<^sup>* `` {n}"
    unfolding list.set r(2) by (force simp: rtrancl_eq_or_trancl)
  then have "\<forall>m \<in> set (n # r). nodeExists g m"
    using graph_edges_rtrancl_exist [OF assms(1)] assms(2) by blast
  from fold_clean_nodes [OF assms(1) this, of "map_delete (node_name n) rd"] obtain rd' where
    rd': "fold_res (clean_node g) (map_delete (node_name n) rd) (n # r) = Inr rd'"
    "\<forall>k. map_get rd' k = (if k \<in> \<Union> (cleaned_by g ` set (n # r)) then None
        else map_get (map_delete (node_name n) rd) k)" by blast
  have "node_name n \<in> \<Union> (cleaned_by g ` set (n # r))" by (auto simp: cleaned_by_def)
  then have "map_get rd' k =
      (if k \<in> \<Union> (cleaned_by g ` ((graph_edges g)\<^sup>* `` {n})) then None else map_get rd k)" for k
    using rd'(2) unfolding set by (cases "k = node_name n") auto
  with r(1) rd'(1) show ?thesis by simp
qed

lemma cleanRunData_spec:
  assumes wf: "graph_wf g" and ns: "\<forall>n \<in> set ns. nodeExists g n"
  shows "\<exists>rd'. cleanRunData rd g ns = Inr rd' \<and>
     (\<forall>k. map_get rd' k =
        (if hasNode g k \<and> k \<notin> \<Union> (cleaned_by g ` ((graph_edges g)\<^sup>* `` set ns))
         then map_get rd k else None))"
proof -
  let ?f = "\<lambda>rd n. bind_res (getChildren g n) (\<lambda>children.
       fold_res (clean_node g) (map_delete (node_name n) rd) (n # children))"
  let ?C = "\<lambda>ns. \<Union> (cleaned_by g ` ((graph_edges g)\<^sup>* `` set ns))"
  have "\<exists>rd'. fold_res ?f rd ns = Inr rd' \<and>
      (\<forall>k. map_get rd' k = (if k \<in> ?C ns then None else map_get rd k))"
    using ns
  proof (induction ns arbitrary: rd)
    case (Cons n ns)
    from clean_start_node [OF wf, of n rd] Cons.prems obtain rd1 where rd1: "?f rd n = Inr rd1"
      "\<forall>k. map_get rd1 k = (if k \<in> ?C [n] then None else map_get rd k)" by auto
    from Cons.IH [of rd1] Cons.prems obtain rd' where rd': "fold_res ?f rd1 ns = Inr rd'"
      "\<forall>k. map_get rd' k = (if k \<in> ?C ns then None else map_get rd1 k)" by auto
    have "?C (n # ns) = ?C [n] \<union> ?C ns" by auto
    with rd1 rd' show ?case by auto
  qed simp
  then obtain rd1 where rd1: "fold_res ?f rd ns = Inr rd1"
    "\<forall>k. map_get rd1 k = (if k \<in> ?C ns then None else map_get rd k)" by blast
  have last: "map_get (fold (\<lambda>nm rd. if hasNode g nm then rd else map_delete nm rd)
      (object_keys rd1) rd1) k = (if hasNode g k then map_get rd1 k else None)" for k
    using fold_delete_filter [of "hasNode g" "\<lambda>x. x" "object_keys rd1" rd1 k]
    by (auto simp: map_of_eq_None_iff image_iff)
  show ?thesis using rd1 by (auto simp: cleanRunData_def last)
qed

section \<open>Cycles\<close>

definition handleCycles :: "DirectedGraph \<Rightarrow> INode list \<Rightarrow> INode \<Rightarrow> INode list result" where
  "handleCycles graph startNodes trigger =
     bind_res (getStronglyConnectedComponents graph) (\<lambda>sccs.
       let cycles = filter (\<lambda>cycle. length cycle \<ge> 1) sccs in
       if cycles = [] then Inr startNodes
       else fold_res (\<lambda>newStartNodes startNode.
              fold_res (\<lambda>newStartNodes cycle.
                  if startNode \<in> set cycle then
                    bind_res (depthFirstSearch graph trigger (\<lambda>n. n \<in> set cycle)) (\<lambda>firstNode.
                      case firstNode of None \<Rightarrow> Inl AssertionError
                      | Some f \<Rightarrow> Inr (set_add f (set_delete startNode newStartNodes)))
                  else Inr newStartNodes)
                newStartNodes cycles)
            startNodes startNodes)"

definition mutually_reachable :: "DirectedGraph \<Rightarrow> INode \<Rightarrow> INode \<Rightarrow> bool" where
  "mutually_reachable g a b = ((a, b) \<in> (graph_edges g)\<^sup>* \<and> (b, a) \<in> (graph_edges g)\<^sup>*)"

lemma mutually_reachable_refl [simp]: "mutually_reachable g a a"
  by (simp add: mutually_reachable_def)

lemma mutually_reachable_trans:
  "mutually_reachable g a b \<Longrightarrow> mutually_reachable g b c \<Longrightarrow> mutually_reachable g a c"
  by (auto simp: mutually_reachable_def intro: rtrancl_trans)

lemma mutually_reachable_sym: "mutually_reachable g a b \<Longrightarrow> mutually_reachable g b a"
  by (simp add: mutually_reachable_def)

text \<open>
  What a step of the loops keeps: the new start nodes and the old ones represent each other up
  to mutual reachability, and the new ones are reachable from the trigger.
\<close>

definition represents :: "DirectedGraph \<Rightarrow> INode \<Rightarrow> INode list \<Rightarrow> INode list \<Rightarrow> bool" where
  "represents g trigger old new =
     ((\<forall>s \<in> set old. \<exists>n \<in> set new. mutually_reachable g s n)
      \<and> (\<forall>n \<in> set new. (trigger, n) \<in> (graph_edges g)\<^sup>* \<and> (\<exists>s \<in> set old. mutually_reachable g s n)))"

lemma represents_replace:
  assumes "represents g t old new" "s \<in> set old" "mutually_reachable g s f"
    "(t, f) \<in> (graph_edges g)\<^sup>*"
  shows "represents g t old (set_add f (set_delete s new))"
  unfolding represents_def
proof (intro conjI ballI)
  fix s' assume "s' \<in> set old"
  then obtain n where n: "n \<in> set new" "mutually_reachable g s' n"
    using assms(1) unfolding represents_def by blast
  show "\<exists>n \<in> set (set_add f (set_delete s new)). mutually_reachable g s' n"
  proof (cases "n = s")
    case True
    with n assms(3) show ?thesis by (auto intro: mutually_reachable_trans)
  qed (use n in auto)
next
  fix n assume n: "n \<in> set (set_add f (set_delete s new))"
  show "(t, n) \<in> (graph_edges g)\<^sup>*" "\<exists>s \<in> set old. mutually_reachable g s n"
    using n assms unfolding represents_def by auto
qed

lemma handleCycles_spec:
  assumes wf: "graph_wf g" "nodeExists g t"
    and starts: "\<forall>s \<in> set starts. (t, s) \<in> (graph_edges g)\<^sup>*"
  shows "\<exists>r. handleCycles g starts t = Inr r \<and> represents g t starts r"
proof -
  obtain sccs where sccs: "getStronglyConnectedComponents g = Inr sccs"
    and sc: "\<forall>C \<in> set sccs. strongly_connected g (set C)"
    using getStronglyConnectedComponents_spec [OF wf(1)] by blast
  let ?cycles = "filter (\<lambda>cycle. length cycle \<ge> 1) sccs"
  let ?body = "\<lambda>s new cycle. if s \<in> set cycle then
      bind_res (depthFirstSearch g t (\<lambda>n. n \<in> set cycle)) (\<lambda>firstNode.
        case firstNode of None \<Rightarrow> Inl AssertionError
        | Some f \<Rightarrow> Inr (set_add f (set_delete s new)))
      else Inr new"
  let ?P = "represents g t starts"
  have start: "?P starts"
    unfolding represents_def using starts mutually_reachable_refl by blast
  have step: "\<exists>new'. ?body s new cycle = Inr new' \<and> ?P new'"
    if s: "s \<in> set starts" and c: "cycle \<in> set ?cycles" and P: "?P new" for s new cycle
  proof (cases "s \<in> set cycle")
    case True
    from depthFirstSearch_spec [OF wf, of "\<lambda>n. n \<in> set cycle"] obtain r where
      r: "depthFirstSearch g t (\<lambda>n. n \<in> set cycle) = Inr r"
      and spec: "case r of Some n \<Rightarrow> n \<in> set cycle \<and> (t, n) \<in> (graph_edges g)\<^sup>*
        | None \<Rightarrow> \<forall>n. (t, n) \<in> (graph_edges g)\<^sup>* \<longrightarrow> n \<notin> set cycle" by blast
    show ?thesis
    proof (cases r)
      case None
      with spec True starts s show ?thesis by auto
    next
      case (Some f)
      with spec sc c True have "mutually_reachable g s f" "(t, f) \<in> (graph_edges g)\<^sup>*"
        by (auto simp: strongly_connected_def mutually_reachable_def)
      with represents_replace [OF P s] r Some True show ?thesis by simp
    qed
  qed (use P in simp)
  have "\<exists>r. fold_res (\<lambda>new s. fold_res (?body s) new ?cycles) starts starts = Inr r \<and> ?P r"
  proof (rule fold_res_total [where P = ?P, OF start])
    fix new s assume s: "s \<in> set starts" and P: "?P new"
    show "\<exists>t'. fold_res (?body s) new ?cycles = Inr t' \<and> ?P t'"
      by (rule fold_res_total [where P = ?P, OF P]) (rule step [OF s])
  qed
  with start sccs show ?thesis by (auto simp: handleCycles_def Let_def)
qed

end
