(* ===== verification/Partial_Stack.thy ===== *)
theory Partial_Stack
  imports Partial_Run_Data
begin

text \<open>
  The last step of a partial execution: \<open>get-source-data-groups.ts\<close> and
  \<open>recreate-node-execution-stack.ts\<close> of
  \<open>packages/core/src/execution-engine/partial-execution-utils/\<close>.

  The groups of a node's incoming connections partition the connections with data and the Main
  ones without, every group covers consecutive inputs, and a group is complete exactly if each
  of its connections has data. The recreated stack has one entry per start node without Main
  parents and per complete group of the others, in order.

  \<open>String.prototype.localeCompare\<close> depends on the locale of the process and is a parameter.
\<close>

section \<open>Groups of source data\<close>

definition sortByInputIndexThenByName ::
  "(string \<Rightarrow> string \<Rightarrow> int) \<Rightarrow> GraphConnection \<Rightarrow> GraphConnection \<Rightarrow> int" where
  "sortByInputIndexThenByName localeCompare connection1 connection2 =
     (if inputIndex connection1 = inputIndex connection2
      then localeCompare (node_name (from_node connection1)) (node_name (from_node connection2))
      else int (inputIndex connection1) - int (inputIndex connection2))"

record SourceConnectionGroup =
  complete :: bool
  connections :: "GraphConnection list"

definition newGroup :: SourceConnectionGroup where
  "newGroup = \<lparr>complete = True, connections = []\<rparr>"

text \<open>\<open>Math.min\<close> over the input indexes of both arrays, one of which is not empty.\<close>

definition min_input_index :: "GraphConnection list \<Rightarrow> GraphConnection list \<Rightarrow> int" where
  "min_input_index withData withoutData =
     Min (set (map (\<lambda>c. int (inputIndex c)) withData @ map (\<lambda>c. int (inputIndex c)) withoutData))"

definition at_index :: "int \<Rightarrow> GraphConnection \<Rightarrow> bool" where
  "at_index i c = (int (inputIndex c) = i)"

lemma min_input_index_in:
  assumes "wd \<noteq> [] \<or> wod \<noteq> []"
  shows "\<exists>c \<in> set wd \<union> set wod. at_index (min_input_index wd wod) c"
proof -
  let ?xs = "map (\<lambda>c. int (inputIndex c)) wd @ map (\<lambda>c. int (inputIndex c)) wod"
  have "min_input_index wd wod \<in> set ?xs"
    unfolding min_input_index_def by (rule Min_in) (use assms in auto)
  then show ?thesis unfolding at_index_def by auto
qed

text \<open>The \<open>while\<close> loop: the two arrays, the group under construction, the groups and the index.\<close>

function group_loop ::
  "GraphConnection list \<Rightarrow> GraphConnection list \<Rightarrow> SourceConnectionGroup
     \<Rightarrow> SourceConnectionGroup list \<Rightarrow> int \<Rightarrow> SourceConnectionGroup list" where
  "group_loop withData withoutData currentGroup groups currentInputIndex =
     (if withData = [] \<and> withoutData = [] then groups @ [currentGroup]
      else let index = currentInputIndex + 1 in
        case extract_first (at_index index) withData of
          Some (connection, rest) \<Rightarrow>
            group_loop rest withoutData
              (currentGroup\<lparr>connections := connections currentGroup @ [connection]\<rparr>) groups index
        | None \<Rightarrow>
            (case extract_first (at_index index) withoutData of
               Some (connection, rest) \<Rightarrow>
                 group_loop withData rest
                   (currentGroup\<lparr>connections := connections currentGroup @ [connection],
                      complete := False\<rparr>) groups index
             | None \<Rightarrow>
                 group_loop withData withoutData newGroup (groups @ [currentGroup])
                   (min_input_index withData withoutData - 1)))"
  by pat_completeness auto

definition group_measure ::
  "GraphConnection list \<Rightarrow> GraphConnection list \<Rightarrow> int \<Rightarrow> nat" where
  "group_measure wd wod i =
     2 * (length wd + length wod) + (if \<exists>c \<in> set wd \<union> set wod. at_index (i + 1) c then 0 else 1)"

termination group_loop
proof (relation "measure (\<lambda>(wd, wod, cur, gs, i). group_measure wd wod i)", goal_cases)
  case 1
  show ?case by simp
next
  case (2 wd wod cur gs i j)
  then have none: "\<not> (\<exists>c \<in> set wd \<union> set wod. at_index (i + 1) c)"
    unfolding extract_first_None by blast
  have "\<exists>c \<in> set wd \<union> set wod. at_index (min_input_index wd wod - 1 + 1) c"
    using min_input_index_in [of wd wod] 2(1) by simp
  then show ?case
    unfolding in_measure case_prod_conv group_measure_def if_not_P [OF none] by (simp only: if_True)
next
  case (3 wd wod cur gs i)
  then show ?case by (auto simp: group_measure_def dest!: extract_first_Some)
next
  case (4 wd wod cur gs i)
  then show ?case by (auto simp: group_measure_def dest!: extract_first_Some)
qed

declare group_loop.simps [simp del]

definition getSourceDataGroups ::
  "(string \<Rightarrow> string \<Rightarrow> int) \<Rightarrow> DirectedGraph \<Rightarrow> INode \<Rightarrow> IRunData \<Rightarrow> IPinData
     \<Rightarrow> SourceConnectionGroup list" where
  "getSourceDataGroups localeCompare graph node runData pinnedData =
     (let connections = getConnections graph (Some node);
          hasData = (\<lambda>c. map_has runData (node_name (from_node c))
                         \<or> map_has pinnedData (node_name (from_node c)));
          withData = filter hasData connections;
          withoutData = filter (\<lambda>c. \<not> hasData c \<and> gc_type c = Main) connections
      in if withData = [] \<and> withoutData = [] then []
         else let sortedWithData = sort_cmp (sortByInputIndexThenByName localeCompare) withData;
                  sortedWithoutData = sort_cmp (sortByInputIndexThenByName localeCompare) withoutData
              in group_loop sortedWithData sortedWithoutData newGroup []
                   (min_input_index sortedWithData sortedWithoutData - 1))"

text \<open>
  What the loop keeps of a group: its connections cover consecutive inputs, and it is complete
  exactly if no connection without data was put into it.
\<close>

definition group_ok :: "(GraphConnection \<Rightarrow> bool) \<Rightarrow> SourceConnectionGroup \<Rightarrow> bool" where
  "group_ok has grp =
     ((\<exists>k. map inputIndex (connections grp) = [k..<k + length (connections grp)])
      \<and> complete grp = list_all has (connections grp))"

definition current_ok :: "(GraphConnection \<Rightarrow> bool) \<Rightarrow> SourceConnectionGroup \<Rightarrow> int \<Rightarrow> bool" where
  "current_ok has grp i =
     (complete grp = list_all has (connections grp)
      \<and> (\<exists>k. map inputIndex (connections grp) = [k..<k + length (connections grp)]
             \<and> (connections grp \<noteq> [] \<longrightarrow> i + 1 = int (k + length (connections grp)))))"

lemma current_ok_new [simp]: "current_ok has newGroup i"
  by (simp add: current_ok_def newGroup_def)

lemma current_ok_imp_group_ok: "current_ok has grp i \<Longrightarrow> group_ok has grp"
  by (auto simp: current_ok_def group_ok_def)

lemma current_ok_push:
  assumes "current_ok has grp i" "at_index (i + 1) c"
  shows "current_ok has (grp\<lparr>connections := connections grp @ [c], complete := complete grp \<and> has c\<rparr>) (i + 1)"
proof (cases "connections grp = []")
  case True
  with assms show ?thesis
    by (auto simp: current_ok_def at_index_def intro!: exI [of _ "inputIndex c"])
next
  case False
  with assms(1) obtain k where k: "map inputIndex (connections grp) = [k..<k + length (connections grp)]"
    "i + 1 = int (k + length (connections grp))" "complete grp = list_all has (connections grp)"
    unfolding current_ok_def by blast
  then have "inputIndex c = k + length (connections grp)"
    using assms(2) by (simp add: at_index_def)
  with k show ?thesis by (auto simp: current_ok_def intro!: exI [of _ k])
qed

lemma group_loop_spec:
  assumes "list_all (group_ok has) gs" "list_all (\<lambda>g. connections g \<noteq> []) gs" "current_ok has cur i"
    "list_all has wd" "list_all (\<lambda>c. \<not> has c) wod"
    "connections cur = [] \<Longrightarrow> \<exists>c \<in> set wd \<union> set wod. at_index (i + 1) c"
  shows "list_all (group_ok has) (group_loop wd wod cur gs i)
    \<and> list_all (\<lambda>g. connections g \<noteq> []) (group_loop wd wod cur gs i)
    \<and> mset (concat (map connections (group_loop wd wod cur gs i))) =
        mset (concat (map connections gs)) + mset (connections cur) + mset wd + mset wod"
  using assms
proof (induction wd wod cur gs i rule: group_loop.induct)
  case (1 wd wod cur gs i)
  note IH = "1.IH" and prems = "1.prems"
  show ?case
  proof (cases "wd = [] \<and> wod = []")
    case True
    with prems show ?thesis
      by (auto simp: group_loop.simps [of "[]" "[]"] current_ok_imp_group_ok)
  next
    case ne: False
    show ?thesis
    proof (cases "extract_first (at_index (i + 1)) wd")
      case (Some p)
      obtain c rest where p: "p = (c, rest)" by (cases p)
      note ex = extract_first_Some [OF Some [unfolded p]]
      have c: "has c" "at_index (i + 1) c" "list_all has rest"
        using ex prems(4) extract_first_subset [OF Some [unfolded p]] by (auto simp: list_all_iff)
      have cur: "current_ok has (cur\<lparr>connections := connections cur @ [c]\<rparr>) (i + 1)"
        using current_ok_push [OF prems(3) c(2)] c(1) by simp
      show ?thesis
        using IH(3) [OF ne refl Some p [symmetric] prems(1,2) cur c(3) prems(5)] ne Some p ex
        by (simp add: group_loop.simps [of wd wod] ac_simps)
    next
      case None
      show ?thesis
      proof (cases "extract_first (at_index (i + 1)) wod")
        case (Some p)
        obtain c rest where p: "p = (c, rest)" by (cases p)
        note ex = extract_first_Some [OF Some [unfolded p]]
        have c: "\<not> has c" "at_index (i + 1) c" "list_all (\<lambda>c. \<not> has c) rest"
          using ex prems(5) extract_first_subset [OF Some [unfolded p]] by (auto simp: list_all_iff)
        have cur: "current_ok has (cur\<lparr>connections := connections cur @ [c], complete := False\<rparr>) (i + 1)"
          using current_ok_push [OF prems(3) c(2)] c(1) by simp
        show ?thesis
          using IH(2) [OF ne refl None Some p [symmetric] prems(1,2) cur prems(4) c(3)] ne None Some p ex
          by (simp add: group_loop.simps [of wd wod] ac_simps)
      next
        case none: None
        have cur: "connections cur \<noteq> []"
          using prems(6) None none by (auto simp: extract_first_None)
        have "\<exists>c \<in> set wd \<union> set wod. at_index (min_input_index wd wod - 1 + 1) c"
          using min_input_index_in [of wd wod] ne by simp
        then show ?thesis
          using IH(1) [OF ne refl None none] prems cur ne None none current_ok_imp_group_ok [OF prems(3)]
          by (simp add: group_loop.simps [of wd wod] newGroup_def [THEN arg_cong [of _ _ connections]])
      qed
    qed
  qed
qed

definition has_source_data :: "IRunData \<Rightarrow> IPinData \<Rightarrow> GraphConnection \<Rightarrow> bool" where
  "has_source_data rd pd c =
     (map_has rd (node_name (from_node c)) \<or> map_has pd (node_name (from_node c)))"

lemma getSourceDataGroups_spec:
  "list_all (\<lambda>grp. group_ok (has_source_data rd pd) grp \<and> connections grp \<noteq> [])
     (getSourceDataGroups lc g n rd pd)
   \<and> mset (concat (map connections (getSourceDataGroups lc g n rd pd))) =
      mset (filter (\<lambda>c. has_source_data rd pd c \<or> gc_type c = Main) (getConnections g (Some n)))"
proof -
  let ?has = "has_source_data rd pd"
  let ?cs = "getConnections g (Some n)"
  let ?wd = "filter ?has ?cs" and ?wod = "filter (\<lambda>c. \<not> ?has c \<and> gc_type c = Main) ?cs"
  have split: "mset (filter (\<lambda>c. ?has c \<or> gc_type c = Main) cs) =
      mset (filter ?has cs) + mset (filter (\<lambda>c. \<not> ?has c \<and> gc_type c = Main) cs)" for cs
    by (induction cs) auto
  let ?swd = "sort_cmp (sortByInputIndexThenByName lc) ?wd"
  let ?swod = "sort_cmp (sortByInputIndexThenByName lc) ?wod"
  have eq: "getSourceDataGroups lc g n rd pd =
      (if ?wd = [] \<and> ?wod = [] then []
       else group_loop ?swd ?swod newGroup [] (min_input_index ?swd ?swod - 1))"
    unfolding getSourceDataGroups_def has_source_data_def Let_def by simp
  show ?thesis
  proof (cases "?wd = [] \<and> ?wod = []")
    case True
    then have "mset (filter (\<lambda>c. ?has c \<or> gc_type c = Main) ?cs) = {#}"
      unfolding split by simp
    with True show ?thesis unfolding eq by simp
  next
    case False
    then have ne: "?swd \<noteq> [] \<or> ?swod \<noteq> []"
      by (metis mset_sort_cmp mset_zero_iff)
    have "\<exists>c \<in> set ?swd \<union> set ?swod. at_index (min_input_index ?swd ?swod - 1 + 1) c"
      using min_input_index_in [OF ne] by simp
    moreover have "list_all ?has ?swd" "list_all (\<lambda>c. \<not> ?has c) ?swod" by (simp_all add: list_all_iff)
    ultimately have "list_all (group_ok ?has) (group_loop ?swd ?swod newGroup [] (min_input_index ?swd ?swod - 1))
      \<and> list_all (\<lambda>g. connections g \<noteq> []) (group_loop ?swd ?swod newGroup [] (min_input_index ?swd ?swod - 1))
      \<and> mset (concat (map connections (group_loop ?swd ?swod newGroup [] (min_input_index ?swd ?swod - 1)))) =
        mset ?swd + mset ?swod"
      using group_loop_spec [of ?has "[]" newGroup "min_input_index ?swd ?swod - 1" ?swd ?swod]
      by (simp add: newGroup_def [THEN arg_cong [of _ _ connections]])
    then show ?thesis unfolding eq if_not_P [OF False] split list_all_iff by simp
  qed
qed

section \<open>The execution stack\<close>

text \<open>
  Both functions create the missing levels of the nested objects (\<open>?? {}\<close>, \<open>?? []\<close>) and write
  one cell of the innermost array, which grows if it is too short.
\<close>

definition add_waiting ::
  "(string, (nat, (NodeConnectionType, 'a cell list) jsmap) jsmap) jsmap \<Rightarrow> string \<Rightarrow> nat
     \<Rightarrow> NodeConnectionType \<Rightarrow> nat \<Rightarrow> 'a cell
     \<Rightarrow> (string, (nat, (NodeConnectionType, 'a cell list) jsmap) jsmap) jsmap" where
  "add_waiting waiting nodeName runIndex inputType ii value =
     (let obj = (case map_get waiting nodeName of None \<Rightarrow> [] | Some ob \<Rightarrow> ob);
          conns = (case map_get obj runIndex of None \<Rightarrow> [] | Some cs \<Rightarrow> cs);
          xs = (case map_get conns inputType of None \<Rightarrow> [] | Some l \<Rightarrow> l)
      in map_set nodeName
           (map_set runIndex (map_set inputType (cell_set xs ii value) conns) obj) waiting)"

definition addWaitingExecution ::
  "IWaitingForExecution \<Rightarrow> string \<Rightarrow> nat \<Rightarrow> NodeConnectionType \<Rightarrow> nat \<Rightarrow> items option
     \<Rightarrow> IWaitingForExecution" where
  "addWaitingExecution waitingExecution nodeName runIndex inputType ii executionData =
     add_waiting waitingExecution nodeName runIndex inputType ii
       (case executionData of None \<Rightarrow> Null | Some d \<Rightarrow> Val d)"

definition addWaitingExecutionSource ::
  "IWaitingForExecutionSource \<Rightarrow> string \<Rightarrow> nat \<Rightarrow> NodeConnectionType \<Rightarrow> nat \<Rightarrow> ISourceData option
     \<Rightarrow> IWaitingForExecutionSource" where
  "addWaitingExecutionSource waitingExecutionSource nodeName runIndex inputType ii sourceData =
     add_waiting waitingExecutionSource nodeName runIndex inputType ii
       (case sourceData of None \<Rightarrow> Null | Some d \<Rightarrow> Val d)"

definition waiting_cell ::
  "(string, (nat, (NodeConnectionType, 'a cell list) jsmap) jsmap) jsmap \<Rightarrow> string \<Rightarrow> nat
     \<Rightarrow> NodeConnectionType \<Rightarrow> nat \<Rightarrow> 'a cell" where
  "waiting_cell w nm r ty ii =
     (case map_get w nm of None \<Rightarrow> Hole | Some ob \<Rightarrow>
        (case map_get ob r of None \<Rightarrow> Hole | Some cs \<Rightarrow>
           (case map_get cs ty of None \<Rightarrow> Hole | Some xs \<Rightarrow> cell_get xs ii)))"

lemma cell_get_Nil [simp]: "cell_get [] i = Hole"
  by (simp add: cell_get_def)

lemma waiting_cell_add:
  "waiting_cell (add_waiting w nm r ty ii v) nm' r' ty' ii' =
     (if nm' = nm \<and> r' = r \<and> ty' = ty \<and> ii' = ii then v else waiting_cell w nm' r' ty' ii')"
  unfolding waiting_cell_def add_waiting_def Let_def
  by (simp split: option.split)

lemma map_keys_add_waiting:
  "set (map_keys (add_waiting w nm r ty ii v)) = insert nm (set (map_keys w))"
  unfolding add_waiting_def Let_def map_keys_set by auto

record RecreatedStack =
  rs_nodeExecutionStack :: "IExecuteData list"
  rs_waitingExecution :: IWaitingForExecution
  rs_waitingExecutionSource :: IWaitingForExecutionSource

definition source_of :: "GraphConnection \<Rightarrow> nat \<Rightarrow> ISourceData" where
  "source_of c runIndex =
     \<lparr>previousNode = node_name (from_node c), previousNodeOutput = Some (outputIndex c),
      previousNodeRun = Some runIndex\<rparr>"

text \<open>The loop over the connections of a complete group, which collects the data and its sources.\<close>

definition complete_step ::
  "IRunData \<Rightarrow> IPinData \<Rightarrow> items list \<times> ISourceData list \<Rightarrow> GraphConnection
     \<Rightarrow> (items list \<times> ISourceData list) result" where
  "complete_step runData pinData acc incomingConnection =
     (let sourceNode = from_node incomingConnection; (incomingData, incomingSource) = acc in
      case map_get pinData (node_name sourceNode) of
        Some pinned \<Rightarrow>
          Inr (incomingData @ [pinned], incomingSource @ [source_of incomingConnection 0])
      | None \<Rightarrow>
          bind_res (assert_res (map_has runData (node_name sourceNode))) (\<lambda>_.
            bind_res (getIncomingDataFromAnyRun runData (node_name sourceNode)
                        (gc_type incomingConnection) (outputIndex incomingConnection)) (\<lambda>d.
              Inr (case d of
                     None \<Rightarrow> (incomingData, incomingSource @ [source_of incomingConnection 0])
                   | Some (data, runIndex) \<Rightarrow>
                       (incomingData @ [data],
                        incomingSource @ [source_of incomingConnection runIndex])))))"

definition push_complete ::
  "INode \<Rightarrow> IRunData \<Rightarrow> IPinData \<Rightarrow> GraphConnection list \<Rightarrow> RecreatedStack \<Rightarrow> RecreatedStack result" where
  "push_complete startNode runData pinData cs st =
     bind_res (fold_res (complete_step runData pinData) ([], []) cs) (\<lambda>(incomingData, incomingSource).
       Inr (st\<lparr>rs_nodeExecutionStack := rs_nodeExecutionStack st @
         [\<lparr>exec_data = [(Main, map Val incomingData)], exec_metadata = None, exec_node = startNode,
           exec_source = Some [(Main, map Val incomingSource)]\<rparr>]\<rparr>))"

text \<open>The loop over the connections of an incomplete group, which fills the waiting executions.\<close>

definition waiting_step ::
  "string \<Rightarrow> nat \<Rightarrow> IRunData \<Rightarrow> RecreatedStack \<Rightarrow> GraphConnection \<Rightarrow> RecreatedStack result" where
  "waiting_step nodeName nextRunIndex runData st incomingConnection =
     bind_res (getIncomingDataFromAnyRun runData (node_name (from_node incomingConnection))
                 (gc_type incomingConnection) (outputIndex incomingConnection)) (\<lambda>d.
       case d of None \<Rightarrow> Inr st
       | Some (data, _) \<Rightarrow>
           Inr (st\<lparr>rs_waitingExecution :=
                     addWaitingExecution (rs_waitingExecution st) nodeName nextRunIndex
                       (gc_type incomingConnection) (inputIndex incomingConnection) (Some data),
                   rs_waitingExecutionSource :=
                     addWaitingExecutionSource (rs_waitingExecutionSource st) nodeName nextRunIndex
                       (gc_type incomingConnection) (inputIndex incomingConnection)
                       (Some (source_of incomingConnection nextRunIndex))\<rparr>))"

definition next_run_index :: "IWaitingForExecution \<Rightarrow> string \<Rightarrow> nat" where
  "next_run_index w nodeName = (case map_get w nodeName of None \<Rightarrow> 0 | Some ob \<Rightarrow> length ob)"

definition group_step ::
  "INode \<Rightarrow> IRunData \<Rightarrow> IPinData \<Rightarrow> RecreatedStack \<Rightarrow> SourceConnectionGroup \<Rightarrow> RecreatedStack result" where
  "group_step startNode runData pinData st sourceData =
     (if complete sourceData then push_complete startNode runData pinData (connections sourceData) st
      else fold_res
             (waiting_step (node_name startNode)
                (next_run_index (rs_waitingExecution st) (node_name startNode)) runData)
             st (connections sourceData))"

definition start_node_step ::
  "(string \<Rightarrow> string \<Rightarrow> int) \<Rightarrow> DirectedGraph \<Rightarrow> IRunData \<Rightarrow> IPinData \<Rightarrow> RecreatedStack \<Rightarrow> INode
     \<Rightarrow> RecreatedStack result" where
  "start_node_step localeCompare graph runData pinData st startNode =
     bind_res (getDirectParentConnections graph startNode) (\<lambda>parents.
       if filter (\<lambda>c. gc_type c = Main) parents = [] then
         Inr (st\<lparr>rs_nodeExecutionStack := rs_nodeExecutionStack st @
           [\<lparr>exec_data = [(Main, [Val [json_item []]])], exec_metadata = None,
             exec_node = startNode, exec_source = None\<rparr>]\<rparr>)
       else fold_res (group_step startNode runData pinData) st
              (getSourceDataGroups localeCompare graph startNode runData pinData))"

definition recreateNodeExecutionStack ::
  "(string \<Rightarrow> string \<Rightarrow> int) \<Rightarrow> DirectedGraph \<Rightarrow> INode list \<Rightarrow> IRunData \<Rightarrow> IPinData
     \<Rightarrow> RecreatedStack result" where
  "recreateNodeExecutionStack localeCompare graph startNodes runData pinData =
     bind_res (assert_res (list_all (\<lambda>n. disabled n \<noteq> Some True) (getNodes graph))) (\<lambda>_.
       fold_res (start_node_step localeCompare graph runData pinData)
         \<lparr>rs_nodeExecutionStack = [], rs_waitingExecution = [], rs_waitingExecutionSource = []\<rparr>
         startNodes)"

subsection \<open>Which entries the stack gets\<close>

text \<open>The nodes that a start node contributes to the stack.\<close>

definition stack_share ::
  "(string \<Rightarrow> string \<Rightarrow> int) \<Rightarrow> DirectedGraph \<Rightarrow> IRunData \<Rightarrow> IPinData \<Rightarrow> INode \<Rightarrow> INode list" where
  "stack_share lc g rd pd s =
     (if filter (\<lambda>c. gc_type c = Main) (getConnections g (Some s)) = [] then [s]
      else map (\<lambda>_. s) (filter complete (getSourceDataGroups lc g s rd pd)))"

definition stack_nodes :: "RecreatedStack \<Rightarrow> INode list" where
  "stack_nodes st = map exec_node (rs_nodeExecutionStack st)"

definition sources_match :: "RecreatedStack \<Rightarrow> bool" where
  "sources_match st =
     (\<forall>nm r ty ii. (waiting_cell (rs_waitingExecution st) nm r ty ii = Hole)
        = (waiting_cell (rs_waitingExecutionSource st) nm r ty ii = Hole))"

lemma complete_step_total:
  assumes "typed_run_data rd (gc_type c)" "has_source_data rd pd c"
  shows "\<exists>acc'. complete_step rd pd acc c = Inr acc'"
proof -
  obtain ds ss where acc: "acc = (ds, ss)" by (cases acc)
  obtain d where "getIncomingDataFromAnyRun rd (node_name (from_node c)) (gc_type c) (outputIndex c) = Inr d"
    using getIncomingDataFromAnyRun_total [OF assms(1)] by blast
  with assms(2) show ?thesis
    by (cases "map_get pd (node_name (from_node c))"; cases d)
      (auto simp: complete_step_def Let_def acc has_source_data_def map_has_def)
qed

lemma push_complete_total:
  assumes "\<forall>c \<in> set cs. typed_run_data rd (gc_type c) \<and> has_source_data rd pd c"
  shows "\<exists>st'. push_complete n rd pd cs st = Inr st' \<and> stack_nodes st' = stack_nodes st @ [n]
    \<and> rs_waitingExecution st' = rs_waitingExecution st
    \<and> rs_waitingExecutionSource st' = rs_waitingExecutionSource st"
proof -
  have "\<exists>acc. fold_res (complete_step rd pd) ([], []) cs = Inr acc \<and> True"
    by (rule fold_res_total) (use assms complete_step_total in blast)+
  then show ?thesis by (auto simp: push_complete_def stack_nodes_def)
qed

lemma waiting_step_total:
  assumes "typed_run_data rd (gc_type c)"
  shows "\<exists>st'. waiting_step nm r rd st c = Inr st' \<and> stack_nodes st' = stack_nodes st
    \<and> (sources_match st \<longrightarrow> sources_match st')
    \<and> set (map_keys (rs_waitingExecution st')) \<subseteq> insert nm (set (map_keys (rs_waitingExecution st)))"
proof -
  obtain d where d: "getIncomingDataFromAnyRun rd (node_name (from_node c)) (gc_type c) (outputIndex c) = Inr d"
    using getIncomingDataFromAnyRun_total [OF assms] by blast
  show ?thesis
  proof (cases d)
    case None
    with d show ?thesis by (auto simp: waiting_step_def)
  next
    case (Some p)
    obtain data k where "p = (data, k)" by (cases p)
    with d Some show ?thesis
      by (simp add: waiting_step_def stack_nodes_def sources_match_def addWaitingExecution_def
          addWaitingExecutionSource_def waiting_cell_add map_keys_add_waiting del: set_map)
  qed
qed

lemma group_step_total:
  assumes typed: "\<forall>c \<in> set (connections grp). typed_run_data rd (gc_type c)"
    and ok: "group_ok (has_source_data rd pd) grp"
  shows "\<exists>st'. group_step n rd pd st grp = Inr st'
    \<and> stack_nodes st' = stack_nodes st @ (if complete grp then [n] else [])
    \<and> (sources_match st \<longrightarrow> sources_match st')
    \<and> set (map_keys (rs_waitingExecution st'))
        \<subseteq> set (map_keys (rs_waitingExecution st)) \<union> (if complete grp then {} else {node_name n})"
proof (cases "complete grp")
  case True
  then have "\<forall>c \<in> set (connections grp). typed_run_data rd (gc_type c) \<and> has_source_data rd pd c"
    using ok typed by (auto simp: group_ok_def list_all_iff)
  from push_complete_total [OF this, of n st] True show ?thesis
    by (auto simp: group_step_def sources_match_def)
next
  case False
  let ?P = "\<lambda>st'. stack_nodes st' = stack_nodes st \<and> (sources_match st \<longrightarrow> sources_match st')
    \<and> set (map_keys (rs_waitingExecution st')) \<subseteq> insert (node_name n) (set (map_keys (rs_waitingExecution st)))"
  have "\<exists>st'. fold_res (waiting_step (node_name n)
       (next_run_index (rs_waitingExecution st) (node_name n)) rd) st (connections grp) = Inr st' \<and> ?P st'"
  proof (rule fold_res_total [where P = ?P])
    fix t c assume c: "c \<in> set (connections grp)" and P: "?P t"
    have "typed_run_data rd (gc_type c)" using c typed by blast
    from waiting_step_total [OF this, of "node_name n" "next_run_index (rs_waitingExecution st) (node_name n)" t]
    obtain t' where t': "waiting_step (node_name n)
        (next_run_index (rs_waitingExecution st) (node_name n)) rd t c = Inr t'"
      "stack_nodes t' = stack_nodes t" "sources_match t \<longrightarrow> sources_match t'"
      "set (map_keys (rs_waitingExecution t')) \<subseteq> insert (node_name n) (set (map_keys (rs_waitingExecution t)))"
      by blast
    have "?P t'" using t'(2-4) P by (simp del: set_map) blast
    with t'(1) show "\<exists>t'. waiting_step (node_name n)
        (next_run_index (rs_waitingExecution st) (node_name n)) rd t c = Inr t' \<and> ?P t'" by blast
  qed (simp_all, blast)
  with False show ?thesis unfolding group_step_def by (simp del: set_map)
qed

lemma groups_fold_total:
  assumes "\<forall>grp \<in> set grps. (\<forall>c \<in> set (connections grp). typed_run_data rd (gc_type c))
      \<and> group_ok (has_source_data rd pd) grp"
  shows "\<exists>st'. fold_res (group_step n rd pd) st grps = Inr st'
    \<and> stack_nodes st' = stack_nodes st @ map (\<lambda>_. n) (filter complete grps)
    \<and> (sources_match st \<longrightarrow> sources_match st')
    \<and> set (map_keys (rs_waitingExecution st')) \<subseteq> insert (node_name n) (set (map_keys (rs_waitingExecution st)))"
  using assms
proof (induction grps arbitrary: st)
  case Nil
  then show ?case by auto
next
  case (Cons grp grps)
  then obtain st1 where st1: "group_step n rd pd st grp = Inr st1"
    "stack_nodes st1 = stack_nodes st @ (if complete grp then [n] else [])"
    "sources_match st \<longrightarrow> sources_match st1"
    "set (map_keys (rs_waitingExecution st1)) \<subseteq> insert (node_name n) (set (map_keys (rs_waitingExecution st)))"
  proof -
    from group_step_total [of grp rd pd n st] Cons.prems obtain st1 where
      "group_step n rd pd st grp = Inr st1"
      "stack_nodes st1 = stack_nodes st @ (if complete grp then [n] else [])"
      "sources_match st \<longrightarrow> sources_match st1"
      "set (map_keys (rs_waitingExecution st1)) \<subseteq>
         set (map_keys (rs_waitingExecution st)) \<union> (if complete grp then {} else {node_name n})"
      by (simp del: set_map) blast
    then show ?thesis by (intro that [of st1]) (simp_all del: set_map split: if_splits, blast+)
  qed
  obtain st2 where st2: "fold_res (group_step n rd pd) st1 grps = Inr st2"
    "stack_nodes st2 = stack_nodes st1 @ map (\<lambda>_. n) (filter complete grps)"
    "sources_match st1 \<longrightarrow> sources_match st2"
    "set (map_keys (rs_waitingExecution st2)) \<subseteq> insert (node_name n) (set (map_keys (rs_waitingExecution st1)))"
    using Cons.IH [of st1] Cons.prems by auto
  have "fold_res (group_step n rd pd) st (grp # grps) = Inr st2" using st1(1) st2(1) by simp
  moreover have "stack_nodes st2 = stack_nodes st @ map (\<lambda>_. n) (filter complete (grp # grps))"
    using st1(2) st2(2) by simp
  ultimately show ?case using st1(3,4) st2(3,4) by (intro exI [of _ st2]) blast
qed

lemma start_node_step_total:
  assumes wf: "graph_wf g" and s: "nodeExists g s"
    and typed: "\<forall>c \<in> conns g. typed_run_data rd (gc_type c)"
  shows "\<exists>st'. start_node_step lc g rd pd st s = Inr st'
    \<and> stack_nodes st' = stack_nodes st @ stack_share lc g rd pd s
    \<and> (sources_match st \<longrightarrow> sources_match st')
    \<and> set (map_keys (rs_waitingExecution st')) \<subseteq> insert (node_name s) (set (map_keys (rs_waitingExecution st)))"
proof -
  have par: "getDirectParentConnections g s = Inr (getConnections g (Some s))"
    using s by (simp add: getDirectParentConnections_def getConnections_def)
  show ?thesis
  proof (cases "filter (\<lambda>c. gc_type c = Main) (getConnections g (Some s)) = []")
    case True
    then show ?thesis
      by (auto simp: start_node_step_def par stack_share_def stack_nodes_def sources_match_def)
  next
    case False
    let ?grps = "getSourceDataGroups lc g s rd pd"
    note spec = getSourceDataGroups_spec [of rd pd lc g s]
    have "set (concat (map connections ?grps)) \<subseteq> set (getConnections g (Some s))"
      using arg_cong [OF conjunct2 [OF spec], of set_mset] by auto
    also have "\<dots> \<subseteq> conns g" by (auto simp: getConnections_def conns_def)
    finally have "\<forall>grp \<in> set ?grps. (\<forall>c \<in> set (connections grp). typed_run_data rd (gc_type c))
        \<and> group_ok (has_source_data rd pd) grp"
      using typed conjunct1 [OF spec] unfolding list_all_iff by fastforce
    from groups_fold_total [OF this, of s st] show ?thesis
      unfolding start_node_step_def par bind_res_simps if_not_P [OF False] stack_share_def .
  qed
qed

lemma recreateNodeExecutionStack_spec:
  assumes wf: "graph_wf g" and starts: "\<forall>s \<in> set starts. nodeExists g s"
    and enabled: "\<forall>n \<in> set (getNodes g). disabled n \<noteq> Some True"
    and typed: "\<forall>c \<in> conns g. typed_run_data rd (gc_type c)"
  shows "\<exists>st. recreateNodeExecutionStack lc g starts rd pd = Inr st
    \<and> stack_nodes st = concat (map (stack_share lc g rd pd) starts)
    \<and> sources_match st
    \<and> set (map_keys (rs_waitingExecution st)) \<subseteq> node_name ` set starts"
proof -
  have fold: "\<exists>st. fold_res (start_node_step lc g rd pd) st0 ss = Inr st
      \<and> stack_nodes st = stack_nodes st0 @ concat (map (stack_share lc g rd pd) ss)
      \<and> (sources_match st0 \<longrightarrow> sources_match st)
      \<and> set (map_keys (rs_waitingExecution st)) \<subseteq> node_name ` set ss \<union> set (map_keys (rs_waitingExecution st0))"
    if "\<forall>s \<in> set ss. nodeExists g s" for ss st0
    using that
  proof (induction ss arbitrary: st0)
    case Nil
    then show ?case by simp
  next
    case (Cons s ss)
    obtain st1 where st1: "start_node_step lc g rd pd st0 s = Inr st1"
      "stack_nodes st1 = stack_nodes st0 @ stack_share lc g rd pd s"
      "sources_match st0 \<longrightarrow> sources_match st1"
      "set (map_keys (rs_waitingExecution st1)) \<subseteq> insert (node_name s) (set (map_keys (rs_waitingExecution st0)))"
      using start_node_step_total [OF wf _ typed, of s lc pd st0] Cons.prems by auto
    obtain st2 where st2: "fold_res (start_node_step lc g rd pd) st1 ss = Inr st2"
      "stack_nodes st2 = stack_nodes st1 @ concat (map (stack_share lc g rd pd) ss)"
      "sources_match st1 \<longrightarrow> sources_match st2"
      "set (map_keys (rs_waitingExecution st2)) \<subseteq> node_name ` set ss \<union> set (map_keys (rs_waitingExecution st1))"
      using Cons.IH [of st1] Cons.prems by auto
    show ?case
    proof (intro exI conjI)
      show "fold_res (start_node_step lc g rd pd) st0 (s # ss) = Inr st2" using st1(1) st2(1) by simp
      show "stack_nodes st2 = stack_nodes st0 @ concat (map (stack_share lc g rd pd) (s # ss))"
        using st1(2) st2(2) by simp
      show "sources_match st0 \<longrightarrow> sources_match st2" using st1(3) st2(3) by blast
      show "set (map_keys (rs_waitingExecution st2))
          \<subseteq> node_name ` set (s # ss) \<union> set (map_keys (rs_waitingExecution st0))"
        using st1(4) st2(4) by (simp del: set_map) blast
    qed
  qed
  have ass: "list_all (\<lambda>n. disabled n \<noteq> Some True) (getNodes g)" using enabled by (simp add: list_all_iff)
  let ?st0 = "\<lparr>rs_nodeExecutionStack = [], rs_waitingExecution = [], rs_waitingExecutionSource = []\<rparr>"
  have "stack_nodes ?st0 = []" "sources_match ?st0"
    by (simp_all add: stack_nodes_def sources_match_def waiting_cell_def)
  with fold [OF starts, of ?st0] show ?thesis
    unfolding recreateNodeExecutionStack_def by (simp add: ass)
qed

end
