(* ===== verification/Workflow_Model.thy ===== *)
theory Workflow_Model
  imports Directed_Graph
begin

text \<open>
  The class \<open>Workflow\<close> of \<open>packages/workflow/src/workflow.ts\<close>: its fields, the index of the
  connections by destination, the lookups, the static data and \<open>renameNode\<close>, and the conversions
  between workflows and graphs of \<open>directed-graph.ts\<close>.

  \<open>links\<close> flattens the nested connection objects to the list of single connections. The index by
  destination holds exactly the reversed links, with multiplicity; renaming to a fresh name
  renames the endpoints of the links and nothing else; a graph made from a workflow has exactly
  its links as connections.

  The registry of node types (\<open>INodeTypes\<close>), the defaults of node parameters
  (\<open>NodeHelpers.getNodeParameters\<close>) and the replacement of node names inside expressions
  (\<open>applyAccessPatterns\<close>) are parameters of the definitions that use them.
\<close>

section \<open>The workflow object\<close>

text \<open>
  The parts of a node type that the engine reads. The functions of a node type
  (\<open>execute\<close>, \<open>poll\<close>, \<open>trigger\<close>, \<open>webhook\<close>) are flags that say whether they are defined;
  \<open>inputs\<close> and \<open>outputs\<close> are arrays or an expression string, and an element of such an array
  is the name of a connection type or an object with a type, a category and a display name.
\<close>

datatype port =
    PortName NodeConnectionType
  | PortConfig NodeConnectionType "string option" "string option"

datatype node_ports = PortList "port list" | PortExpression string

datatype required_inputs = RequiredExpression string | RequiredList "nat list" | RequiredCount nat

record INodeType =
  nt_name :: string
  nt_group :: "string list"
  nt_trigger :: bool
  nt_poll :: bool
  nt_webhook :: bool
  nt_execute :: bool
  nt_maxNodes :: "nat option"
  nt_inputs :: node_ports
  nt_outputs :: node_ports
  nt_requiredInputs :: "required_inputs option"
  nt_requestDefaults :: bool
  nt_customOperations :: "(string, string list) jsmap option"

type_synonym INodeTypes = "string \<Rightarrow> rat \<Rightarrow> INodeType option"

record Workflow =
  wf_id :: string
  wf_name :: "string option"
  wf_nodes :: "(string, INode) jsmap"
  connectionsBySourceNode :: IConnections
  connectionsByDestinationNode :: IConnections
  active :: bool
  settings :: "(string, json) jsmap"
  staticData :: "(string, json) jsmap"
  staticDataChanged :: bool
  testStaticData :: "(string, json) jsmap option"
  wf_pinData :: "IPinData option"

text \<open>\<open>connections ?? []\<close> for one output.\<close>

primrec cell_list :: "'a list cell \<Rightarrow> 'a list" where
  "cell_list Hole = []"
| "cell_list Null = []"
| "cell_list (Val xs) = xs"

type_synonym link = "string \<times> NodeConnectionType \<times> nat \<times> IConnection"

definition type_links :: "string \<Rightarrow> NodeConnectionType \<times> NodeInputConnections \<Rightarrow> link list" where
  "type_links src p =
     concat (map (\<lambda>(i, c). map (\<lambda>conn. (src, fst p, i, conn)) (cell_list c)) (enumerate 0 (snd p)))"

definition node_links :: "string \<times> INodeConnections \<Rightarrow> link list" where
  "node_links p = concat (map (type_links (fst p)) (snd p))"

text \<open>The single connections of a nested object, in insertion order.\<close>

definition links :: "IConnections \<Rightarrow> link list" where
  "links cs = concat (map node_links cs)"

text \<open>The same in the order in which the keys of the object are enumerated.\<close>

definition enum_links :: "IConnections \<Rightarrow> link list" where
  "enum_links cs = concat (map node_links (object_entries cs))"

lemma mset_enum_links: "mset (enum_links cs) = mset (links cs)"
proof -
  have "mset (concat (map node_links xs)) = sum_mset (image_mset (mset \<circ> node_links) (mset xs))" for xs
    by (induction xs) auto
  then show ?thesis unfolding enum_links_def links_def by simp
qed

lemma set_enum_links [simp]: "set (enum_links cs) = set (links cs)"
  by (metis mset_enum_links set_mset_mset)

section \<open>Connections by destination\<close>

text \<open>The body of the innermost loop of \<open>getConnectionsByDestination\<close>.\<close>

definition add_by_destination ::
  "string \<Rightarrow> NodeConnectionType \<Rightarrow> nat \<Rightarrow> IConnection \<Rightarrow> IConnections \<Rightarrow> IConnections" where
  "add_by_destination sourceNode ty ii connectionInfo returnConnection =
     (let tys = (case map_get returnConnection (conn_node connectionInfo) of None \<Rightarrow> [] | Some t \<Rightarrow> t);
          arr = (case map_get tys (conn_type connectionInfo) of None \<Rightarrow> [] | Some a \<Rightarrow> a);
          filled = arr @ replicate (conn_index connectionInfo + 1 - length arr) (Val []);
          pushed = (case filled ! conn_index connectionInfo of
                      Val cs \<Rightarrow> filled[conn_index connectionInfo :=
                        Val (cs @ [\<lparr>conn_node = sourceNode, conn_type = ty, conn_index = ii\<rparr>])]
                    | _ \<Rightarrow> filled)
      in map_set (conn_node connectionInfo)
           (map_set (conn_type connectionInfo) pushed tys) returnConnection)"

definition getConnectionsByDestination :: "IConnections \<Rightarrow> IConnections" where
  "getConnectionsByDestination connections =
     fold (\<lambda>(sourceNode, tys) ret.
       fold (\<lambda>(ty, outputs) ret.
         fold (\<lambda>(ii, infos) ret.
           fold (\<lambda>connectionInfo ret. add_by_destination sourceNode ty ii connectionInfo ret)
             (cell_list infos) ret)
           (enumerate 0 outputs) ret)
         tys ret)
       (object_entries connections) []"

definition flip_link :: "link \<Rightarrow> link" where
  "flip_link l = (case l of (src, ty, i, c) \<Rightarrow>
     (conn_node c, conn_type c, conn_index c, \<lparr>conn_node = src, conn_type = ty, conn_index = i\<rparr>))"

definition add_link :: "link \<Rightarrow> IConnections \<Rightarrow> IConnections" where
  "add_link l ret = (case l of (src, ty, i, c) \<Rightarrow> add_by_destination src ty i c ret)"

lemma getConnectionsByDestination_fold:
  "getConnectionsByDestination cs = fold add_link (enum_links cs) []"
proof -
  have a: "fold (add_by_destination sn ty ii) infos s = fold add_link (map (\<lambda>conn. (sn, ty, ii, conn)) infos) s"
    for sn ty ii infos s
    by (induction infos arbitrary: s) (simp_all add: add_link_def)
  have b: "fold (\<lambda>(ii, infos). fold (add_by_destination sn ty ii) (cell_list infos)) xs s =
      fold add_link (concat (map (\<lambda>(i, c). map (\<lambda>conn. (sn, ty, i, conn)) (cell_list c)) xs)) s" for sn ty xs s
    by (induction xs arbitrary: s) (auto simp: a)
  have c: "fold (\<lambda>(ty, outputs). fold (\<lambda>(ii, infos). fold (add_by_destination sn ty ii) (cell_list infos))
      (enumerate 0 outputs)) tys s = fold add_link (concat (map (type_links sn) tys)) s" for sn tys s
    by (induction tys arbitrary: s) (auto simp: b type_links_def)
  have "fold (\<lambda>(sn, tys). fold (\<lambda>(ty, outputs). fold (\<lambda>(ii, infos).
      fold (add_by_destination sn ty ii) (cell_list infos)) (enumerate 0 outputs)) tys) es s =
      fold add_link (concat (map node_links es)) s" for es s
    by (induction es arbitrary: s) (auto simp: c node_links_def)
  then show ?thesis unfolding getConnectionsByDestination_def enum_links_def by simp
qed

text \<open>The index stays well formed: keys are unique and every slot of an array holds a list.\<close>

definition dest_wf :: "IConnections \<Rightarrow> bool" where
  "dest_wf cs = (map_wf cs \<and> (\<forall>p \<in> set cs. map_wf (snd p)
      \<and> (\<forall>q \<in> set (snd p). \<forall>c \<in> set (snd q). \<exists>xs. c = Val xs)))"

lemma dest_wf_Nil [simp]: "dest_wf []"
  by (simp add: dest_wf_def)

lemma mset_concat_map_set:
  "map_wf m \<Longrightarrow> mset (concat (map f (map_set k v m))) + (case map_get m k of None \<Rightarrow> {#} | Some u \<Rightarrow> mset (f (k, u)))
     = mset (f (k, v)) + mset (concat (map f m))"
proof (induction m)
  case (Cons p m)
  have wf: "map_wf m" and np: "fst p \<notin> fst ` set m" using Cons.prems by (auto simp: map_wf_def)
  show ?case
  proof (cases "fst p = k")
    case True
    then have "p = (k, snd p)" by (cases p) simp
    then show ?thesis using True by (cases p) (simp add: ac_simps)
  next
    case False
    with Cons.IH [OF wf] show ?thesis by (cases p) (simp add: ac_simps)
  qed
qed (simp add: map_wf_def)

lemma type_links_sum:
  "mset (type_links src (ty, arr)) =
     (\<Sum>i<length arr. image_mset (\<lambda>c. (src, ty, i, c)) (mset (cell_list (arr ! i))))"
proof (induction arr rule: rev_induct)
  case (snoc c arr)
  have "type_links src (ty, arr @ [c]) = type_links src (ty, arr) @ map (\<lambda>x. (src, ty, length arr, x)) (cell_list c)"
    by (simp add: type_links_def enumerate_append_eq)
  moreover have "(\<Sum>i<length arr. image_mset (\<lambda>x. (src, ty, i, x)) (mset (cell_list ((arr @ [c]) ! i)))) =
      (\<Sum>i<length arr. image_mset (\<lambda>x. (src, ty, i, x)) (mset (cell_list (arr ! i))))"
    by (rule sum.cong) (simp_all add: nth_append)
  ultimately show ?case by (simp add: snoc.IH)
qed (simp add: type_links_def)

lemma type_links_Nil [simp]: "type_links src (ty, []) = []"
  by (simp add: type_links_def)

lemma type_links_fill:
  "cell_list e = [] \<Longrightarrow> mset (type_links src (ty, arr @ replicate n e)) = mset (type_links src (ty, arr))"
  by (induction n) (simp_all add: type_links_def enumerate_append_eq replicate_append_same [symmetric]
      flip: append_assoc)

lemma type_links_push:
  assumes "i < length arr" "cell_list (arr ! i) = cs"
  shows "mset (type_links src (ty, arr[i := Val (cs @ [c])])) = add_mset (src, ty, i, c) (mset (type_links src (ty, arr)))"
proof -
  let ?f = "\<lambda>a j. image_mset (\<lambda>x. (src, ty, j, x)) (mset (cell_list (a ! j)))"
  let ?b = "arr[i := Val (cs @ [c])]"
  have split: "(\<Sum>j<length arr. ?f a j) = ?f a i + (\<Sum>j\<in>{..<length arr} - {i}. ?f a j)" for a
    by (rule sum.remove) (use assms in auto)
  have "(\<Sum>j\<in>{..<length arr} - {i}. ?f ?b j) = (\<Sum>j\<in>{..<length arr} - {i}. ?f arr j)"
    by (rule sum.cong) auto
  then have "(\<Sum>j<length arr. ?f ?b j) = add_mset (src, ty, i, c) (\<Sum>j<length arr. ?f arr j)"
    unfolding split using assms by simp
  then show ?thesis by (simp add: type_links_sum)
qed

lemma type_links_cell_set:
  "mset (type_links src (ty, cell_set arr i (Val (cell_list (cell_get arr i) @ [c])))) =
     add_mset (src, ty, i, c) (mset (type_links src (ty, arr)))"
proof -
  let ?filled = "arr @ replicate (Suc i - length arr) Hole"
  have "i < length ?filled" by simp
  moreover have "cell_list (?filled ! i) = cell_list (cell_get arr i)"
    by (simp add: cell_get_def nth_append)
  ultimately show ?thesis unfolding cell_set_def by (simp add: type_links_push type_links_fill)
qed

lemma concat_map_update:
  assumes "map_wf m" and "\<And>u. map_get m k = Some u \<Longrightarrow> mset (f (k, v)) = add_mset x (mset (f (k, u)))"
    and "map_get m k = None \<Longrightarrow> mset (f (k, v)) = {#x#}"
  shows "mset (concat (map f (map_set k v m))) = add_mset x (mset (concat (map f m)))"
proof (cases "map_get m k")
  case None
  with mset_concat_map_set [OF assms(1), of f k v] assms(3) show ?thesis by simp
next
  case (Some u)
  with mset_concat_map_set [OF assms(1), of f k v] assms(2) [OF Some] show ?thesis
    by (simp add: union_mset_add_mset_left)
qed

lemma dest_array_fill:
  assumes "\<forall>c \<in> set arr. \<exists>xs. c = Val xs" and "filled = arr @ replicate (i + 1 - length arr) (Val [])"
  shows "i < length filled \<and> (\<exists>cs. filled ! i = Val cs) \<and> (\<forall>c \<in> set filled. \<exists>xs. c = Val xs)"
proof -
  have len: "i < length filled" by (simp add: assms(2))
  moreover have all: "\<forall>c \<in> set filled. \<exists>xs. c = Val xs" using assms(1) by (auto simp: assms(2))
  ultimately show ?thesis by (meson nth_mem)
qed

lemma dest_wf_set:
  assumes wf: "dest_wf ret" and tys: "map_wf tys" "\<forall>q \<in> set tys. \<forall>c \<in> set (snd q). \<exists>xs. c = Val xs"
    and pushed: "\<forall>c \<in> set pushed. \<exists>xs. c = Val xs"
  shows "dest_wf (map_set k (map_set t pushed tys) ret)"
proof -
  have t: "\<forall>q \<in> set (map_set t pushed tys). \<forall>c \<in> set (snd q). \<exists>xs. c = Val xs"
    using pushed tys(2) set_map_set_subset [of t pushed tys] by fastforce
  have ok: "map_wf (snd p) \<and> (\<forall>q \<in> set (snd p). \<forall>c \<in> set (snd q). \<exists>xs. c = Val xs)"
    if "p \<in> set (map_set k (map_set t pushed tys) ret)" for p
  proof -
    from that set_map_set_subset [of k "map_set t pushed tys" ret]
    consider "p = (k, map_set t pushed tys)" | "p \<in> set ret" by blast
    then show ?thesis
    proof cases
      case 1
      then show ?thesis using t map_wf_set [OF tys(1), of t pushed] by simp
    next
      case 2
      then show ?thesis using wf unfolding dest_wf_def by blast
    qed
  qed
  have "map_wf (map_set k (map_set t pushed tys) ret)" using wf by (simp add: dest_wf_def)
  with ok show ?thesis unfolding dest_wf_def by blast
qed

lemma add_link_step:
  assumes wf: "dest_wf ret"
  shows "dest_wf (add_link l ret) \<and> mset (links (add_link l ret)) = add_mset (flip_link l) (mset (links ret))"
proof -
  obtain src ty i c where l: "l = (src, ty, i, c)" by (cases l)
  let ?k = "conn_node c" and ?t = "conn_type c" and ?j = "conn_index c"
  let ?new = "\<lparr>conn_node = src, conn_type = ty, conn_index = i\<rparr>"
  define tys where "tys = (case map_get ret ?k of None \<Rightarrow> [] | Some t \<Rightarrow> t)"
  define arr where "arr = (case map_get tys ?t of None \<Rightarrow> [] | Some a \<Rightarrow> a)"
  define filled where "filled = arr @ replicate (?j + 1 - length arr) (Val [])"
  have tys: "map_wf tys" "\<forall>q \<in> set tys. \<forall>c \<in> set (snd q). \<exists>xs. c = Val xs"
  proof -
    show "map_wf tys"
      using wf map_of_SomeD [of ret ?k] unfolding tys_def dest_wf_def by (cases "map_get ret ?k") force+
    show "\<forall>q \<in> set tys. \<forall>c \<in> set (snd q). \<exists>xs. c = Val xs"
      using wf map_of_SomeD [of ret ?k] unfolding tys_def dest_wf_def by (cases "map_get ret ?k") force+
  qed
  have arr: "\<forall>c \<in> set arr. \<exists>xs. c = Val xs"
    using tys(2) map_of_SomeD [of tys ?t] unfolding arr_def by (cases "map_get tys ?t") force+
  from dest_array_fill [OF arr filled_def] obtain cs where
    f: "?j < length filled" "filled ! ?j = Val cs" "\<forall>c \<in> set filled. \<exists>xs. c = Val xs" by blast
  have fill: "mset (type_links sn (t, filled)) = mset (type_links sn (t, arr))" for sn t
    unfolding filled_def by (rule type_links_fill) simp
  define pushed where "pushed = filled[?j := Val (cs @ [?new])]"
  have add: "add_link l ret = map_set ?k (map_set ?t pushed tys) ret"
    unfolding add_link_def l add_by_destination_def prod.case Let_def
    unfolding tys_def [symmetric] arr_def [symmetric] filled_def [symmetric]
    by (simp add: f(2) pushed_def)
  have pushed: "mset (type_links ?k (?t, pushed)) = add_mset (?k, ?t, ?j, ?new) (mset (type_links ?k (?t, arr)))"
    unfolding pushed_def using type_links_push [OF f(1), of cs] f(2) fill by simp
  have nl: "mset (node_links (?k, map_set ?t pushed tys)) = add_mset (?k, ?t, ?j, ?new) (mset (node_links (?k, tys)))"
    unfolding node_links_def fst_conv snd_conv
    by (rule concat_map_update [OF tys(1)]) (simp_all add: pushed arr_def)
  have "mset (links (add_link l ret)) = add_mset (?k, ?t, ?j, ?new) (mset (links ret))"
    unfolding add links_def
    by (rule concat_map_update) (use wf nl in \<open>simp_all add: dest_wf_def tys_def node_links_def [of "(_, [])"]\<close>)
  moreover have "\<forall>c \<in> set pushed. \<exists>xs. c = Val xs"
    using f(3) set_update_subset_insert [of filled ?j "Val (cs @ [?new])"] unfolding pushed_def by blast
  then have "dest_wf (add_link l ret)" unfolding add by (rule dest_wf_set [OF wf tys])
  ultimately show ?thesis by (simp add: flip_link_def l)
qed

lemma fold_add_link:
  "dest_wf ret \<Longrightarrow> dest_wf (fold add_link ls ret)
     \<and> mset (links (fold add_link ls ret)) = mset (links ret) + mset (map flip_link ls)"
  by (induction ls arbitrary: ret) (simp_all add: add_link_step)

lemma getConnectionsByDestination_spec:
  "dest_wf (getConnectionsByDestination cs)
   \<and> mset (links (getConnectionsByDestination cs)) = mset (map flip_link (links cs))"
  using fold_add_link [of "[]" "enum_links cs"]
  by (simp add: getConnectionsByDestination_fold mset_enum_links links_def [of "[]"])

lemma flip_flip [simp]: "flip_link (flip_link l) = l"
  by (cases l) (simp add: flip_link_def)

section \<open>Construction and lookups\<close>

record WorkflowParameters =
  wp_id :: string
  wp_name :: "string option"
  wp_nodes :: "INode list"
  wp_connections :: IConnections
  wp_active :: bool
  wp_staticData :: "(string, json) jsmap"
  wp_settings :: "(string, json) jsmap"
  wp_pinData :: "IPinData option"

text \<open>A node of a known type gets the defaults of its type filled in.\<close>

definition with_defaults ::
  "INodeTypes \<Rightarrow> (INodeType \<Rightarrow> INode \<Rightarrow> INodeParameters option) \<Rightarrow> INode \<Rightarrow> INode" where
  "with_defaults nodeTypes getNodeParameters node =
     (case nodeTypes (node_type node) (typeVersion node) of None \<Rightarrow> node
      | Some nodeType \<Rightarrow>
          node\<lparr>parameters := (case getNodeParameters nodeType node of None \<Rightarrow> [] | Some ps \<Rightarrow> ps)\<rparr>)"

definition new_Workflow ::
  "INodeTypes \<Rightarrow> (INodeType \<Rightarrow> INode \<Rightarrow> INodeParameters option) \<Rightarrow> WorkflowParameters \<Rightarrow> Workflow" where
  "new_Workflow nodeTypes getNodeParameters ps =
     \<lparr>wf_id = wp_id ps, wf_name = wp_name ps,
      wf_nodes = fold (\<lambda>node ns. map_set (node_name node)
                        (with_defaults nodeTypes getNodeParameters node) ns) (wp_nodes ps) [],
      connectionsBySourceNode = wp_connections ps,
      connectionsByDestinationNode = getConnectionsByDestination (wp_connections ps),
      active = wp_active ps, settings = wp_settings ps, staticData = wp_staticData ps,
      staticDataChanged = False, testStaticData = None, wf_pinData = wp_pinData ps\<rparr>"

definition overrideStaticData :: "(string, json) jsmap \<Rightarrow> Workflow \<Rightarrow> Workflow" where
  "overrideStaticData sd w = w\<lparr>staticData := sd, staticDataChanged := True\<rparr>"

text \<open>
  \<open>getStaticData\<close> creates a missing entry. The top-level observable object ignores an empty
  object that is stored under a new key, so creating the entry does not mark the data as changed.
\<close>

definition getStaticData :: "string \<Rightarrow> INode option \<Rightarrow> Workflow \<Rightarrow> (json \<times> Workflow) result" where
  "getStaticData ty node w =
     bind_res
       (if ty = ''global'' then Inr ''global''
        else if ty = ''node'' then
          (case node of None \<Rightarrow> Inl (ApplicationError ''The request data of context type node needs a node'')
           | Some n \<Rightarrow> Inr (''node:'' @ node_name n))
        else Inl (ApplicationError ''Unknown context type. Only global and node are supported.''))
       (\<lambda>key.
          case testStaticData w of
            Some td \<Rightarrow>
              (case map_get td key of
                 Some v \<Rightarrow> Inr (v, w)
               | None \<Rightarrow>
                   (case map_get (staticData w) key of
                      Some v \<Rightarrow> Inr (v, w)
                    | None \<Rightarrow> Inr (JObj [], w\<lparr>staticData := map_set key (JObj []) (staticData w)\<rparr>)))
          | None \<Rightarrow>
              (case map_get (staticData w) key of
                 Some v \<Rightarrow> Inr (v, w)
               | None \<Rightarrow> Inr (JObj [], w\<lparr>staticData := map_set key (JObj []) (staticData w)\<rparr>)))"

definition setTestStaticData :: "(string, json) jsmap \<Rightarrow> Workflow \<Rightarrow> Workflow" where
  "setTestStaticData td w = w\<lparr>testStaticData := Some td\<rparr>"

definition queryNodes :: "INodeTypes \<Rightarrow> (INodeType \<Rightarrow> bool) \<Rightarrow> Workflow \<Rightarrow> INode list" where
  "queryNodes nodeTypes checkFunction w =
     filter (\<lambda>node. disabled node \<noteq> Some True \<and>
               (case nodeTypes (node_type node) (typeVersion node) of
                  None \<Rightarrow> False | Some nodeType \<Rightarrow> checkFunction nodeType))
       (object_values (wf_nodes w))"

definition getTriggerNodes :: "INodeTypes \<Rightarrow> Workflow \<Rightarrow> INode list" where
  "getTriggerNodes nodeTypes w = queryNodes nodeTypes nt_trigger w"

definition getPollNodes :: "INodeTypes \<Rightarrow> Workflow \<Rightarrow> INode list" where
  "getPollNodes nodeTypes w = queryNodes nodeTypes nt_poll w"

definition getNode :: "Workflow \<Rightarrow> string \<Rightarrow> INode option" where
  "getNode w nodeName = map_get (wf_nodes w) nodeName"

definition wf_getNodes :: "Workflow \<Rightarrow> string list \<Rightarrow> INode list" where
  "wf_getNodes w nodeNames = List.map_filter (getNode w) nodeNames"

definition getPinDataOfNode :: "Workflow \<Rightarrow> string \<Rightarrow> items option" where
  "getPinDataOfNode w nodeName =
     (case wf_pinData w of None \<Rightarrow> None | Some pd \<Rightarrow> map_get pd nodeName)"

definition getConnectionsBetweenNodes ::
  "Workflow \<Rightarrow> string list \<Rightarrow> string list \<Rightarrow> (IConnection \<times> IConnection) list" where
  "getConnectionsBetweenNodes w sources targets =
     concat (map (\<lambda>source.
       concat (map (\<lambda>(ty, outputs).
         concat (map (\<lambda>(sourceIndex, cs).
           concat (map (\<lambda>target.
               if conn_node target \<in> set targets
               then [(\<lparr>conn_node = source, conn_type = ty, conn_index = sourceIndex\<rparr>, target)] else [])
             (cell_list cs)))
           (enumerate 0 outputs)))
         (case map_get (connectionsBySourceNode w) source of None \<Rightarrow> [] | Some t \<Rightarrow> t)))
       sources)"

text \<open>The nodes are stored under their names.\<close>

definition nodes_wf :: "Workflow \<Rightarrow> bool" where
  "nodes_wf w = (map_wf (wf_nodes w) \<and> list_all (\<lambda>(k, n). node_name n = k) (wf_nodes w))"

lemma with_defaults_name [simp]: "node_name (with_defaults nt gp n) = node_name n"
  by (simp add: with_defaults_def split: option.split)

lemma nodes_wf_fold:
  "map_wf m \<Longrightarrow> list_all (\<lambda>(k, n). node_name n = k) m \<Longrightarrow>
     map_wf (fold (\<lambda>node ns. map_set (node_name node) (with_defaults nt gp node) ns) xs m) \<and>
     list_all (\<lambda>(k, n). node_name n = k) (fold (\<lambda>node ns. map_set (node_name node) (with_defaults nt gp node) ns) xs m)"
proof (induction xs arbitrary: m)
  case (Cons x xs)
  have "list_all (\<lambda>(k, n). node_name n = k) (map_set (node_name x) (with_defaults nt gp x) m)"
    unfolding list_all_iff
  proof
    fix p assume p: "p \<in> set (map_set (node_name x) (with_defaults nt gp x) m)"
    then have "p = (node_name x, with_defaults nt gp x) \<or> p \<in> set m"
      using set_map_set_subset by fastforce
    with Cons.prems(2) show "case p of (k, n) \<Rightarrow> node_name n = k" by (auto simp: list_all_iff)
  qed
  with Cons show ?case by simp
qed simp

lemma new_Workflow_nodes_wf: "nodes_wf (new_Workflow nt gp ps)"
  using nodes_wf_fold [of "[]" nt gp "wp_nodes ps"] by (simp add: nodes_wf_def new_Workflow_def)

lemma getNode_name: "nodes_wf w \<Longrightarrow> getNode w nm = Some n \<Longrightarrow> node_name n = nm"
  by (auto simp: nodes_wf_def getNode_def list_all_iff dest!: map_of_SomeD)

definition source_links :: "IConnections \<Rightarrow> string \<Rightarrow> link list" where
  "source_links cs src = node_links (src, case map_get cs src of None \<Rightarrow> [] | Some t \<Rightarrow> t)"

lemma node_links_source: "l \<in> set (node_links p) \<Longrightarrow> fst l = fst p"
  by (auto simp: node_links_def type_links_def)

lemma links_at_source:
  assumes "map_wf cs"
  shows "l \<in> set (links cs) \<longleftrightarrow> l \<in> set (source_links cs (fst l))"
proof
  assume "l \<in> set (links cs)"
  then obtain src t where p: "(src, t) \<in> set cs" "l \<in> set (node_links (src, t))" by (auto simp: links_def)
  with node_links_source have "fst l = src" by fastforce
  with p map_wf_get_iff [OF assms, of src t] show "l \<in> set (source_links cs (fst l))"
    by (simp add: source_links_def)
next
  assume l: "l \<in> set (source_links cs (fst l))"
  then obtain t where "map_get cs (fst l) = Some t"
    by (cases "map_get cs (fst l)") (auto simp: source_links_def node_links_def)
  with l show "l \<in> set (links cs)"
    by (force simp: source_links_def links_def dest: map_of_SomeD)
qed

lemma concat_if_single: "concat (map (\<lambda>x. if P x then [f x] else []) xs) = map f (filter P xs)"
  by (induction xs) auto

lemma getConnectionsBetweenNodes_eq:
  "getConnectionsBetweenNodes w sources targets =
     concat (map (\<lambda>source. map (\<lambda>(s, ty, i, c). (\<lparr>conn_node = s, conn_type = ty, conn_index = i\<rparr>, c))
       (filter (\<lambda>(s, ty, i, c). conn_node c \<in> set targets) (source_links (connectionsBySourceNode w) source)))
       sources)"
  unfolding getConnectionsBetweenNodes_def source_links_def node_links_def type_links_def concat_if_single
  by (simp add: filter_concat map_concat case_prod_unfold comp_def filter_map)

lemma getConnectionsBetweenNodes_spec:
  assumes "map_wf (connectionsBySourceNode w)"
  shows "(a, c) \<in> set (getConnectionsBetweenNodes w sources targets) \<longleftrightarrow>
     conn_node a \<in> set sources \<and> conn_node c \<in> set targets
     \<and> (conn_node a, conn_type a, conn_index a, c) \<in> set (links (connectionsBySourceNode w))"
proof -
  have "(a, c) \<in> set (getConnectionsBetweenNodes w sources targets) \<longleftrightarrow>
      (\<exists>src \<in> set sources. conn_node c \<in> set targets
         \<and> (conn_node a, conn_type a, conn_index a, c) \<in> set (source_links (connectionsBySourceNode w) src))"
    unfolding getConnectionsBetweenNodes_eq by (force simp: case_prod_beta)
  moreover have "src = conn_node a"
    if "(conn_node a, conn_type a, conn_index a, c) \<in> set (source_links (connectionsBySourceNode w) src)" for src
    using node_links_source that by (fastforce simp: source_links_def)
  ultimately show ?thesis
    using links_at_source [OF assms, of "(conn_node a, conn_type a, conn_index a, c)"] by auto
qed

end
