(* ===== verification/Workflow_Rename.thy ===== *)
theory Workflow_Rename
  imports Workflow_Model
begin

text \<open>
  \<open>Workflow.renameNode\<close> and \<open>renameNodeInParameterValue\<close> of \<open>packages/workflow/src/workflow.ts\<close> and
  \<open>renameFormFields\<close> of \<open>node-parameters/rename-node-utils.ts\<close>, with the constants they use.

  \<open>applyAccessPatterns\<close>, the replacement of a node name inside an expression by regular
  expressions, is the parameter \<open>acc\<close>. Strings are compared in lower case over the ASCII letters.
\<close>

definition NODES_WITH_RENAMABLE_CONTENT :: "string list" where
  "NODES_WITH_RENAMABLE_CONTENT =
     [''n8n-nodes-base.code'', ''n8n-nodes-base.function'', ''n8n-nodes-base.functionItem'',
      ''n8n-nodes-base.aiTransform'']"

definition NODES_WITH_RENAMABLE_FORM_HTML_CONTENT :: "string list" where
  "NODES_WITH_RENAMABLE_FORM_HTML_CONTENT = [''n8n-nodes-base.form'']"

definition NODES_WITH_RENAMEABLE_TOPLEVEL_HTML_CONTENT :: "string list" where
  "NODES_WITH_RENAMEABLE_TOPLEVEL_HTML_CONTENT = [''n8n-nodes-base.mailgun'', ''n8n-nodes-base.html'']"

definition lower_char :: "char \<Rightarrow> char" where
  "lower_char c =
     (if 65 \<le> (of_char c :: nat) \<and> (of_char c :: nat) \<le> 90 then char_of ((of_char c :: nat) + 32) else c)"

definition toLowerCase :: "string \<Rightarrow> string" where
  "toLowerCase s = map lower_char s"

definition restrictedKeys :: "string list" where
  "restrictedKeys =
     [''hasOwnProperty'', ''isPrototypeOf'', ''propertyIsEnumerable'', ''toLocaleString'', ''toString'',
      ''valueOf'', ''constructor'', ''prototype'', ''__proto__'', ''__defineGetter__'',
      ''__defineSetter__'', ''__lookupGetter__'', ''__lookupSetter__'']"

section \<open>Parameters\<close>

lemma json_size_arr: "x \<in> set xs \<Longrightarrow> size x < Suc (size_list size xs)"
  by (induction xs) auto

lemma json_size_obj: "p \<in> set ps \<Longrightarrow> size (snd p) < Suc (size_list (size_prod (\<lambda>_. 0) size) ps)"
  by (rule less_SucI, erule size_list_estimation) (cases p, simp)

text \<open>
  \<open>typeof null\<close> is \<open>'object'\<close>, so a \<open>null\<close> reaches the last part of the function and comes back
  as an empty object. The option \<open>hasRenamableContent\<close> is not passed on to the elements of arrays.
\<close>

function renameNodeInParameterValue :: "(string \<Rightarrow> string) \<Rightarrow> bool \<Rightarrow> json \<Rightarrow> json" where
  "renameNodeInParameterValue acc has JUndefined = JUndefined"
| "renameNodeInParameterValue acc has (JBool b) = JBool b"
| "renameNodeInParameterValue acc has (JNum x) = JNum x"
| "renameNodeInParameterValue acc has (JStr s) =
     JStr (if (s \<noteq> [] \<and> hd s = CHR ''='') \<or> has then acc s else s)"
| "renameNodeInParameterValue acc has (JArr xs) = JArr (map (renameNodeInParameterValue acc False) xs)"
| "renameNodeInParameterValue acc has (JObj ps) =
     JObj (map (\<lambda>p. (fst p, renameNodeInParameterValue acc has (snd p))) (object_entries ps))"
| "renameNodeInParameterValue acc has JNull = JObj []"
  by pat_completeness auto
termination renameNodeInParameterValue
  by (relation "measure (\<lambda>(acc, has, j). size j)")
    (auto intro: json_size_arr dest!: json_size_obj)

definition json_fields :: "json \<Rightarrow> (string, json) jsmap" where
  "json_fields j = (case j of JObj ps \<Rightarrow> ps | _ \<Rightarrow> [])"

definition field_or_undefined :: "(string, json) jsmap \<Rightarrow> string \<Rightarrow> json" where
  "field_or_undefined ps k = (case map_get ps k of None \<Rightarrow> JUndefined | Some v \<Rightarrow> v)"

definition rename_form_field :: "(json \<Rightarrow> json) \<Rightarrow> json \<Rightarrow> json" where
  "rename_form_field renameField v =
     (case v of
        JObj fs \<Rightarrow>
          if map_get fs ''fieldType'' = Some (JStr ''html'') then
            (case map_get fs ''html'' of None \<Rightarrow> v | Some h \<Rightarrow> JObj (map_set ''html'' (renameField h) fs))
          else v
      | _ \<Rightarrow> v)"

definition renameFormFields :: "(json \<Rightarrow> json) \<Rightarrow> INode \<Rightarrow> INode" where
  "renameFormFields renameField node =
     (case map_get (parameters node) ''formFields'' of
        Some (JObj ff) \<Rightarrow>
          (case map_get ff ''values'' of
             Some (JArr values) \<Rightarrow>
               node\<lparr>parameters := map_set ''formFields''
                 (JObj (map_set ''values'' (JArr (map (rename_form_field renameField) values)) ff))
                 (parameters node)\<rparr>
           | _ \<Rightarrow> node)
      | _ \<Rightarrow> node)"

text \<open>The body of the loop over the nodes.\<close>

definition rename_in_node :: "(string \<Rightarrow> string) \<Rightarrow> INode \<Rightarrow> INode" where
  "rename_in_node acc node0 =
     (let node1 = node0\<lparr>parameters :=
             json_fields (renameNodeInParameterValue acc False (JObj (parameters node0)))\<rparr>;
          node2 = (if node_type node1 \<in> set NODES_WITH_RENAMABLE_CONTENT then
             node1\<lparr>parameters := map_set ''jsCode''
               (renameNodeInParameterValue acc True (field_or_undefined (parameters node1) ''jsCode''))
               (parameters node1)\<rparr> else node1);
          node3 = (if node_type node2 \<in> set NODES_WITH_RENAMEABLE_TOPLEVEL_HTML_CONTENT then
             node2\<lparr>parameters := map_set ''html''
               (renameNodeInParameterValue acc True (field_or_undefined (parameters node2) ''html''))
               (parameters node2)\<rparr> else node2)
      in if node_type node3 \<in> set NODES_WITH_RENAMABLE_FORM_HTML_CONTENT
         then renameFormFields (renameNodeInParameterValue acc True) node3 else node3)"

lemma rename_in_node_name [simp]:
  "node_name (rename_in_node acc n) = node_name n" "oid (rename_in_node acc n) = oid n"
  "node_type (rename_in_node acc n) = node_type n" "disabled (rename_in_node acc n) = disabled n"
  by (auto simp: rename_in_node_def renameFormFields_def Let_def split: option.split json.split)

section \<open>The node and its connections\<close>

definition rename_target :: "string \<Rightarrow> string \<Rightarrow> IConnection \<Rightarrow> IConnection" where
  "rename_target currentName newName c = (if conn_node c = currentName then c\<lparr>conn_node := newName\<rparr> else c)"

primrec map_cell :: "('a \<Rightarrow> 'b) \<Rightarrow> 'a cell \<Rightarrow> 'b cell" where
  "map_cell f Hole = Hole"
| "map_cell f Null = Null"
| "map_cell f (Val x) = Val (f x)"

definition rename_targets :: "string \<Rightarrow> string \<Rightarrow> IConnections \<Rightarrow> IConnections" where
  "rename_targets currentName newName cs =
     map (\<lambda>(src, tys). (src, map (\<lambda>(ty, outs). (ty, map (map_cell (map (rename_target currentName newName))) outs)) tys)) cs"

definition rename_key :: "'k \<Rightarrow> 'k \<Rightarrow> ('v \<Rightarrow> 'v) \<Rightarrow> ('k, 'v) jsmap \<Rightarrow> ('k, 'v) jsmap" where
  "rename_key currentName newName f m =
     (case map_get m currentName of None \<Rightarrow> m
      | Some v \<Rightarrow> map_delete currentName (map_set newName (f v) m))"

definition renameNode ::
  "(string \<Rightarrow> string \<Rightarrow> string \<Rightarrow> string) \<Rightarrow> string \<Rightarrow> string \<Rightarrow> Workflow \<Rightarrow> Workflow result" where
  "renameNode applyAccessPatterns currentName newName w =
     (if toLowerCase newName \<in> set (map toLowerCase restrictedKeys)
      then Inl (UserError (''Node name \"'' @ newName @ ''\" is a restricted name.''))
      else
        let nodes1 = rename_key currentName newName (\<lambda>n. n\<lparr>node_name := newName\<rparr>) (wf_nodes w);
            nodes2 = map (\<lambda>(k, n). (k, rename_in_node (\<lambda>e. applyAccessPatterns e currentName newName) n)) nodes1;
            sources = rename_key currentName newName (\<lambda>c. c) (connectionsBySourceNode w);
            renamed = rename_targets currentName newName sources
        in Inr (w\<lparr>wf_nodes := nodes2, connectionsBySourceNode := renamed,
                   connectionsByDestinationNode := getConnectionsByDestination renamed\<rparr>))"

text \<open>A link after the renaming.\<close>

definition rename_link :: "string \<Rightarrow> string \<Rightarrow> link \<Rightarrow> link" where
  "rename_link cur new l = (case l of (src, ty, i, c) \<Rightarrow>
     (if src = cur then new else src, ty, i, rename_target cur new c))"

lemma cell_list_map [simp]: "cell_list (map_cell (map f) c) = map f (cell_list c)"
  by (cases c) simp_all

lemma enumerate_map: "enumerate n (map f xs) = map (\<lambda>(i, x). (i, f x)) (enumerate n xs)"
  by (induction xs arbitrary: n) simp_all

lemma links_rename_targets:
  "links (rename_targets cur new cs) = map (\<lambda>(src, ty, i, c). (src, ty, i, rename_target cur new c)) (links cs)"
proof -
  let ?f = "rename_target cur new"
  let ?g = "\<lambda>(src, ty, i, c). (src, ty, i, ?f c)"
  have t: "type_links src (ty, map (map_cell (map ?f)) outs) = map ?g (type_links src (ty, outs))" for src ty outs
    by (simp add: type_links_def enumerate_map map_concat comp_def case_prod_unfold)
  have n: "node_links (src, map (\<lambda>(ty, outs). (ty, map (map_cell (map ?f)) outs)) tys) = map ?g (node_links (src, tys))" for src tys
    by (induction tys) (auto simp: node_links_def t)
  show ?thesis unfolding links_def rename_targets_def by (induction cs) (auto simp: n)
qed

lemma mset_links_delete:
  assumes "map_wf m" "map_get m k = Some v"
  shows "mset (links m) = mset (node_links (k, v)) + mset (links (map_delete k m))"
  using assms
proof (induction m)
  case (Cons p m)
  have wf: "map_wf m" and np: "fst p \<notin> fst ` set m" using Cons.prems by (auto simp: map_wf_def)
  show ?case
  proof (cases "fst p = k")
    case True
    have "map_delete k m = m" using np True unfolding map_delete_def filter_id_conv by blast
    with True Cons.prems show ?thesis by (cases p) (auto simp: links_def map_delete_def)
  next
    case False
    with Cons.IH [OF wf] Cons.prems show ?thesis by (cases p) (auto simp: links_def map_delete_def ac_simps)
  qed
qed simp

lemma links_append [simp]: "links (a @ b) = links a @ links b"
  by (simp add: links_def)

lemma links_Cons: "links (p # m) = node_links p @ links m"
  by (simp add: links_def)

lemma node_links_key: "map (\<lambda>(s, r). (new, r)) (node_links (cur, tys)) = node_links (new, tys)"
  by (simp add: node_links_def type_links_def [abs_def] map_concat comp_def case_prod_unfold)

lemma mset_links_rename_key:
  assumes wf: "map_wf m" and fresh: "map_get m new = None" and ne: "cur \<noteq> new"
  shows "mset (links (rename_key cur new (\<lambda>c. c) m)) =
     mset (map (\<lambda>(s, r). (if s = cur then new else s, r)) (links m))"
proof (cases "map_get m cur")
  case None
  have "s \<noteq> cur" if "(s, r) \<in> set (links m)" for s r
  proof -
    from that obtain p where "p \<in> set m" "fst p = s" using node_links_source by (fastforce simp: links_def)
    then have "s \<in> fst ` set m" by blast
    with None show ?thesis by (auto simp: map_of_eq_None_iff)
  qed
  then have "map (\<lambda>(s, r). (if s = cur then new else s, r)) (links m) = map id (links m)"
    by (intro map_cong) auto
  with None show ?thesis by (simp add: rename_key_def)
next
  case (Some v)
  have ks: "new \<notin> set (map_keys m)" using fresh by (simp add: map_of_eq_None_iff)
  have del: "map_delete cur (m @ [(new, v)]) = map_delete cur m @ [(new, v)]"
    using ne by (simp add: map_delete_def)
  let ?g = "\<lambda>(s, r). (if s = cur then new else s, r)"
  have keep: "map ?g (links (map_delete cur m)) = map id (links (map_delete cur m))"
  proof (rule map_cong [OF refl])
    fix l assume "l \<in> set (links (map_delete cur m))"
    then obtain p where "p \<in> set (map_delete cur m)" "fst l = fst p"
      using node_links_source by (fastforce simp: links_def)
    then show "?g l = id l" by (cases l) (auto simp: set_map_delete)
  qed
  have "map ?g (node_links (cur, v)) = map (\<lambda>(s, r). (new, r)) (node_links (cur, v))"
    by (rule map_cong [OF refl]) (use node_links_source in fastforce)
  then have moved: "map ?g (node_links (cur, v)) = node_links (new, v)" unfolding node_links_key .
  have "mset (map ?g (links m)) = mset (map ?g (node_links (cur, v))) + mset (map ?g (links (map_delete cur m)))"
    using mset_links_delete [OF wf Some] by (simp only: mset_map image_mset_union)
  then show ?thesis
    unfolding moved keep using Some
    by (simp add: rename_key_def map_set_fresh [OF ks] del links_Cons links_def [of "[]"])
qed

lemma renameNode_links:
  assumes "map_wf (connectionsBySourceNode w)" "map_get (connectionsBySourceNode w) new = None" "cur \<noteq> new"
    and "renameNode acc cur new w = Inr w'"
  shows "mset (links (connectionsBySourceNode w')) = mset (map (rename_link cur new) (links (connectionsBySourceNode w)))"
    and "connectionsByDestinationNode w' = getConnectionsByDestination (connectionsBySourceNode w')"
proof -
  let ?cs = "connectionsBySourceNode w"
  have w': "connectionsBySourceNode w' = rename_targets cur new (rename_key cur new (\<lambda>c. c) ?cs)"
    "connectionsByDestinationNode w' = getConnectionsByDestination (connectionsBySourceNode w')"
    using assms(4) by (auto simp: renameNode_def Let_def split: if_splits)
  let ?t = "\<lambda>(src, ty, i, c). (src, ty, i, rename_target cur new c)"
  let ?g = "\<lambda>(s, r). (if s = cur then new else s, r)"
  have "mset (links (connectionsBySourceNode w')) = image_mset ?t (mset (links (rename_key cur new (\<lambda>c. c) ?cs)))"
    unfolding w'(1) links_rename_targets by simp
  also have "\<dots> = mset (map (\<lambda>l. ?t (?g l)) (links ?cs))"
    unfolding mset_links_rename_key [OF assms(1-3)] by (simp add: multiset.map_comp comp_def)
  also have "(\<lambda>l. ?t (?g l)) = rename_link cur new"
    by (auto simp: rename_link_def fun_eq_iff)
  finally show "mset (links (connectionsBySourceNode w')) = mset (map (rename_link cur new) (links ?cs))" .
  show "connectionsByDestinationNode w' = getConnectionsByDestination (connectionsBySourceNode w')" by (rule w'(2))
qed

lemma map_get_rename_key:
  assumes "map_get m new = None" "cur \<noteq> new"
  shows "map_get (rename_key cur new f m) k =
     (if k = cur then None else if k = new then map_option f (map_get m cur) else map_get m k)"
  using assms by (auto simp: rename_key_def split: option.split)

lemma map_get_map_snd: "map_get (map (\<lambda>(k, v). (k, f v)) m) k = map_option f (map_get m k)"
  by (induction m) auto

lemma renameNode_nodes:
  assumes "map_get (wf_nodes w) new = None" "cur \<noteq> new" "renameNode acc cur new w = Inr w'"
  shows "getNode w' k =
     (if k = cur then None
      else if k = new then map_option (\<lambda>n. rename_in_node (\<lambda>e. acc e cur new) (n\<lparr>node_name := new\<rparr>)) (getNode w cur)
      else map_option (rename_in_node (\<lambda>e. acc e cur new)) (getNode w k))"
proof -
  have "wf_nodes w' = map (\<lambda>(k, n). (k, rename_in_node (\<lambda>e. acc e cur new) n))
      (rename_key cur new (\<lambda>n. n\<lparr>node_name := new\<rparr>) (wf_nodes w))"
    using assms(3) by (auto simp: renameNode_def Let_def split: if_splits)
  then show ?thesis
    unfolding getNode_def
    by (simp add: map_get_map_snd map_get_rename_key [OF assms(1,2)] option.map_comp comp_def)
qed

text \<open>Renaming a node to the name it has deletes the node and the connections that leave it.\<close>

lemma renameNode_same:
  assumes "renameNode acc nm nm w = Inr w'"
  shows "getNode w' nm = None \<and> map_get (connectionsBySourceNode w') nm = None"
proof -
  have n: "map_get (rename_key nm nm f m) nm = None" for f :: "'v \<Rightarrow> 'v" and m
    by (simp add: rename_key_def split: option.split)
  have t: "map_get (rename_targets nm nm cs) nm = None" if "map_get cs nm = None" for cs
    using that by (induction cs) (auto simp: rename_targets_def split: if_splits)
  show ?thesis
    using assms by (auto simp: renameNode_def Let_def getNode_def map_get_map_snd n t split: if_splits)
qed

lemma renameNode_error:
  "renameNode acc cur new w = Inl e \<longleftrightarrow>
     toLowerCase new \<in> set (map toLowerCase restrictedKeys)
     \<and> e = UserError (''Node name \"'' @ new @ ''\" is a restricted name.'')"
  by (auto simp: renameNode_def Let_def)

end
