(* ===== verification/Workflow_Graph.thy ===== *)
theory Workflow_Graph
  imports Workflow_Model
begin

text \<open>
  The conversions between workflows and graphs of \<open>directed-graph.ts\<close>: \<open>fromWorkflow\<close>,
  \<open>toIConnections\<close> and \<open>toWorkflow\<close>. A workflow whose links join existing nodes becomes a graph with
  exactly its links; a graph in which each node sends over connections of one type becomes a
  workflow with exactly its connections, and converting back gives the same connections.
\<close>

section \<open>From workflows\<close>

definition add_workflow_link :: "Workflow \<Rightarrow> INode \<Rightarrow> DirectedGraph \<Rightarrow> link \<Rightarrow> DirectedGraph result" where
  "add_workflow_link workflow from graph l =
     (case l of (_, outputType, oi, conn) \<Rightarrow>
        (case getNode workflow (conn_node conn) of
           None \<Rightarrow> Inl AssertionError
         | Some to \<Rightarrow> addConnection from to (Some outputType) (Some oi) (Some (conn_index conn)) graph))"

definition fromWorkflow :: "Workflow \<Rightarrow> DirectedGraph result" where
  "fromWorkflow workflow =
     fold_res (\<lambda>graph (fromNodeName, iConnection).
         case getNode workflow fromNodeName of
           None \<Rightarrow> Inl AssertionError
         | Some from \<Rightarrow>
             fold_res (add_workflow_link workflow from) graph (node_links (fromNodeName, iConnection)))
       (addNodes (object_values (wf_nodes workflow)) empty_graph)
       (object_entries (connectionsBySourceNode workflow))"

text \<open>The connection that a link stands for.\<close>

definition link_connection :: "Workflow \<Rightarrow> link \<Rightarrow> GraphConnection option" where
  "link_connection w l =
     (case l of (src, ty, i, c) \<Rightarrow>
        (case (getNode w src, getNode w (conn_node c)) of
           (Some a, Some b) \<Rightarrow>
             Some \<lparr>from_node = a, to_node = b, gc_type = ty, outputIndex = i, inputIndex = conn_index c\<rparr>
         | _ \<Rightarrow> None))"

definition links_ok :: "Workflow \<Rightarrow> bool" where
  "links_ok w =
     (list_all (\<lambda>p. getNode w (fst p) \<noteq> None) (connectionsBySourceNode w)
      \<and> list_all (\<lambda>(src, ty, i, c). getNode w (conn_node c) \<noteq> None) (links (connectionsBySourceNode w)))"

lemma map_get_addNodes:
  "map_get (g_nodes (addNodes ns g)) k =
     (case map_get (rev (map (\<lambda>n. (node_name n, n)) ns)) k of None \<Rightarrow> map_get (g_nodes g) k | Some n \<Rightarrow> Some n)"
  unfolding addNodes_def
proof (induction ns arbitrary: g)
  case (Cons n ns)
  then show ?case by (auto simp: addNode_def map_add_def split: option.split)
qed simp

lemma addNodes_connections [simp]: "g_connections (addNodes ns g) = g_connections g"
  unfolding addNodes_def by (induction ns arbitrary: g) (simp_all add: addNode_def)

lemma graph_wf_addNodes_empty: "graph_wf (addNodes ns empty_graph)"
proof -
  have "map_wf (g_nodes (addNodes ns g)) \<and> (\<forall>(k, n) \<in> set (g_nodes (addNodes ns g)). node_name n = k)"
    if "map_wf (g_nodes g) \<and> (\<forall>(k, n) \<in> set (g_nodes g). node_name n = k)" for g
    using that unfolding addNodes_def
  proof (induction ns arbitrary: g)
    case (Cons n ns)
    have "\<forall>(k, n) \<in> set (g_nodes (addNode n g)). node_name n = k"
    proof
      fix p assume "p \<in> set (g_nodes (addNode n g))"
      then have "p = (node_name n, n) \<or> p \<in> set (g_nodes g)"
        using set_map_set_subset by (fastforce simp: addNode_def)
      with Cons.prems show "case p of (k, n) \<Rightarrow> node_name n = k" by auto
    qed
    moreover have "map_wf (g_nodes (addNode n g))" using Cons.prems by (simp add: addNode_def)
    ultimately show ?case using Cons.IH [of "addNode n g"] by simp
  qed simp
  from this [of empty_graph] show ?thesis by (simp add: graph_wf_def empty_graph_def)
qed

lemma nodeExists_initial:
  assumes "nodes_wf w"
  shows "nodeExists (addNodes (object_values (wf_nodes w)) empty_graph) n \<longleftrightarrow> getNode w (node_name n) = Some n"
proof -
  let ?es = "object_entries (wf_nodes w)"
  have names: "map (\<lambda>n. (node_name n, n)) (object_values (wf_nodes w)) = ?es"
  proof -
    have "\<forall>p \<in> set ?es. node_name (snd p) = fst p" using assms by (auto simp: nodes_wf_def list_all_iff)
    then show ?thesis unfolding map_map comp_def by (intro map_idI) (auto simp: prod_eq_iff)
  qed
  have wf: "map_wf ?es" using assms distinct_object_keys [of "wf_nodes w"] by (simp add: nodes_wf_def map_wf_def)
  have "map_get (rev ?es) k = map_get (wf_nodes w) k" for k
  proof -
    have r: "map_wf (rev ?es)" using wf by (simp add: map_wf_def rev_map [symmetric])
    have "map_get (rev ?es) k = Some v \<longleftrightarrow> map_get (wf_nodes w) k = Some v" for v
      using assms map_wf_get_iff [OF r, of k v] map_wf_get_iff [of "wf_nodes w" k v] by (simp add: nodes_wf_def)
    then show ?thesis by (metis not_None_eq)
  qed
  then show ?thesis
    unfolding nodeExists_def map_get_addNodes names getNode_def
    by (simp add: empty_graph_def split: option.split)
qed

lemma fold_res_map: "fold_res f s (map h xs) = fold_res (\<lambda>s x. f s (h x)) s xs"
  by (induction xs arbitrary: s) simp_all

lemma link_connection_Some:
  "link_connection w (src, ty, i, c) = Some d \<longleftrightarrow>
     getNode w src = Some (from_node d) \<and> getNode w (conn_node c) = Some (to_node d)
     \<and> gc_type d = ty \<and> outputIndex d = i \<and> inputIndex d = conn_index c"
  by (cases d) (auto simp: link_connection_def split: option.split)

lemma fromWorkflow_addConnections:
  assumes ok: "links_ok w"
  shows "fromWorkflow w = addConnections (map (the \<circ> link_connection w) (enum_links (connectionsBySourceNode w)))
     (addNodes (object_values (wf_nodes w)) empty_graph)"
proof -
  let ?cs = "connectionsBySourceNode w"
  let ?conn = "the \<circ> link_connection w"
  have inner: "fold_res (add_workflow_link w a) g ls = fold_res addGraphConnection g (map ?conn ls)"
    if "\<forall>(src, ty, i, c) \<in> set ls. getNode w src = Some a \<and> getNode w (conn_node c) \<noteq> None" for a g ls
    unfolding fold_res_map
    by (rule fold_res_cong) (use that in \<open>fastforce simp: add_workflow_link_def link_connection_def\<close>)+
  have ls: "\<forall>(s, ty, i, c) \<in> set (node_links (src, tys)). getNode w s = getNode w src \<and> getNode w (conn_node c) \<noteq> None"
    if "(src, tys) \<in> set ?cs" for src tys
  proof -
    have "set (node_links (src, tys)) \<subseteq> set (links ?cs)" using that by (force simp: links_def)
    then show ?thesis
      using ok node_links_source [of _ "(src, tys)"] by (fastforce simp: links_ok_def list_all_iff)
  qed
  have "fold_res (\<lambda>graph (fromNodeName, iConnection).
         case getNode w fromNodeName of None \<Rightarrow> Inl AssertionError
         | Some from \<Rightarrow> fold_res (add_workflow_link w from) graph (node_links (fromNodeName, iConnection))) g es
      = fold_res addGraphConnection g (map ?conn (concat (map node_links es)))"
    if "set es \<subseteq> set ?cs" for es g
    using that
  proof (induction es arbitrary: g)
    case (Cons e es)
    obtain src tys where e: "e = (src, tys)" by (cases e)
    have mem: "(src, tys) \<in> set ?cs" using Cons.prems e by simp
    then obtain a where f: "getNode w src = Some a" using ok by (fastforce simp: links_ok_def list_all_iff)
    have "fold_res (add_workflow_link w a) g (node_links (src, tys)) =
        fold_res addGraphConnection g (map ?conn (node_links (src, tys)))"
      by (rule inner) (use ls [OF mem] f in auto)
    with Cons e f show ?case by (simp add: fold_res_append comp_def)
  qed simp
  from this [of "object_entries ?cs"] show ?thesis
    by (simp add: fromWorkflow_def addConnections_def enum_links_def)
qed

text \<open>The names of the nodes contain no dash, as \<open>all_dash_free\<close> says of a graph.\<close>

definition names_dash_free :: "Workflow \<Rightarrow> bool" where
  "names_dash_free w = list_all (\<lambda>p. dash_free (snd p)) (wf_nodes w)"

lemma fromWorkflow_spec:
  assumes "nodes_wf w" "links_ok w" "names_dash_free w"
  shows "\<exists>g. fromWorkflow w = Inr g \<and> graph_wf g
     \<and> (\<forall>n. nodeExists g n \<longleftrightarrow> getNode w (node_name n) = Some n)
     \<and> conns g = {c. \<exists>l \<in> set (links (connectionsBySourceNode w)). link_connection w l = Some c}"
proof -
  let ?g0 = "addNodes (object_values (wf_nodes w)) empty_graph"
  let ?ls = "enum_links (connectionsBySourceNode w)"
  let ?cs = "map (the \<circ> link_connection w) ?ls"
  have ex: "nodeExists ?g0 n \<longleftrightarrow> getNode w (node_name n) = Some n" for n
    by (rule nodeExists_initial [OF assms(1)])
  have some: "\<exists>c. link_connection w l = Some c \<and> nodeExists ?g0 (from_node c) \<and> nodeExists ?g0 (to_node c)"
    if "l \<in> set ?ls" for l
  proof -
    obtain src ty i c where l: "l = (src, ty, i, c)" by (cases l)
    from that l have lk: "(src, ty, i, c) \<in> set (links (connectionsBySourceNode w))" by simp
    then obtain p where "p \<in> set (connectionsBySourceNode w)" "fst p = src"
      using node_links_source by (fastforce simp: links_def)
    then obtain a where a: "getNode w src = Some a" using assms(2) by (fastforce simp: links_ok_def list_all_iff)
    obtain b where b: "getNode w (conn_node c) = Some b"
      using assms(2) lk by (fastforce simp: links_ok_def list_all_iff)
    show ?thesis
      using a b getNode_name [OF assms(1) a] getNode_name [OF assms(1) b]
      by (auto simp: l link_connection_def ex)
  qed
  have "all_dash_free ?g0"
    unfolding all_dash_free_def list_all_iff
  proof
    fix n assume "n \<in> set (getNodes ?g0)"
    then have "getNode w (node_name n) = Some n"
      using nodeExists_iff [OF graph_wf_addNodes_empty] ex by blast
    then have "(node_name n, n) \<in> set (wf_nodes w)" by (simp add: getNode_def map_of_SomeD)
    with assms(3) show "dash_free n" by (auto simp: names_dash_free_def list_all_iff)
  qed
  from addConnections_spec [OF graph_wf_addNodes_empty this, of ?cs] some
  obtain g where g: "addConnections ?cs ?g0 = Inr g" "graph_wf g" "g_nodes g = g_nodes ?g0"
    "conns g = conns ?g0 \<union> set ?cs" by fastforce
  have "conns ?g0 = {}" by (simp add: conns_def empty_graph_def)
  moreover have "set ?cs = {c. \<exists>l \<in> set (links (connectionsBySourceNode w)). link_connection w l = Some c}"
    using some by force
  moreover have "nodeExists g n \<longleftrightarrow> getNode w (node_name n) = Some n" for n
    using ex [of n] g(3) by (simp add: nodeExists_def)
  ultimately show ?thesis using g fromWorkflow_addConnections [OF assms(2)] by auto
qed

section \<open>To workflows\<close>

definition to_iconnection_step :: "IConnections \<Rightarrow> GraphConnection \<Rightarrow> IConnections result" where
  "to_iconnection_step result c =
     (let from = node_name (from_node c);
          resultConnection = (case map_get result from of None \<Rightarrow> [(gc_type c, [])] | Some r \<Rightarrow> r)
      in case map_get resultConnection (gc_type c) of
           None \<Rightarrow> Inl TypeError
         | Some arr \<Rightarrow>
             let grp = cell_list (cell_get arr (outputIndex c));
                 new = \<lparr>conn_node = node_name (to_node c), conn_type = gc_type c, conn_index = inputIndex c\<rparr>
             in Inr (map_set from
                      (map_set (gc_type c) (cell_set arr (outputIndex c) (Val (grp @ [new]))) resultConnection)
                      result))"

definition toIConnections :: "DirectedGraph \<Rightarrow> IConnections result" where
  "toIConnections g = fold_res to_iconnection_step [] (map_values (g_connections g))"

definition toWorkflow ::
  "INodeTypes \<Rightarrow> (INodeType \<Rightarrow> INode \<Rightarrow> INodeParameters option) \<Rightarrow> WorkflowParameters \<Rightarrow> DirectedGraph
     \<Rightarrow> Workflow result" where
  "toWorkflow nodeTypes getNodeParameters ps g =
     bind_res (toIConnections g) (\<lambda>cs.
       Inr (new_Workflow nodeTypes getNodeParameters (ps\<lparr>wp_nodes := getNodes g, wp_connections := cs\<rparr>)))"

definition connection_link :: "GraphConnection \<Rightarrow> link" where
  "connection_link c =
     (node_name (from_node c), gc_type c, outputIndex c,
      \<lparr>conn_node = node_name (to_node c), conn_type = gc_type c, conn_index = inputIndex c\<rparr>)"

text \<open>Each node sends over connections of one type only.\<close>

definition one_type_per_source :: "GraphConnection list \<Rightarrow> bool" where
  "one_type_per_source cs =
     list_all (\<lambda>c. list_all (\<lambda>d. node_name (from_node c) = node_name (from_node d) \<longrightarrow> gc_type c = gc_type d) cs) cs"

definition typed_as :: "GraphConnection list \<Rightarrow> IConnections \<Rightarrow> bool" where
  "typed_as cs result = (map_wf result \<and> (\<forall>c \<in> set cs. \<forall>r. map_get result (node_name (from_node c)) = Some r \<longrightarrow>
     (\<exists>arr. r = [(gc_type c, arr)])))"

lemma to_iconnection_step_spec:
  assumes one: "one_type_per_source cs" and c: "c \<in> set cs" and inv: "typed_as cs result"
  shows "\<exists>result'. to_iconnection_step result c = Inr result' \<and> typed_as cs result'
     \<and> mset (links result') = add_mset (connection_link c) (mset (links result))"
proof -
  let ?k = "node_name (from_node c)" and ?t = "gc_type c" and ?i = "outputIndex c"
  let ?new = "\<lparr>conn_node = node_name (to_node c), conn_type = gc_type c, conn_index = inputIndex c\<rparr>"
  define arr where "arr = (case map_get result ?k of None \<Rightarrow> [] | Some r \<Rightarrow> (case map_get r ?t of None \<Rightarrow> [] | Some a \<Rightarrow> a))"
  have r: "(case map_get result ?k of None \<Rightarrow> [(?t, [])] | Some r \<Rightarrow> r) = [(?t, arr)]"
    using inv c unfolding typed_as_def arr_def by (fastforce split: option.split)
  define arr' where "arr' = cell_set arr ?i (Val (cell_list (cell_get arr ?i) @ [?new]))"
  have step: "to_iconnection_step result c = Inr (map_set ?k [(?t, arr')] result)"
    unfolding to_iconnection_step_def Let_def r by (simp add: arr'_def)
  have nl: "mset (node_links (?k, [(?t, arr')])) = add_mset (connection_link c) (mset (node_links (?k, [(?t, arr)])))"
    by (simp add: node_links_def arr'_def type_links_cell_set connection_link_def)
  have "mset (links (map_set ?k [(?t, arr')] result)) = add_mset (connection_link c) (mset (links result))"
    unfolding links_def
  proof (rule concat_map_update)
    show "map_wf result" using inv by (simp add: typed_as_def)
    show "mset (node_links (?k, [(?t, arr')])) = add_mset (connection_link c) (mset (node_links (?k, u)))"
      if "map_get result ?k = Some u" for u
      using r that nl by simp
    show "mset (node_links (?k, [(?t, arr')])) = {#connection_link c#}" if "map_get result ?k = None"
      using that nl by (simp add: arr_def node_links_def)
  qed
  moreover have "typed_as cs (map_set ?k [(?t, arr')] result)"
  proof -
    have "\<exists>arr. r = [(gc_type d, arr)]"
      if d: "d \<in> set cs" and g: "map_get (map_set ?k [(?t, arr')] result) (node_name (from_node d)) = Some r" for d r
    proof (cases "node_name (from_node d) = ?k")
      case True
      with d c one have "gc_type d = ?t" unfolding one_type_per_source_def list_all_iff by metis
      with g True show ?thesis by auto
    next
      case False
      with g d inv show ?thesis unfolding typed_as_def by simp
    qed
    with inv show ?thesis unfolding typed_as_def by simp
  qed
  ultimately show ?thesis using step by blast
qed

lemma fold_to_iconnections:
  assumes "one_type_per_source cs"
  shows "set ds \<subseteq> set cs \<Longrightarrow> typed_as cs result \<Longrightarrow>
     \<exists>result'. fold_res to_iconnection_step result ds = Inr result' \<and> typed_as cs result'
       \<and> mset (links result') = mset (map connection_link ds) + mset (links result)"
proof (induction ds arbitrary: result)
  case (Cons d ds)
  from to_iconnection_step_spec [OF assms, of d result] Cons.prems obtain r1 where
    r1: "to_iconnection_step result d = Inr r1" "typed_as cs r1"
    "mset (links r1) = add_mset (connection_link d) (mset (links result))" by auto
  with Cons.IH [of r1] Cons.prems show ?case by auto
qed simp

lemma toIConnections_spec:
  assumes "one_type_per_source (map_values (g_connections g))"
  shows "\<exists>cs. toIConnections g = Inr cs \<and> map_wf cs
     \<and> mset (links cs) = mset (map connection_link (map_values (g_connections g)))"
  using fold_to_iconnections [OF assms, of "map_values (g_connections g)" "[]"]
  by (auto simp: toIConnections_def typed_as_def links_def)

lemma toIConnections_error:
  assumes "c \<in> conns g" "d \<in> conns g" "node_name (from_node c) = node_name (from_node d)" "gc_type c \<noteq> gc_type d"
  shows "toIConnections g = Inl TypeError"
proof -
  have err: "to_iconnection_step r x = Inl e \<Longrightarrow> e = TypeError" for r x e
    by (auto simp: to_iconnection_step_def Let_def split: option.splits)
  have fold_err: "fold_res to_iconnection_step r xs = Inl e \<Longrightarrow> e = TypeError" for r xs e
    by (induction xs arbitrary: r) (auto simp: bind_res_eq_Inl dest: err)
  let ?single = "\<lambda>r. \<forall>k v. map_get r k = Some v \<longrightarrow> (\<exists>t arr. v = [(t, arr)])"
  have step: "?single r' \<and> (\<forall>k t arr. map_get r k = Some [(t, arr)] \<longrightarrow> (\<exists>arr'. map_get r' k = Some [(t, arr')]))
      \<and> (\<exists>arr'. map_get r' (node_name (from_node x)) = Some [(gc_type x, arr')])"
    if s: "to_iconnection_step r x = Inr r'" and single: "?single r" for r x r'
  proof -
    have "\<exists>arr'. r' = map_set (node_name (from_node x)) [(gc_type x, arr')] r"
      and "\<forall>v. map_get r (node_name (from_node x)) = Some v \<longrightarrow> (\<exists>arr. v = [(gc_type x, arr)])"
      using s single
      by (cases "map_get r (node_name (from_node x))"; fastforce simp: to_iconnection_step_def Let_def split: if_splits)+
    then show ?thesis using single by (auto split: if_splits)
  qed
  have typed: "?single r \<and> (\<forall>x \<in> set xs. \<exists>arr. map_get r (node_name (from_node x)) = Some [(gc_type x, arr)])"
    if "fold_res to_iconnection_step [] xs = Inr r" for r xs
    using that
  proof (induction xs arbitrary: r rule: rev_induct)
    case (snoc x xs)
    then obtain r0 where r0: "fold_res to_iconnection_step [] xs = Inr r0" "to_iconnection_step r0 x = Inr r"
      by (auto simp: fold_res_append bind_res_eq_Inr)
    have s0: "?single r0" and xs: "\<forall>x \<in> set xs. \<exists>arr. map_get r0 (node_name (from_node x)) = Some [(gc_type x, arr)]"
      using snoc.IH [OF r0(1)] by auto
    from step [OF r0(2) s0] xs show ?case by auto
  qed simp
  show ?thesis
  proof (cases "toIConnections g")
    case (Inl e)
    with fold_err show ?thesis by (simp add: toIConnections_def)
  next
    case (Inr r)
    then have "\<forall>x \<in> conns g. \<exists>arr. map_get r (node_name (from_node x)) = Some [(gc_type x, arr)]"
      using typed [of "map_values (g_connections g)" r] unfolding toIConnections_def conns_def by blast
    with assms(1,2) obtain arr arr' where
      "map_get r (node_name (from_node c)) = Some [(gc_type c, arr)]"
      "map_get r (node_name (from_node d)) = Some [(gc_type d, arr')]" by blast
    with assms(3,4) show ?thesis by simp
  qed
qed

lemma toIConnections_keys:
  assumes "toIConnections g = Inr cs"
  shows "\<forall>p \<in> set cs. \<exists>c \<in> conns g. fst p = node_name (from_node c)"
  using assms unfolding toIConnections_def
proof (rule fold_res_invariant [where P = "\<lambda>r. \<forall>p \<in> set r. \<exists>c \<in> conns g. fst p = node_name (from_node c)"])
  fix r c r'
  assume c: "c \<in> set (map_values (g_connections g))"
    and P: "\<forall>p \<in> set r. \<exists>c \<in> conns g. fst p = node_name (from_node c)"
    and s: "to_iconnection_step r c = Inr r'"
  obtain v where r': "r' = map_set (node_name (from_node c)) v r"
    using s by (auto simp: to_iconnection_step_def Let_def split: option.splits)
  show "\<forall>p \<in> set r'. \<exists>c \<in> conns g. fst p = node_name (from_node c)"
  proof
    fix p assume "p \<in> set r'"
    then have "p = (node_name (from_node c), v) \<or> p \<in> set r"
      using set_map_set_subset unfolding r' by fastforce
    moreover have "c \<in> conns g" using c by (simp add: conns_def)
    ultimately show "\<exists>c \<in> conns g. fst p = node_name (from_node c)" using P by auto
  qed
qed simp

text \<open>A graph survives the way to a workflow and back.\<close>

lemma graph_round_trip:
  assumes wf: "graph_wf g" "all_dash_free g" and one: "one_type_per_source (map_values (g_connections g))"
    and ts: "\<forall>n \<in> set (getNodes g). with_defaults nt gp n = n"
  shows "\<exists>w g'. toWorkflow nt gp ps g = Inr w \<and> fromWorkflow w = Inr g' \<and> graph_wf g'
     \<and> conns g' = conns g \<and> (\<forall>n. nodeExists g' n \<longleftrightarrow> nodeExists g n)"
proof -
  obtain cs where cs: "toIConnections g = Inr cs" "map_wf cs"
    "mset (links cs) = mset (map connection_link (map_values (g_connections g)))"
    using toIConnections_spec [OF one] by blast
  define w where "w = new_Workflow nt gp (ps\<lparr>wp_nodes := getNodes g, wp_connections := cs\<rparr>)"
  have links: "set (links (connectionsBySourceNode w)) = connection_link ` conns g"
    using arg_cong [OF cs(3), of set_mset] by (simp add: w_def new_Workflow_def conns_def image_image)
  have ns: "map_wf (g_nodes g)" "\<forall>p \<in> set (g_nodes g). node_name (snd p) = fst p"
    using wf(1) by (auto simp: graph_wf_def)
  have "fold (\<lambda>node ns. map_set (node_name node) (with_defaults nt gp node) ns) (map_values m) acc = acc @ m"
    if "map_wf (acc @ m)" "\<forall>p \<in> set m. node_name (snd p) = fst p \<and> with_defaults nt gp (snd p) = snd p" for m acc
    using that
  proof (induction m arbitrary: acc)
    case (Cons p m)
    have "map_set (fst p) (snd p) acc = acc @ [p]"
      using Cons.prems(1) by (cases p) (simp add: map_set_fresh map_wf_def)
    with Cons show ?case by simp
  qed simp
  from this [of "[]" "g_nodes g"] have nodes: "wf_nodes w = g_nodes g"
    using ns ts by (simp add: w_def new_Workflow_def getNodes_def)
  have get: "getNode w (node_name n) = Some n \<longleftrightarrow> nodeExists g n" for n
    by (simp add: getNode_def nodes nodeExists_def)
  have ex: "getNode w (node_name (from_node c)) = Some (from_node c)" "getNode w (node_name (to_node c)) = Some (to_node c)"
    if "c \<in> conns g" for c
    using conns_exist [OF wf(1) that] get by auto
  have lc: "link_connection w (connection_link c) = Some c" if "c \<in> conns g" for c
    unfolding connection_link_def link_connection_Some using ex [OF that] by simp
  have "links_ok w"
  proof -
    have src: "connectionsBySourceNode w = cs" by (simp add: w_def new_Workflow_def)
    have "getNode w (fst p) \<noteq> None" if p: "p \<in> set (connectionsBySourceNode w)" for p
      using toIConnections_keys [OF cs(1)] p ex unfolding src by force
    moreover have "getNode w (conn_node c) \<noteq> None" if "(s, ty, i, c) \<in> set (links (connectionsBySourceNode w))" for s ty i c
      using that ex unfolding links connection_link_def by force
    ultimately show ?thesis unfolding links_ok_def list_all_iff by auto
  qed
  moreover have "nodes_wf w" unfolding w_def by (rule new_Workflow_nodes_wf)
  moreover have "names_dash_free w"
    using wf(2) by (simp add: names_dash_free_def nodes all_dash_free_def getNodes_def list_all_iff)
  ultimately obtain g' where g': "fromWorkflow w = Inr g'" "graph_wf g'"
    "\<forall>n. nodeExists g' n \<longleftrightarrow> getNode w (node_name n) = Some n"
    "conns g' = {c. \<exists>l \<in> set (links (connectionsBySourceNode w)). link_connection w l = Some c}"
    using fromWorkflow_spec by blast
  have "conns g' = conns g" unfolding g'(4) links using lc by force
  moreover have "toWorkflow nt gp ps g = Inr w" by (simp add: toWorkflow_def cs(1) w_def)
  ultimately show ?thesis using g' get by blast
qed

end
