(* ===== verification/Workflow_Search.thy ===== *)
theory Workflow_Search
  imports Workflow_Model Graph_Traversal
begin

text \<open>
  The searches over the connections of a workflow, of \<open>packages/workflow/src/workflow.ts\<close>:
  \<open>getConnectedNodes\<close> with \<open>getChildNodes\<close> and \<open>getParentNodes\<close>, \<open>searchNodesBFS\<close> with
  \<open>getParentNodesByDepth\<close>, \<open>getHighestNode\<close>, \<open>getNodeConnectionIndexes\<close> and the choice of the start node;
  and \<open>find-trigger-for-partial-execution.ts\<close>.

  The connected nodes are exactly the other nodes reachable within the given depth; the
  breadth-first search returns each of them once, with its distance; the highest nodes are enabled
  ancestors; a connection index is found exactly if the node is an ancestor.
\<close>

section \<open>Connected nodes\<close>

datatype type_filter = OfType NodeConnectionType | AllTypes | AllNonMain

definition connection_types :: "type_filter \<Rightarrow> INodeConnections \<Rightarrow> NodeConnectionType list" where
  "connection_types f tys =
     (case f of AllTypes \<Rightarrow> map_keys tys | AllNonMain \<Rightarrow> filter (\<lambda>t. t \<noteq> Main) (map_keys tys) | OfType t \<Rightarrow> [t])"

text \<open>
  The loop over \<open>addNodes\<close> from its end to its front: each element moves to the front of
  \<open>returnNodes\<close>.
\<close>

definition merge_nodes :: "string list \<Rightarrow> string list \<Rightarrow> string list" where
  "merge_nodes added returnNodes = foldr (\<lambda>p ret. p # remove1 p ret) added returnNodes"

lemma set_remove1_Cons: "set (p # remove1 p xs) = insert p (set xs)"
  by (induction xs) auto

lemma set_merge_nodes [simp]: "set (merge_nodes as bs) = set as \<union> set bs"
  unfolding merge_nodes_def by (induction as) (auto simp: set_remove1_Cons simp del: list.set(2), auto)

definition new_depth :: "int \<Rightarrow> int" where
  "new_depth depth = (if depth = -1 then depth else depth - 1)"

function getConnectedNodes ::
  "IConnections \<Rightarrow> string \<Rightarrow> type_filter \<Rightarrow> int \<Rightarrow> string list \<Rightarrow> string list" where
  "getConnectedNodes connections nodeName connectionType depth checked =
     (if depth = 0 then []
      else case map_get connections nodeName of None \<Rightarrow> []
      | Some tys \<Rightarrow>
          fold (\<lambda>ty ret.
              case map_get tys ty of None \<Rightarrow> ret
              | Some outs \<Rightarrow>
                  if nodeName \<in> set checked then ret
                  else fold (\<lambda>connection ret.
                         if conn_node connection \<in> set (checked @ [nodeName]) then ret
                         else merge_nodes
                                (getConnectedNodes connections (conn_node connection) connectionType
                                   (new_depth depth) (checked @ [nodeName]))
                                (conn_node connection # ret))
                       (concat (map cell_list outs)) ret)
            (connection_types connectionType tys) [])"
  by pat_completeness auto
termination
proof (relation "measure (\<lambda>(cs, n, f, d, checked). card (set (map_keys cs) - set checked))", goal_cases)
  case (2 cs n f d checked tys ty ret outs c ret')
  have "n \<in> set (map_keys cs)" using 2(2) by (force dest: map_of_SomeD)
  then have "set (map_keys cs) - set (checked @ [n]) \<subset> set (map_keys cs) - set checked"
    using 2(5) by auto
  then show ?case by (simp add: psubset_card_mono del: set_map)
qed simp

declare getConnectedNodes.simps [simp del]

definition getChildNodes :: "Workflow \<Rightarrow> string \<Rightarrow> type_filter \<Rightarrow> int \<Rightarrow> string list" where
  "getChildNodes w nodeName ty depth = getConnectedNodes (connectionsBySourceNode w) nodeName ty depth []"

definition getParentNodes :: "Workflow \<Rightarrow> string \<Rightarrow> type_filter \<Rightarrow> int \<Rightarrow> string list" where
  "getParentNodes w nodeName ty depth = getConnectedNodes (connectionsByDestinationNode w) nodeName ty depth []"

text \<open>The successors of a node under a filter, and the edges they span.\<close>

definition connected :: "IConnections \<Rightarrow> type_filter \<Rightarrow> string \<Rightarrow> string set" where
  "connected cs f n =
     (case map_get cs n of None \<Rightarrow> {}
      | Some tys \<Rightarrow> {conn_node c | c ty outs. ty \<in> set (connection_types f tys)
                       \<and> map_get tys ty = Some outs \<and> c \<in> set (concat (map cell_list outs))})"

definition filtered_edges :: "IConnections \<Rightarrow> type_filter \<Rightarrow> (string \<times> string) set" where
  "filtered_edges cs f = {(a, b). b \<in> connected cs f a}"

lemma set_fold_merge:
  "set (fold (\<lambda>c ret. if P c then ret else merge_nodes (g c) (h c # ret)) xs ret) =
     set ret \<union> (\<Union>c \<in> {c \<in> set xs. \<not> P c}. insert (h c) (set (g c)))"
  by (induction xs arbitrary: ret) auto

lemma set_fold_types:
  "set (fold (\<lambda>ty ret. case m ty of None \<Rightarrow> ret
       | Some outs \<Rightarrow> if Q then ret
           else fold (\<lambda>c ret. if P c then ret else merge_nodes (g c) (h c # ret)) (k outs) ret) tys ret) =
     set ret \<union> (if Q then {} else (\<Union>c \<in> {c. \<not> P c \<and> (\<exists>ty \<in> set tys. \<exists>outs. m ty = Some outs \<and> c \<in> set (k outs))}.
       insert (h c) (set (g c))))"
proof (induction tys arbitrary: ret)
  case (Cons ty tys)
  show ?case
  proof (cases "m ty")
    case None
    then show ?thesis by (auto simp: Cons.IH)
  next
    case (Some outs)
    show ?thesis
    proof (cases Q)
      case True
      with Some show ?thesis by (simp add: Cons.IH)
    next
      case False
      with Some show ?thesis by (auto simp: Cons.IH set_fold_merge)
    qed
  qed
qed simp

lemma set_getConnectedNodes:
  "set (getConnectedNodes cs n f d checked) =
     (if d = 0 \<or> n \<in> set checked then {}
      else \<Union>t \<in> connected cs f n - set (checked @ [n]).
             insert t (set (getConnectedNodes cs t f (new_depth d) (checked @ [n]))))"
proof (cases "map_get cs n")
  case None
  then show ?thesis by (simp add: getConnectedNodes.simps [of cs n] connected_def)
next
  case (Some tys)
  show ?thesis
  proof (cases "d = 0")
    case True
    then show ?thesis by (simp add: getConnectedNodes.simps [of cs n])
  next
    case False
    let ?C = "{c. conn_node c \<notin> set (checked @ [n]) \<and> (\<exists>ty \<in> set (connection_types f tys). \<exists>outs.
        map_get tys ty = Some outs \<and> c \<in> set (concat (map cell_list outs)))}"
    have "conn_node ` ?C = connected cs f n - set (checked @ [n])"
      unfolding connected_def Some option.case by blast
    then have "(\<Union>c \<in> ?C. insert (conn_node c) (set (getConnectedNodes cs (conn_node c) f (new_depth d) (checked @ [n])))) =
        (\<Union>t \<in> connected cs f n - set (checked @ [n]).
             insert t (set (getConnectedNodes cs t f (new_depth d) (checked @ [n]))))"
      by (metis (no_types, lifting) SUP_image comp_def image_cong)
    then show ?thesis
      unfolding getConnectedNodes.simps [of cs n f d checked] Some option.case set_fold_types if_not_P [OF False]
      using False by simp
  qed
qed

lemma getConnectedNodes_sound:
  "x \<in> set (getConnectedNodes cs n f d checked) \<Longrightarrow>
     x \<notin> set checked \<and> x \<noteq> n \<and> (\<exists>k. 0 < k \<and> (d < 0 \<or> int k \<le> d) \<and> (n, x) \<in> filtered_edges cs f ^^ k)"
proof (induction "card (set (map_keys cs) - set checked)" arbitrary: n d checked x rule: less_induct)
  case less
  from less.prems obtain t where dn: "d \<noteq> 0" "n \<notin> set checked" and t: "t \<in> connected cs f n" "t \<notin> set (checked @ [n])"
    and x: "x = t \<or> x \<in> set (getConnectedNodes cs t f (new_depth d) (checked @ [n]))"
    unfolding set_getConnectedNodes [of cs n] by (auto split: if_splits)
  have e: "(n, t) \<in> filtered_edges cs f" using t by (simp add: filtered_edges_def)
  from x show ?case
  proof
    assume "x = t"
    moreover have "(n, t) \<in> filtered_edges cs f ^^ 1" using e by simp
    moreover have "d < 0 \<or> int 1 \<le> d" using dn by auto
    ultimately show ?thesis using t(2) by (auto intro!: exI [of _ 1])
  next
    assume x: "x \<in> set (getConnectedNodes cs t f (new_depth d) (checked @ [n]))"
    have "n \<in> set (map_keys cs)"
      using t(1) by (auto simp: connected_def image_iff split: option.splits dest!: map_of_SomeD intro!: bexI)
    then have "card (set (map_keys cs) - set (checked @ [n])) < card (set (map_keys cs) - set checked)"
      using dn(2) by (intro psubset_card_mono) auto
    from less.hyps [OF this x] obtain k where k: "x \<notin> set (checked @ [n])" "0 < k"
      "new_depth d < 0 \<or> int k \<le> new_depth d" "(t, x) \<in> filtered_edges cs f ^^ k" by blast
    have "(n, x) \<in> filtered_edges cs f ^^ Suc k" using e k(4) by (rule relpow_Suc_I2)
    moreover have "d < 0 \<or> int (Suc k) \<le> d"
      using k(2,3) dn(1) by (auto simp: new_depth_def split: if_splits)
    ultimately show ?thesis using k(1) by (intro conjI exI [of _ "Suc k"]) simp_all
  qed
qed

lemma getConnectedNodes_walk:
  assumes "walk (filtered_edges cs f) n xs x" "xs \<noteq> []" "distinct (n # xs)"
    "set (n # xs) \<inter> set checked = {}" "d < 0 \<or> int (length xs) \<le> d"
  shows "x \<in> set (getConnectedNodes cs n f d checked)"
  using assms
proof (induction xs arbitrary: n d checked)
  case (Cons t xs)
  have t: "t \<in> connected cs f n - set (checked @ [n])" using Cons.prems by (auto simp: filtered_edges_def)
  have d: "d \<noteq> 0" "n \<notin> set checked" using Cons.prems by auto
  have "x = t \<or> x \<in> set (getConnectedNodes cs t f (new_depth d) (checked @ [n]))"
  proof (cases "xs = []")
    case True
    with Cons.prems show ?thesis by simp
  next
    case False
    have "x \<in> set (getConnectedNodes cs t f (new_depth d) (checked @ [n]))"
      using Cons.prems False by (intro Cons.IH) (auto simp: new_depth_def)
    then show ?thesis ..
  qed
  with t d show ?case unfolding set_getConnectedNodes [of cs n] by auto
qed simp

lemma getConnectedNodes_spec:
  "set (getConnectedNodes cs n f d []) =
     {x. x \<noteq> n \<and> (\<exists>k. (d < 0 \<or> int k \<le> d) \<and> (n, x) \<in> filtered_edges cs f ^^ k)}"
proof (intro equalityI subsetI)
  fix x assume "x \<in> set (getConnectedNodes cs n f d [])"
  from getConnectedNodes_sound [OF this] show "x \<in> {x. x \<noteq> n \<and> (\<exists>k. (d < 0 \<or> int k \<le> d) \<and> (n, x) \<in> filtered_edges cs f ^^ k)}"
    by blast
next
  fix x assume "x \<in> {x. x \<noteq> n \<and> (\<exists>k. (d < 0 \<or> int k \<le> d) \<and> (n, x) \<in> filtered_edges cs f ^^ k)}"
  then obtain k where k: "x \<noteq> n" "d < 0 \<or> int k \<le> d" "(n, x) \<in> filtered_edges cs f ^^ k" by blast
  from relpow_simple_walk [OF k(3)] obtain xs where xs: "walk (filtered_edges cs f) n xs x"
    "distinct (n # xs)" "length xs \<le> k" by blast
  with k show "x \<in> set (getConnectedNodes cs n f d [])"
    by (intro getConnectedNodes_walk) auto
qed

section \<open>Breadth-first search\<close>

text \<open>\<open>connections[name].main\<close>, all indexes in order, without the empty slots.\<close>

definition main_connections :: "IConnections \<Rightarrow> string \<Rightarrow> IConnection list" where
  "main_connections cs n =
     (case map_get cs n of None \<Rightarrow> []
      | Some tys \<Rightarrow> (case map_get tys Main of None \<Rightarrow> [] | Some outs \<Rightarrow> concat (map cell_list outs)))"

text \<open>
  One element of a level. An entry of \<open>visited\<close> is the object that \<open>returnConns\<close> holds, so
  updating its indices updates the result too.
\<close>

definition bfs_visit ::
  "IConnections \<Rightarrow> nat \<Rightarrow> IConnectedNode \<Rightarrow> (string, IConnectedNode) jsmap \<times> IConnectedNode list
     \<Rightarrow> (string, IConnectedNode) jsmap \<times> IConnectedNode list" where
  "bfs_visit connections depth cur st =
     (case map_get (fst st) (cn_name cur) of
        Some seen \<Rightarrow>
          (map_set (cn_name cur) (seen\<lparr>cn_indicies := set_of_list (cn_indicies seen @ cn_indicies cur)\<rparr>) (fst st),
           snd st)
      | None \<Rightarrow>
          (map_set (cn_name cur) cur (fst st),
           snd st @ map (\<lambda>c. \<lparr>cn_name = conn_node c, cn_indicies = [conn_index c], cn_depth = depth\<rparr>)
                        (main_connections connections (cn_name cur))))"

definition main_edge :: "IConnections \<Rightarrow> (string \<times> string) set" where
  "main_edge cs = {(a, conn_node c) | a c. c \<in> set (main_connections cs a)}"

definition bfs_targets :: "IConnections \<Rightarrow> string set" where
  "bfs_targets cs = (\<Union>n \<in> set (map_keys cs). conn_node ` set (main_connections cs n))"

lemma main_connections_targets: "conn_node ` set (main_connections cs n) \<subseteq> bfs_targets cs"
proof (cases "map_get cs n")
  case None
  then show ?thesis by (simp add: main_connections_def)
next
  case (Some tys)
  then have "n \<in> set (map_keys cs)" by (force dest: map_of_SomeD)
  then show ?thesis unfolding bfs_targets_def by blast
qed

lemma finite_bfs_targets [simp]: "finite (bfs_targets cs)"
  by (simp add: bfs_targets_def)

text \<open>What one level does to the visited nodes and to the queue.\<close>

definition level_ok ::
  "IConnections \<Rightarrow> nat \<Rightarrow> IConnectedNode list \<Rightarrow> (string, IConnectedNode) jsmap \<Rightarrow> IConnectedNode list
     \<Rightarrow> (string, IConnectedNode) jsmap \<Rightarrow> IConnectedNode list \<Rightarrow> bool" where
  "level_ok cs d xs v q v' q' =
     ((\<forall>x. map_get v' x = None \<longleftrightarrow> map_get v x = None \<and> x \<notin> cn_name ` set xs)
      \<and> cn_name ` set q' = cn_name ` set q \<union> main_edge cs `` {x \<in> cn_name ` set xs. map_get v x = None}
      \<and> ((\<forall>e \<in> set q. cn_depth e = d) \<longrightarrow> (\<forall>e \<in> set q'. cn_depth e = d))
      \<and> (\<forall>x e'. map_get v' x = Some e' \<longrightarrow>
           (\<exists>e. map_get v x = Some e \<and> cn_depth e' = cn_depth e \<and> cn_name e' = cn_name e)
           \<or> (map_get v x = None \<and> (\<exists>e \<in> set xs. cn_name e = x \<and> cn_depth e' = cn_depth e \<and> cn_name e' = x)))
      \<and> (map_wf v \<longrightarrow> map_wf v'))"

lemma level_ok_known:
  assumes ok: "level_ok cs d xs v q v1 q1" and y: "map_get v1 (cn_name y) = Some seen"
  shows "level_ok cs d (xs @ [y]) v q (map_set (cn_name y) (seen\<lparr>cn_indicies := is\<rparr>) v1) q1"
proof -
  have n1: "\<And>x. map_get v1 x = None \<longleftrightarrow> map_get v x = None \<and> x \<notin> cn_name ` set xs"
    and ent: "\<And>x e'. map_get v1 x = Some e' \<Longrightarrow>
       (\<exists>e. map_get v x = Some e \<and> cn_depth e' = cn_depth e \<and> cn_name e' = cn_name e)
       \<or> (map_get v x = None \<and> (\<exists>e \<in> set xs. cn_name e = x \<and> cn_depth e' = cn_depth e \<and> cn_name e' = x))"
    using ok unfolding level_ok_def by blast+
  have old: "\<not> (map_get v (cn_name y) = None \<and> cn_name y \<notin> cn_name ` set xs)"
    using n1 [of "cn_name y"] y by simp
  then have "{x \<in> cn_name ` set (xs @ [y]). map_get v x = None} = {x \<in> cn_name ` set xs. map_get v x = None}"
    by auto
  moreover have "map_get (map_set (cn_name y) (seen\<lparr>cn_indicies := is\<rparr>) v1) x = None \<longleftrightarrow>
      map_get v x = None \<and> x \<notin> cn_name ` set (xs @ [y])" for x
    using n1 [of x] old by auto
  moreover have "(\<exists>e. map_get v x = Some e \<and> cn_depth e' = cn_depth e \<and> cn_name e' = cn_name e)
       \<or> (map_get v x = None \<and> (\<exists>e \<in> set (xs @ [y]). cn_name e = x \<and> cn_depth e' = cn_depth e \<and> cn_name e' = x))"
    if "map_get (map_set (cn_name y) (seen\<lparr>cn_indicies := is\<rparr>) v1) x = Some e'" for x e'
    using that ent [of x] ent [OF y] by (cases "x = cn_name y") auto
  ultimately show ?thesis using ok unfolding level_ok_def by simp
qed

lemma level_ok_new:
  assumes ok: "level_ok cs d xs v q v1 q1" and y: "map_get v1 (cn_name y) = None"
  shows "level_ok cs d (xs @ [y]) v q (map_set (cn_name y) y v1)
    (q1 @ map (\<lambda>c. \<lparr>cn_name = conn_node c, cn_indicies = [conn_index c], cn_depth = d\<rparr>) (main_connections cs (cn_name y)))"
    (is "level_ok cs d _ v q ?v' (q1 @ ?new)")
proof -
  have n1: "\<And>x. map_get v1 x = None \<longleftrightarrow> map_get v x = None \<and> x \<notin> cn_name ` set xs"
    and q1: "cn_name ` set q1 = cn_name ` set q \<union> main_edge cs `` {x \<in> cn_name ` set xs. map_get v x = None}"
    and ent: "\<And>x e'. map_get v1 x = Some e' \<Longrightarrow>
       (\<exists>e. map_get v x = Some e \<and> cn_depth e' = cn_depth e \<and> cn_name e' = cn_name e)
       \<or> (map_get v x = None \<and> (\<exists>e \<in> set xs. cn_name e = x \<and> cn_depth e' = cn_depth e \<and> cn_name e' = x))"
    using ok unfolding level_ok_def by blast+
  have y': "map_get v (cn_name y) = None" using n1 y by blast
  let ?S = "{x \<in> cn_name ` set xs. map_get v x = None}"
  have S: "{x \<in> cn_name ` set (xs @ [y]). map_get v x = None} = insert (cn_name y) ?S" using y' by auto
  have new: "cn_name ` set ?new = main_edge cs `` {cn_name y}"
    by (auto simp: main_edge_def image_image)
  have "cn_name ` set (q1 @ ?new) = cn_name ` set q1 \<union> cn_name ` set ?new" by (simp only: set_append image_Un)
  also have "\<dots> = cn_name ` set q \<union> main_edge cs `` insert (cn_name y) ?S"
    unfolding q1 new Image_Un [symmetric] Un_assoc by simp
  finally have queue: "cn_name ` set (q1 @ ?new) =
      cn_name ` set q \<union> main_edge cs `` {x \<in> cn_name ` set (xs @ [y]). map_get v x = None}"
    unfolding S .
  have dom: "\<forall>x. map_get ?v' x = None \<longleftrightarrow> map_get v x = None \<and> x \<notin> cn_name ` set (xs @ [y])"
    using n1 by auto
  have entries: "\<forall>x e'. map_get ?v' x = Some e' \<longrightarrow>
       (\<exists>e. map_get v x = Some e \<and> cn_depth e' = cn_depth e \<and> cn_name e' = cn_name e)
       \<or> (map_get v x = None \<and> (\<exists>e \<in> set (xs @ [y]). cn_name e = x \<and> cn_depth e' = cn_depth e \<and> cn_name e' = x))"
  proof (intro allI impI)
    fix x e' assume "map_get ?v' x = Some e'"
    then show "(\<exists>e. map_get v x = Some e \<and> cn_depth e' = cn_depth e \<and> cn_name e' = cn_name e)
       \<or> (map_get v x = None \<and> (\<exists>e \<in> set (xs @ [y]). cn_name e = x \<and> cn_depth e' = cn_depth e \<and> cn_name e' = x))"
      using ent [of x] y' by (cases "x = cn_name y") auto
  qed
  have depth: "(\<forall>e \<in> set q. cn_depth e = d) \<longrightarrow> (\<forall>e \<in> set (q1 @ ?new). cn_depth e = d)"
    and wf: "map_wf v \<longrightarrow> map_wf ?v'"
    using ok unfolding level_ok_def by auto
  show ?thesis unfolding level_ok_def by (intro conjI dom queue depth entries wf)
qed

lemma bfs_level_ok: "fold (bfs_visit cs d) xs (v, q) = (v', q') \<Longrightarrow> level_ok cs d xs v q v' q'"
proof (induction xs arbitrary: v' q' rule: rev_induct)
  case Nil
  then show ?case by (simp add: level_ok_def)
next
  case (snoc y xs)
  obtain v1 q1 where st: "fold (bfs_visit cs d) xs (v, q) = (v1, q1)" by force
  from snoc.IH [OF st] have ok: "level_ok cs d xs v q v1 q1" .
  have y: "bfs_visit cs d y (v1, q1) = (v', q')" using snoc.prems st by simp
  show ?case
  proof (cases "map_get v1 (cn_name y)")
    case None
    with y level_ok_new [OF ok None] show ?thesis by (auto simp: bfs_visit_def)
  next
    case (Some seen)
    with y level_ok_known [OF ok Some] show ?thesis by (auto simp: bfs_visit_def)
  qed
qed

lemma bfs_level:
  assumes "fold (bfs_visit cs d) xs (v, []) = (v', q')"
  shows "map_get v' x = None \<longleftrightarrow> map_get v x = None \<and> x \<notin> cn_name ` set xs"
    and "cn_name ` set q' = main_edge cs `` {x \<in> cn_name ` set xs. map_get v x = None}"
    and "\<forall>e \<in> set q'. cn_depth e = d"
    and "map_get v' x = Some e' \<Longrightarrow>
      (\<exists>e. map_get v x = Some e \<and> cn_depth e' = cn_depth e \<and> cn_name e' = cn_name e)
      \<or> (map_get v x = None \<and> (\<exists>e \<in> set xs. cn_name e = x \<and> cn_depth e' = cn_depth e \<and> cn_name e' = x))"
    and "map_wf v \<Longrightarrow> map_wf v'"
  using bfs_level_ok [OF assms] unfolding level_ok_def by simp_all

function bfs_loop ::
  "IConnections \<Rightarrow> int \<Rightarrow> (string, IConnectedNode) jsmap \<Rightarrow> IConnectedNode list \<Rightarrow> nat
     \<Rightarrow> (string, IConnectedNode) jsmap" where
  "bfs_loop connections maxDepth visited queue depth =
     (if queue = [] \<or> (maxDepth \<noteq> -1 \<and> int depth > maxDepth) then visited
      else (case fold (bfs_visit connections (depth + 1)) queue (visited, []) of
              (visited', queue') \<Rightarrow> bfs_loop connections maxDepth visited' queue' (depth + 1)))"
  by pat_completeness auto

definition bfs_open :: "IConnections \<Rightarrow> (string, IConnectedNode) jsmap \<Rightarrow> IConnectedNode list \<Rightarrow> string set" where
  "bfs_open cs v q = {x \<in> bfs_targets cs \<union> cn_name ` set q. map_get v x = None}"

termination bfs_loop
proof (relation "measure (\<lambda>(cs, m, v, q, d). 2 * card (bfs_open cs v q) + (if q = [] then 0 else 1))", goal_cases)
  case (2 cs m v q d v' q')
  then have st: "fold (bfs_visit cs (d + 1)) q (v, []) = (v', q')" and ne: "q \<noteq> []" by auto
  note l = bfs_level [OF st]
  have fin: "finite (bfs_open cs v q)" by (simp add: bfs_open_def)
  have q': "cn_name ` set q' \<subseteq> bfs_targets cs"
    unfolding l(2) using main_connections_targets by (fastforce simp: main_edge_def)
  have "map_get v x = None" if "map_get v' x = None" for x using l(1) [of x] that by simp
  moreover have "N' \<subseteq> T \<Longrightarrow> (\<And>x. P' x \<Longrightarrow> P x) \<Longrightarrow> {x \<in> T \<union> N'. P' x} \<subseteq> {x \<in> T \<union> N. P x}"
    for N' T N :: "string set" and P' P by blast
  ultimately have sub: "bfs_open cs v' q' \<subseteq> bfs_open cs v q"
    unfolding bfs_open_def using q' by simp
  show ?case
  proof (cases "\<exists>x \<in> cn_name ` set q. map_get v x = None")
    case True
    then obtain x where "x \<in> cn_name ` set q" "map_get v x = None" by blast
    then have "x \<in> bfs_open cs v q" "x \<notin> bfs_open cs v' q'"
      using l(1) [of x] unfolding bfs_open_def by simp_all
    then have "bfs_open cs v' q' \<noteq> bfs_open cs v q" by blast
    with sub have "card (bfs_open cs v' q') < card (bfs_open cs v q)"
      using fin by (simp add: psubset_card_mono psubset_eq)
    then show ?thesis by auto
  next
    case False
    then have "cn_name ` set q' = {}" using l(2) by auto
    then have "q' = []" by simp
    moreover have "card (bfs_open cs v' q') \<le> card (bfs_open cs v q)" using sub fin by (rule card_mono [rotated])
    ultimately show ?thesis using ne by simp
  qed
qed simp

declare bfs_loop.simps [simp del]

definition searchNodesBFS :: "IConnections \<Rightarrow> string \<Rightarrow> int \<Rightarrow> IConnectedNode list" where
  "searchNodesBFS connections sourceNode maxDepth =
     filter (\<lambda>e. cn_name e \<noteq> sourceNode)
       (map_values (bfs_loop connections maxDepth []
          [\<lparr>cn_name = sourceNode, cn_indicies = [], cn_depth = 0\<rparr>] 0))"

definition getParentNodesByDepth :: "Workflow \<Rightarrow> string \<Rightarrow> int \<Rightarrow> IConnectedNode list" where
  "getParentNodesByDepth w nodeName maxDepth =
     searchNodesBFS (connectionsByDestinationNode w) nodeName maxDepth"

text \<open>
  Before the level at depth \<open>k\<close>: the visited nodes are those within fewer than \<open>k\<close> steps, each
  with its distance, and the queue holds nodes at \<open>k\<close> steps, all of those that are not visited.
\<close>

definition distance :: "('a \<times> 'a) set \<Rightarrow> 'a \<Rightarrow> 'a \<Rightarrow> nat \<Rightarrow> bool" where
  "distance E s x k = ((s, x) \<in> E ^^ k \<and> (\<forall>i<k. (s, x) \<notin> E ^^ i))"

definition bfs_inv ::
  "IConnections \<Rightarrow> string \<Rightarrow> (string, IConnectedNode) jsmap \<Rightarrow> IConnectedNode list \<Rightarrow> nat \<Rightarrow> bool" where
  "bfs_inv cs s v q k =
     (map_wf v
      \<and> (\<forall>x. map_get v x \<noteq> None \<longleftrightarrow> (\<exists>i<k. (s, x) \<in> main_edge cs ^^ i))
      \<and> (\<forall>x e. map_get v x = Some e \<longrightarrow> cn_name e = x \<and> distance (main_edge cs) s x (cn_depth e))
      \<and> (\<forall>e \<in> set q. cn_depth e = k \<and> (s, cn_name e) \<in> main_edge cs ^^ k)
      \<and> (\<forall>x. (s, x) \<in> main_edge cs ^^ k \<longrightarrow> x \<in> cn_name ` set q \<or> map_get v x \<noteq> None))"

lemma bfs_inv_level:
  assumes inv: "bfs_inv cs s v q k" and st: "fold (bfs_visit cs (k + 1)) q (v, []) = (v', q')"
  shows "bfs_inv cs s v' q' (k + 1)"
proof -
  let ?E = "main_edge cs"
  note l = bfs_level [OF st]
  have wf: "map_wf v" and dom: "\<And>x. map_get v x \<noteq> None \<longleftrightarrow> (\<exists>i<k. (s, x) \<in> ?E ^^ i)"
    and ent: "\<And>x e. map_get v x = Some e \<Longrightarrow> cn_name e = x \<and> distance ?E s x (cn_depth e)"
    and que: "\<And>e. e \<in> set q \<Longrightarrow> cn_depth e = k \<and> (s, cn_name e) \<in> ?E ^^ k"
    and all: "\<And>x. (s, x) \<in> ?E ^^ k \<Longrightarrow> x \<in> cn_name ` set q \<or> map_get v x \<noteq> None"
    using inv unfolding bfs_inv_def by auto
  have dom': "map_get v' x \<noteq> None \<longleftrightarrow> (\<exists>i<k + 1. (s, x) \<in> ?E ^^ i)" for x
  proof -
    have "map_get v' x \<noteq> None \<longleftrightarrow> (\<exists>i<k. (s, x) \<in> ?E ^^ i) \<or> x \<in> cn_name ` set q"
      using l(1) [of x] dom [of x] by metis
    also have "\<dots> \<longleftrightarrow> (\<exists>i<k. (s, x) \<in> ?E ^^ i) \<or> (s, x) \<in> ?E ^^ k"
      using que all [of x] dom [of x] by auto
    also have "\<dots> \<longleftrightarrow> (\<exists>i<k + 1. (s, x) \<in> ?E ^^ i)" using less_Suc_eq by auto
    finally show ?thesis .
  qed
  have ent': "cn_name e = x \<and> distance ?E s x (cn_depth e)" if "map_get v' x = Some e" for x e
    using l(4) [OF that]
  proof
    assume "\<exists>e0. map_get v x = Some e0 \<and> cn_depth e = cn_depth e0 \<and> cn_name e = cn_name e0"
    then show ?thesis using ent by auto
  next
    assume "map_get v x = None \<and> (\<exists>e0 \<in> set q. cn_name e0 = x \<and> cn_depth e = cn_depth e0 \<and> cn_name e = x)"
    then obtain e0 where e0: "map_get v x = None" "e0 \<in> set q" "cn_name e0 = x" "cn_depth e = cn_depth e0" "cn_name e = x"
      by blast
    then show ?thesis using que [OF e0(2)] dom [of x] by (auto simp: distance_def)
  qed
  have names: "cn_name ` set q' = ?E `` {x \<in> cn_name ` set q. map_get v x = None}" using l(2) by simp
  have que': "cn_depth e = k + 1 \<and> (s, cn_name e) \<in> ?E ^^ (k + 1)" if "e \<in> set q'" for e
  proof -
    have "cn_name e \<in> ?E `` {x \<in> cn_name ` set q. map_get v x = None}" using that names by blast
    then obtain x where "x \<in> cn_name ` set q" "(x, cn_name e) \<in> ?E" by blast
    then have "(s, cn_name e) \<in> ?E ^^ (k + 1)" using que by auto
    moreover have "cn_depth e = k + 1" using l(3) that by simp
    ultimately show ?thesis by blast
  qed
  have all': "x \<in> cn_name ` set q' \<or> map_get v' x \<noteq> None" if "(s, x) \<in> ?E ^^ (k + 1)" for x
  proof -
    from that obtain y where y: "(s, y) \<in> ?E ^^ k" "(y, x) \<in> ?E" by auto
    show ?thesis
    proof (cases "map_get v y")
      case None
      with all [OF y(1)] y(2) show ?thesis unfolding names by auto
    next
      case (Some e)
      with dom [of y] obtain i where "i < k" "(s, y) \<in> ?E ^^ i" by auto
      then have "i + 1 < k + 1" "(s, x) \<in> ?E ^^ (i + 1)" using y(2) by auto
      with dom' [of x] show ?thesis by blast
    qed
  qed
  show ?thesis unfolding bfs_inv_def using l(5) [OF wf] dom' ent' que' all' by blast
qed

lemma bfs_loop_spec:
  assumes "bfs_inv cs s v q k" "m = -1 \<or> int k \<le> m + 1"
  shows "map_wf (bfs_loop cs m v q k)
    \<and> (\<forall>x. map_get (bfs_loop cs m v q k) x \<noteq> None \<longleftrightarrow> (\<exists>i. (m = -1 \<or> int i \<le> m) \<and> (s, x) \<in> main_edge cs ^^ i))
    \<and> (\<forall>x e. map_get (bfs_loop cs m v q k) x = Some e \<longrightarrow> cn_name e = x \<and> distance (main_edge cs) s x (cn_depth e))"
  using assms
proof (induction cs m v q k rule: bfs_loop.induct)
  case (1 cs m v q k)
  let ?E = "main_edge cs"
  show ?case
  proof (cases "q = [] \<or> (m \<noteq> -1 \<and> int k > m)")
    case stop: True
    have dom: "map_get v x \<noteq> None \<longleftrightarrow> (\<exists>i<k. (s, x) \<in> ?E ^^ i)" for x using "1.prems"(1) by (simp add: bfs_inv_def)
    have "(\<exists>i<k. (s, x) \<in> ?E ^^ i) \<longleftrightarrow> (\<exists>i. (m = -1 \<or> int i \<le> m) \<and> (s, x) \<in> ?E ^^ i)" for x
    proof (cases "q = []")
      case True
      then have closed: "(s, y) \<in> ?E ^^ k \<Longrightarrow> \<exists>i<k. (s, y) \<in> ?E ^^ i" for y
        using "1.prems"(1) dom by (auto simp: bfs_inv_def)
      have "(s, y) \<in> ?E ^^ j \<Longrightarrow> \<exists>i<k. (s, y) \<in> ?E ^^ i" for j y
      proof (induction j arbitrary: y)
        case 0
        then show ?case using closed [of y] by (cases k) auto
      next
        case (Suc j)
        then obtain z where "(s, z) \<in> ?E ^^ j" "(z, y) \<in> ?E" by auto
        with Suc.IH [of z] obtain i where i: "i < k" "(s, y) \<in> ?E ^^ Suc i" by auto
        show ?case
        proof (cases "Suc i = k")
          case True
          with closed [of y] i(2) show ?thesis by simp
        next
          case False
          with i(1) have "Suc i < k" by simp
          with i(2) show ?thesis by blast
        qed
      qed
      moreover have "i < k \<Longrightarrow> m = -1 \<or> int i \<le> m" for i using "1.prems"(2) by auto
      ultimately show ?thesis by blast
    next
      case False
      then have m: "m \<noteq> -1" "int k = m + 1" using stop "1.prems"(2) by auto
      then have "i < k \<longleftrightarrow> int i \<le> m" for i by auto
      with m show ?thesis by auto
    qed
    with dom stop "1.prems"(1) show ?thesis
      by (simp add: bfs_loop.simps [of cs m v q k] bfs_inv_def)
  next
    case go: False
    obtain v' q' where st: "fold (bfs_visit cs (k + 1)) q (v, []) = (v', q')" by force
    have "m = -1 \<or> int (k + 1) \<le> m + 1" using go by auto
    from "1.IH" [OF go st [symmetric] bfs_inv_level [OF "1.prems"(1) st] this]
    show ?thesis unfolding bfs_loop.simps [of cs m v q k] if_not_P [OF go] st prod.case .
  qed
qed

lemma searchNodesBFS_spec:
  assumes "m \<ge> -1"
  shows "distinct (map cn_name (searchNodesBFS cs s m))
    \<and> cn_name ` set (searchNodesBFS cs s m) =
        {x. x \<noteq> s \<and> (\<exists>k. (m = -1 \<or> int k \<le> m) \<and> (s, x) \<in> main_edge cs ^^ k)}
    \<and> (\<forall>e \<in> set (searchNodesBFS cs s m). distance (main_edge cs) s (cn_name e) (cn_depth e))"
proof -
  let ?start = "[\<lparr>cn_name = s, cn_indicies = [], cn_depth = 0\<rparr>]"
  let ?v = "bfs_loop cs m [] ?start 0"
  have "bfs_inv cs s [] ?start 0" by (simp add: bfs_inv_def)
  from bfs_loop_spec [OF this, of m] assms have wf: "map_wf ?v"
    and dom: "\<And>x. map_get ?v x \<noteq> None \<longleftrightarrow> (\<exists>i. (m = -1 \<or> int i \<le> m) \<and> (s, x) \<in> main_edge cs ^^ i)"
    and ent: "\<And>x e. map_get ?v x = Some e \<Longrightarrow> cn_name e = x \<and> distance (main_edge cs) s x (cn_depth e)"
    by auto
  have keys: "map (cn_name \<circ> snd) ?v = map fst ?v"
    by (rule map_cong [OF refl]) (use ent map_wf_get_iff [OF wf] in force)
  have d: "distinct (map cn_name (map_values ?v))" unfolding map_map keys using wf by (simp add: map_wf_def)
  then have "distinct (map cn_name (searchNodesBFS cs s m))"
    unfolding searchNodesBFS_def by (rule distinct_map_filter)
  moreover have "cn_name ` set (searchNodesBFS cs s m) = {x. x \<noteq> s \<and> map_get ?v x \<noteq> None}"
  proof -
    have "cn_name ` set (map_values ?v) = {x. map_get ?v x \<noteq> None}"
      using arg_cong [OF keys, of set] by (auto simp: map_of_eq_None_iff image_iff comp_def)
    then show ?thesis unfolding searchNodesBFS_def set_filter by blast
  qed
  moreover have "distance (main_edge cs) s (cn_name e) (cn_depth e)" if "e \<in> set (searchNodesBFS cs s m)" for e
  proof -
    from that obtain x where "(x, e) \<in> set ?v" by (auto simp: searchNodesBFS_def)
    then have "map_get ?v x = Some e" using map_wf_get_iff [OF wf] by blast
    from ent [OF this] show ?thesis by simp
  qed
  ultimately show ?thesis using dom by simp
qed

end
