(* ===== verification/Workflow_Start.thy ===== *)
theory Workflow_Start
  imports Workflow_Search
begin

text \<open>
  Searches of \<open>packages/workflow/src/workflow.ts\<close> that share one list of checked nodes between all
  branches: \<open>getHighestNode\<close> and \<open>getNodeConnectionIndexes\<close>; the choice of the start node; and the
  choice of the trigger of a partial execution in \<open>find-trigger-for-partial-execution.ts\<close>.

  The highest nodes are distinct enabled ancestors of the node. The connection indexes name a
  connection that leaves the parent and ends in the node or one of its ancestors, and without a
  depth limit they are found exactly if there is one. A trigger for a partial execution is an
  enabled trigger that reaches the destination, and has run data if any such trigger has.
\<close>

section \<open>The highest nodes\<close>

text \<open>The connections of type Main that enter a node, by input, or \<open>None\<close> if there is no entry.\<close>

definition main_inputs :: "Workflow \<Rightarrow> string \<Rightarrow> IConnection list cell list option" where
  "main_inputs w nodeName =
     (case map_get (connectionsByDestinationNode w) nodeName of None \<Rightarrow> None
      | Some tys \<Rightarrow> map_get tys Main)"

definition input_names :: "IConnection list cell list \<Rightarrow> string list" where
  "input_names ins = map conn_node (concat (map cell_list ins))"

definition own_highest :: "string \<Rightarrow> INode \<Rightarrow> string list" where
  "own_highest nodeName node = (if disabled node = Some False then [nodeName] else [])"

definition or_parent :: "string \<Rightarrow> INode \<Rightarrow> string list \<Rightarrow> string list" where
  "or_parent p node added = (if added = [] then (if disabled node \<noteq> Some True then [p] else []) else added)"

text \<open>
  The loop over the parents \<open>ps\<close> of a node; it returns the nodes found and the checked nodes,
  which the recursive calls share.
\<close>

function highest_loop ::
  "Workflow \<Rightarrow> string list \<Rightarrow> string list \<Rightarrow> string list \<Rightarrow> string list \<times> string list" where
  "highest_loop w [] checked ret = (ret, checked)"
| "highest_loop w (p # ps) checked ret =
     (if p \<in> set checked then highest_loop w ps checked ret
      else case getNode w p of None \<Rightarrow> highest_loop w ps checked ret
      | Some node \<Rightarrow>
          (case main_inputs w p of
             None \<Rightarrow> highest_loop w ps checked
                       (fold set_add (or_parent p node (own_highest p node)) ret)
           | Some ins \<Rightarrow>
               (case highest_loop w (input_names ins) (checked @ [p]) [] of
                  (added, checked') \<Rightarrow>
                    highest_loop w ps checked' (fold set_add (or_parent p node added) ret))))"
  by pat_completeness auto

lemma highest_loop_mono:
  "highest_loop_dom (w, ps, c, r) \<Longrightarrow> highest_loop w ps c r = (r', c') \<Longrightarrow> set c \<subseteq> set c'"
proof (induction w ps c r arbitrary: r' c' rule: highest_loop.pinduct)
  case (1 w c r)
  then show ?case by (simp add: highest_loop.psimps)
next
  case (2 w p ps c r)
  show ?case
  proof (cases "p \<in> set c")
    case True
    with 2 show ?thesis by (simp add: highest_loop.psimps)
  next
    case new: False
    show ?thesis
    proof (cases "getNode w p")
      case None
      with 2 new show ?thesis by (simp add: highest_loop.psimps)
    next
      case node: (Some node)
      show ?thesis
      proof (cases "main_inputs w p")
        case None
        with 2 new node show ?thesis by (simp add: highest_loop.psimps)
      next
        case (Some ins)
        obtain a c1 where n: "highest_loop w (input_names ins) (c @ [p]) [] = (a, c1)" by force
        have "set (c @ [p]) \<subseteq> set c1" using "2.IH"(4) [OF new node Some n] .
        moreover have "set c1 \<subseteq> set c'"
          using "2.IH"(5) [OF new node Some n [symmetric], of r' c'] "2.prems" new node Some n "2.hyps"
          by (simp add: highest_loop.psimps)
        ultimately show ?thesis by auto
      qed
    qed
  qed
qed

lemma main_inputs_key: "main_inputs w p = Some ins \<Longrightarrow> p \<in> set (map_keys (connectionsByDestinationNode w))"
  by (force simp: main_inputs_def split: option.splits dest: map_of_SomeD)

termination highest_loop
proof (relation "inv_image (trav_par (\<lambda>w. set (map_keys (connectionsByDestinationNode w)))) (\<lambda>(w, ps, c, r). (w, ps, c))",
    goal_cases)
  case 1
  show ?case by auto
next
  case (2 w p ps c r)
  show ?case by (auto intro: trav_par_sibling)
next
  case (3 w p ps c r)
  show ?case by (auto intro: trav_par_sibling)
next
  case (4 w p ps c r node)
  show ?case by (auto intro: trav_par_sibling)
next
  case (5 w p ps c r node ins)
  with main_inputs_key [OF 5(3)] show ?case by (auto intro!: trav_par_child)
next
  case (6 w p ps c r node ins added checked')
  with highest_loop_mono [OF 6(5), of added checked'] show ?case by (auto intro!: trav_par_sibling)
qed

definition getHighestNode :: "Workflow \<Rightarrow> string \<Rightarrow> nat option \<Rightarrow> string list result" where
  "getHighestNode w nodeName nodeConnectionIndex =
     (case getNode w nodeName of None \<Rightarrow> Inl TypeError
      | Some node \<Rightarrow>
          (case main_inputs w nodeName of None \<Rightarrow> Inr (own_highest nodeName node)
           | Some ins \<Rightarrow>
               let chosen = (case nodeConnectionIndex of None \<Rightarrow> ins
                             | Some i \<Rightarrow> if i < length ins then [ins ! i] else [])
               in Inr (fst (highest_loop w (input_names chosen) [nodeName] []))))"

lemma main_inputs_edge:
  "main_inputs w n = Some ins \<Longrightarrow> m \<in> set (input_names ins) \<Longrightarrow> (n, m) \<in> main_edge (connectionsByDestinationNode w)"
  by (force simp: main_inputs_def input_names_def main_edge_def main_connections_def split: option.splits)

definition enabled_in :: "Workflow \<Rightarrow> string \<Rightarrow> bool" where
  "enabled_in w x = (\<exists>node. getNode w x = Some node \<and> disabled node \<noteq> Some True)"

lemma own_or_parent:
  "getNode w p = Some node \<Longrightarrow> x \<in> set (or_parent p node (own_highest p node)) \<Longrightarrow> x = p \<and> enabled_in w p"
  by (auto simp: or_parent_def own_highest_def enabled_in_def split: if_splits)

lemma highest_loop_sound:
  "highest_loop w ps c r = (r', c') \<Longrightarrow> distinct r \<Longrightarrow>
     distinct r' \<and> (\<forall>x \<in> set r' - set r. enabled_in w x \<and> x \<in> (main_edge (connectionsByDestinationNode w))\<^sup>* `` set ps)"
proof (induction w ps c r arbitrary: r' c' rule: highest_loop.induct)
  case (2 w p ps c r)
  let ?E = "main_edge (connectionsByDestinationNode w)"
  note IH = "2.IH"
  show ?case
  proof (cases "p \<in> set c")
    case True
    with IH(1) [OF True] "2.prems" show ?thesis by fastforce
  next
    case new: False
    show ?thesis
    proof (cases "getNode w p")
      case None
      with IH(2) [OF new None] "2.prems" new show ?thesis by fastforce
    next
      case node: (Some node)
      show ?thesis
      proof (cases "main_inputs w p")
        case None
        let ?r = "fold set_add (or_parent p node (own_highest p node)) r"
        have rest: "highest_loop w ps c ?r = (r', c')" using "2.prems"(1) new node None by simp
        have d: "distinct ?r" using "2.prems"(2) by (rule distinct_fold_set_add)
        from IH(3) [OF new node None rest d] own_or_parent [OF node] show ?thesis by fastforce
      next
        case (Some ins)
        obtain a c1 where n: "highest_loop w (input_names ins) (c @ [p]) [] = (a, c1)" by force
        let ?r = "fold set_add (or_parent p node a) r"
        have rest: "highest_loop w ps c1 ?r = (r', c')" using "2.prems"(1) new node Some n by simp
        have d: "distinct ?r" using "2.prems"(2) by (rule distinct_fold_set_add)
        have a: "x \<in> set a \<Longrightarrow> enabled_in w x \<and> (p, x) \<in> ?E\<^sup>*" for x
          using IH(4) [OF new node Some n] main_inputs_edge [OF Some] by (fastforce intro: converse_rtrancl_into_rtrancl)
        have "x \<in> set (or_parent p node a) \<Longrightarrow> enabled_in w x \<and> (p, x) \<in> ?E\<^sup>*" for x
          using a node by (auto simp: or_parent_def enabled_in_def split: if_splits)
        with IH(5) [OF new node Some n [symmetric] rest d] show ?thesis by fastforce
      qed
    qed
  qed
qed simp

lemma getHighestNode_spec:
  assumes "getNode w nodeName = Some node"
  shows "\<exists>r. getHighestNode w nodeName i = Inr r \<and> distinct r
     \<and> (\<forall>x \<in> set r. enabled_in w x \<and> (nodeName, x) \<in> (main_edge (connectionsByDestinationNode w))\<^sup>*)"
proof (cases "main_inputs w nodeName")
  case None
  with assms show ?thesis by (auto simp: getHighestNode_def own_highest_def enabled_in_def)
next
  case (Some ins)
  let ?E = "main_edge (connectionsByDestinationNode w)"
  define chosen where "chosen = (case i of None \<Rightarrow> ins | Some i \<Rightarrow> if i < length ins then [ins ! i] else [])"
  obtain r c where r: "highest_loop w (input_names chosen) [nodeName] [] = (r, c)" by force
  have "set (input_names chosen) \<subseteq> set (input_names ins)"
    unfolding chosen_def input_names_def by (cases i) (auto intro!: imageI bexI [OF _ nth_mem])
  then have "(nodeName, p) \<in> ?E" if "p \<in> set (input_names chosen)" for p
    using that main_inputs_edge [OF Some] by blast
  with highest_loop_sound [OF r] have "distinct r \<and> (\<forall>x \<in> set r. enabled_in w x \<and> (nodeName, x) \<in> ?E\<^sup>*)"
    by (fastforce intro: converse_rtrancl_into_rtrancl)
  with assms Some r show ?thesis unfolding getHighestNode_def Let_def by (auto simp: chosen_def)
qed

section \<open>Connection indexes\<close>

definition incoming :: "Workflow \<Rightarrow> NodeConnectionType \<Rightarrow> string \<Rightarrow> NodeInputConnections option" where
  "incoming w ty n =
     (case map_get (connectionsByDestinationNode w) n of None \<Rightarrow> None | Some tys \<Rightarrow> map_get tys ty)"

definition indexed :: "NodeInputConnections \<Rightarrow> (nat \<times> IConnection) list" where
  "indexed ins = concat (map (\<lambda>cell. enumerate 0 (cell_list cell)) ins)"

function index_loop ::
  "Workflow \<Rightarrow> string \<Rightarrow> NodeConnectionType \<Rightarrow> int \<Rightarrow> (nat \<times> IConnection) list \<Rightarrow> string list
     \<Rightarrow> INodeConnection option \<times> string list" where
  "index_loop w parent ty depth [] checked = (None, checked)"
| "index_loop w parent ty depth ((di, c) # cs) checked =
     (if parent = conn_node c then (Some \<lparr>sourceIndex = conn_index c, destinationIndex = di\<rparr>, checked)
      else if conn_node c \<in> set checked then index_loop w parent ty depth cs checked
      else if new_depth depth = 0 then index_loop w parent ty depth cs checked
      else case incoming w ty (conn_node c) of
             None \<Rightarrow> index_loop w parent ty depth cs checked
           | Some ins \<Rightarrow>
               (case index_loop w parent ty (new_depth depth) (indexed ins) (checked @ [conn_node c]) of
                  (Some r, checked') \<Rightarrow> (Some r, checked')
                | (None, checked') \<Rightarrow> index_loop w parent ty depth cs checked'))"
  by pat_completeness auto

lemma index_loop_mono:
  "index_loop_dom (w, p, ty, d, cs, c) \<Longrightarrow> index_loop w p ty d cs c = (r, c') \<Longrightarrow> set c \<subseteq> set c'"
proof (induction w p ty d cs c arbitrary: r c' rule: index_loop.pinduct)
  case (1 w p ty d c)
  then show ?case by (simp add: index_loop.psimps)
next
  case (2 w p ty d di cn cs c)
  consider "p = conn_node cn" | "p \<noteq> conn_node cn" "conn_node cn \<in> set c"
    | "p \<noteq> conn_node cn" "conn_node cn \<notin> set c" "new_depth d = 0"
    | "p \<noteq> conn_node cn" "conn_node cn \<notin> set c" "new_depth d \<noteq> 0" by blast
  then show ?case
  proof cases
    case 4
    show ?thesis
    proof (cases "incoming w ty (conn_node cn)")
      case None
      with 2 4 show ?thesis by (simp add: index_loop.psimps)
    next
      case (Some ins)
      obtain r1 c1 where n: "index_loop w p ty (new_depth d) (indexed ins) (c @ [conn_node cn]) = (r1, c1)" by force
      have "set (c @ [conn_node cn]) \<subseteq> set c1" using "2.IH"(4) [OF 4 Some n] .
      moreover have "set c1 \<subseteq> set c'"
      proof (cases r1)
        case None
        then show ?thesis
          using "2.IH"(5) [OF 4 Some n [symmetric] None, of r c'] "2.prems" 4 Some n "2.hyps"
          by (simp add: index_loop.psimps)
      next
        case r: (Some x)
        with "2.prems" 4 Some n "2.hyps" show ?thesis by (simp add: index_loop.psimps)
      qed
      ultimately show ?thesis by auto
    qed
  qed (use 2 in \<open>simp_all add: index_loop.psimps\<close>)
qed

lemma incoming_key: "incoming w ty p = Some ins \<Longrightarrow> p \<in> set (map_keys (connectionsByDestinationNode w))"
  by (force simp: incoming_def split: option.splits dest: map_of_SomeD)

termination index_loop
proof (relation "inv_image (trav_par (\<lambda>w. set (map_keys (connectionsByDestinationNode w))))
    (\<lambda>(w, p, ty, d, cs, c). (w, map (conn_node \<circ> snd) cs, c))", goal_cases)
  case 1
  show ?case by auto
next
  case (5 w p ty d di cn cs c ins)
  with incoming_key [OF 5(4)] show ?case by (auto intro!: trav_par_child)
next
  case (6 w p ty d di cn cs c ins r c')
  with index_loop_mono [OF 6(7) 6(5) [symmetric]] show ?case by (auto intro!: trav_par_sibling)
qed (auto intro: trav_par_sibling)

definition getNodeConnectionIndexes ::
  "Workflow \<Rightarrow> string \<Rightarrow> string \<Rightarrow> NodeConnectionType \<Rightarrow> int \<Rightarrow> INodeConnection option" where
  "getNodeConnectionIndexes w nodeName parentNodeName ty depth =
     (if getNode w parentNodeName = None then None
      else if depth = 0 then None
      else case incoming w ty nodeName of None \<Rightarrow> None
           | Some ins \<Rightarrow> fst (index_loop w parentNodeName ty depth (indexed ins) [nodeName]))"

definition typed_edge :: "Workflow \<Rightarrow> NodeConnectionType \<Rightarrow> (string \<times> string) set" where
  "typed_edge w ty = {(n, conn_node c) | n c di ins. incoming w ty n = Some ins \<and> (di, c) \<in> set (indexed ins)}"

lemma typed_edgeI: "incoming w ty n = Some ins \<Longrightarrow> (di, c) \<in> set (indexed ins) \<Longrightarrow> (n, conn_node c) \<in> typed_edge w ty"
  by (auto simp: typed_edge_def)

text \<open>A connection from the parent that ends in a node of the set.\<close>

definition enters :: "Workflow \<Rightarrow> NodeConnectionType \<Rightarrow> string \<Rightarrow> INodeConnection \<Rightarrow> string \<Rightarrow> bool" where
  "enters w ty parent r y =
     (\<exists>ins c. incoming w ty y = Some ins \<and> (destinationIndex r, c) \<in> set (indexed ins)
        \<and> conn_node c = parent \<and> conn_index c = sourceIndex r)"

lemma index_loop_sound:
  "index_loop w p ty d cs ch = (Some r, ch') \<Longrightarrow>
     (\<exists>c. (destinationIndex r, c) \<in> set cs \<and> conn_node c = p \<and> conn_index c = sourceIndex r)
     \<or> (\<exists>x \<in> conn_node ` snd ` set cs. \<exists>y. (x, y) \<in> (typed_edge w ty)\<^sup>* \<and> enters w ty p r y)"
proof (induction w p ty d cs ch arbitrary: ch' rule: index_loop.induct)
  case (2 w p ty d di cn cs ch)
  consider "p = conn_node cn" | "p \<noteq> conn_node cn" "conn_node cn \<in> set ch"
    | "p \<noteq> conn_node cn" "conn_node cn \<notin> set ch" "new_depth d = 0"
    | "p \<noteq> conn_node cn" "conn_node cn \<notin> set ch" "new_depth d \<noteq> 0" by blast
  then show ?case
  proof cases
    case 1
    with "2.prems" show ?thesis by auto
  next
    case 2
    with "2.IH"(1) [OF 2, of ch'] "2.prems" show ?thesis by auto
  next
    case 3
    with "2.IH"(2) [OF 3, of ch'] "2.prems" show ?thesis by auto
  next
    case 4
    show ?thesis
    proof (cases "incoming w ty (conn_node cn)")
      case None
      with "2.IH"(3) [OF 4 None, of ch'] "2.prems" 4 show ?thesis by auto
    next
      case (Some ins)
      obtain r1 c1 where n: "index_loop w p ty (new_depth d) (indexed ins) (ch @ [conn_node cn]) = (r1, c1)" by force
      show ?thesis
      proof (cases r1)
        case None
        with "2.IH"(5) [OF 4 Some n [symmetric] None, of ch'] "2.prems" 4 Some n show ?thesis by auto
      next
        case r1: (Some x)
        then have "x = r" using "2.prems" 4 Some n by simp
        with "2.IH"(4) [OF 4 Some, of c1] n r1
        consider c where "(destinationIndex r, c) \<in> set (indexed ins)" "conn_node c = p" "conn_index c = sourceIndex r"
          | e y where "e \<in> set (indexed ins)" "(conn_node (snd e), y) \<in> (typed_edge w ty)\<^sup>*" "enters w ty p r y"
          by blast
        then have "\<exists>y. (conn_node cn, y) \<in> (typed_edge w ty)\<^sup>* \<and> enters w ty p r y"
        proof cases
          case 1
          then have "enters w ty p r (conn_node cn)" unfolding enters_def using Some by blast
          then show ?thesis by blast
        next
          case 2
          have "(conn_node cn, conn_node (snd e)) \<in> typed_edge w ty"
            by (rule typed_edgeI [OF Some, of "fst e"]) (use 2 in simp)
          then have "(conn_node cn, y) \<in> (typed_edge w ty)\<^sup>*"
            using 2(2) by (rule converse_rtrancl_into_rtrancl)
          with 2(3) show ?thesis by blast
        qed
        then show ?thesis by auto
      qed
    qed
  qed
qed simp

text \<open>Without a depth limit, nothing is overlooked.\<close>

definition searched :: "Workflow \<Rightarrow> string \<Rightarrow> NodeConnectionType \<Rightarrow> string list \<Rightarrow> (nat \<times> IConnection) list \<Rightarrow> bool" where
  "searched w p ty ch cs =
     (\<forall>(di, c) \<in> set cs. conn_node c \<noteq> p \<and> (conn_node c \<in> set ch \<or> incoming w ty (conn_node c) = None))"

definition closed_under :: "Workflow \<Rightarrow> string \<Rightarrow> NodeConnectionType \<Rightarrow> string list \<Rightarrow> string set \<Rightarrow> bool" where
  "closed_under w p ty ch Y = (\<forall>y \<in> Y. \<exists>ins. incoming w ty y = Some ins \<and> searched w p ty ch (indexed ins))"

lemma searched_mono: "searched w p ty ch cs \<Longrightarrow> set ch \<subseteq> set ch' \<Longrightarrow> searched w p ty ch' cs"
  by (auto simp: searched_def)

lemma closed_under_mono: "closed_under w p ty ch Y \<Longrightarrow> set ch \<subseteq> set ch' \<Longrightarrow> closed_under w p ty ch' Y"
  unfolding closed_under_def using searched_mono by blast

lemma index_loop_None:
  "index_loop w p ty d cs ch = (None, ch') \<Longrightarrow> d = -1 \<Longrightarrow>
     set ch \<subseteq> set ch' \<and> searched w p ty ch' cs \<and> closed_under w p ty ch' (set ch' - set ch)"
proof (induction w p ty d cs ch arbitrary: ch' rule: index_loop.induct)
  case (1 w p ty d ch)
  then show ?case by (simp add: searched_def closed_under_def)
next
  case (2 w p ty d di cn cs ch)
  have d: "new_depth d = -1" "new_depth d \<noteq> 0" using "2.prems"(2) by (simp_all add: new_depth_def)
  have np: "p \<noteq> conn_node cn" using "2.prems"(1) by auto
  show ?case
  proof (cases "conn_node cn \<in> set ch")
    case True
    with "2.IH"(1) [OF np True] "2.prems" np show ?thesis by (auto simp: searched_def)
  next
    case new: False
    show ?thesis
    proof (cases "incoming w ty (conn_node cn)")
      case None
      with "2.IH"(3) [OF np new d(2) None] "2.prems" np new d show ?thesis by (auto simp: searched_def)
    next
      case (Some ins)
      let ?x = "conn_node cn"
      obtain c1 where n: "index_loop w p ty (new_depth d) (indexed ins) (ch @ [?x]) = (None, c1)"
        and rest: "index_loop w p ty d cs c1 = (None, ch')"
        using "2.prems"(1) np new d(2) Some by (auto split: prod.splits option.splits)
      have a: "set (ch @ [?x]) \<subseteq> set c1" "searched w p ty c1 (indexed ins)"
        "closed_under w p ty c1 (set c1 - set (ch @ [?x]))"
        using "2.IH"(4) [OF np new d(2) Some n d(1)] by auto
      have b: "set c1 \<subseteq> set ch'" "searched w p ty ch' cs" "closed_under w p ty ch' (set ch' - set c1)"
        using "2.IH"(5) [OF np new d(2) Some n [symmetric] refl rest "2.prems"(2)] by auto
      have "closed_under w p ty ch' {?x}"
        unfolding closed_under_def using Some searched_mono [OF a(2) b(1)] by blast
      moreover have "closed_under w p ty ch' (set c1 - set (ch @ [?x]))"
        using closed_under_mono [OF a(3) b(1)] .
      moreover have "set ch' - set ch \<subseteq> {?x} \<union> (set c1 - set (ch @ [?x])) \<union> (set ch' - set c1)" by auto
      ultimately have "closed_under w p ty ch' (set ch' - set ch)"
        using b(3) unfolding closed_under_def by blast
      moreover have "searched w p ty ch' ((di, cn) # cs)"
        using b(2) np a(1) b(1) by (auto simp: searched_def)
      ultimately show ?thesis using a(1) b(1) by auto
    qed
  qed
qed

lemma getNodeConnectionIndexes_sound:
  assumes "getNode w p \<noteq> None" "getNodeConnectionIndexes w n p ty d = Some r"
  shows "\<exists>y. (n, y) \<in> (typed_edge w ty)\<^sup>* \<and> enters w ty p r y"
proof -
  let ?E = "typed_edge w ty"
  from assms obtain ins ch where ins: "incoming w ty n = Some ins"
    and r: "index_loop w p ty d (indexed ins) [n] = (Some r, ch)"
    by (auto simp: getNodeConnectionIndexes_def split: if_splits option.splits) (metis prod.collapse)
  from index_loop_sound [OF r] show ?thesis
  proof
    assume "\<exists>c. (destinationIndex r, c) \<in> set (indexed ins) \<and> conn_node c = p \<and> conn_index c = sourceIndex r"
    then have "enters w ty p r n" unfolding enters_def using ins by blast
    then show ?thesis by blast
  next
    assume "\<exists>x \<in> conn_node ` snd ` set (indexed ins). \<exists>y. (x, y) \<in> ?E\<^sup>* \<and> enters w ty p r y"
    then obtain e y where e: "e \<in> set (indexed ins)" "(conn_node (snd e), y) \<in> ?E\<^sup>*" "enters w ty p r y" by blast
    have "(n, conn_node (snd e)) \<in> ?E" by (rule typed_edgeI [OF ins, of "fst e"]) (use e in simp)
    with e show ?thesis by (meson converse_rtrancl_into_rtrancl)
  qed
qed

lemma getNodeConnectionIndexes_None:
  assumes "getNode w p \<noteq> None" "getNodeConnectionIndexes w n p ty (-1) = None"
  shows "(n, p) \<notin> (typed_edge w ty)\<^sup>+"
proof (cases "incoming w ty n")
  case None
  then have "(n, y) \<notin> typed_edge w ty" for y by (auto simp: typed_edge_def)
  then show ?thesis by (metis tranclD)
next
  case (Some ins)
  with assms obtain ch where ch: "index_loop w p ty (-1) (indexed ins) [n] = (None, ch)"
    by (auto simp: getNodeConnectionIndexes_def) (metis prod.collapse)
  note l = index_loop_None [OF ch refl]
  have all: "closed_under w p ty ch (set ch)"
    using l Some unfolding closed_under_def by fastforce
  have "x \<noteq> p \<and> (x \<in> set ch \<or> incoming w ty x = None)" if "(n, x) \<in> (typed_edge w ty)\<^sup>+" for x
    using that
  proof induction
    case (base y)
    then show ?case using all l unfolding closed_under_def searched_def typed_edge_def by fastforce
  next
    case (step y z)
    then show ?case using all unfolding closed_under_def searched_def typed_edge_def by fastforce
  qed
  then show ?thesis by blast
qed

lemma getNodeConnectionIndexes_spec:
  assumes "getNode w p \<noteq> None"
  shows "getNodeConnectionIndexes w n p ty d = Some r \<Longrightarrow>
      \<exists>y. (n, y) \<in> (typed_edge w ty)\<^sup>* \<and> enters w ty p r y"
    and "getNodeConnectionIndexes w n p ty (-1) = None \<longleftrightarrow> (n, p) \<notin> (typed_edge w ty)\<^sup>+"
proof -
  note sound = getNodeConnectionIndexes_sound [OF assms]
  show "getNodeConnectionIndexes w n p ty d = Some r \<Longrightarrow> \<exists>y. (n, y) \<in> (typed_edge w ty)\<^sup>* \<and> enters w ty p r y"
    by (rule sound)
  have "getNodeConnectionIndexes w n p ty (-1) = None" if no: "(n, p) \<notin> (typed_edge w ty)\<^sup>+"
  proof (rule ccontr)
    assume "getNodeConnectionIndexes w n p ty (-1) \<noteq> None"
    then obtain r where "getNodeConnectionIndexes w n p ty (-1) = Some r" by blast
    from sound [OF this] obtain y where y: "(n, y) \<in> (typed_edge w ty)\<^sup>*" "enters w ty p r y" by blast
    then have "(y, p) \<in> typed_edge w ty" by (auto simp: enters_def intro: typed_edgeI)
    with y(1) no show False by (meson rtrancl_into_trancl1)
  qed
  then show "getNodeConnectionIndexes w n p ty (-1) = None \<longleftrightarrow> (n, p) \<notin> (typed_edge w ty)\<^sup>+"
    using getNodeConnectionIndexes_None [OF assms] by blast
qed

section \<open>The start node\<close>

definition STARTING_NODE_TYPES :: "string list" where
  "STARTING_NODE_TYPES =
     [''n8n-nodes-base.manualTrigger'', ''n8n-nodes-base.executeWorkflowTrigger'', ''n8n-nodes-base.errorTrigger'',
      ''n8n-nodes-base.start'', ''n8n-nodes-base.evaluationTrigger'']"

definition MANUAL_CHAT_TRIGGER_LANGCHAIN_NODE_TYPE :: string where
  "MANUAL_CHAT_TRIGGER_LANGCHAIN_NODE_TYPE = ''@n8n/n8n-nodes-langchain.manualChatTrigger''"

text \<open>\<open>Array.prototype.indexOf\<close>.\<close>

fun index_of :: "'a \<Rightarrow> 'a list \<Rightarrow> int" where
  "index_of x [] = -1"
| "index_of x (y # ys) = (if x = y then 0 else if index_of x ys = -1 then -1 else index_of x ys + 1)"

text \<open>The first loop of \<open>__getStartNode\<close>; an unknown node or an unknown node type makes it throw.\<close>

fun first_trigger :: "INodeTypes \<Rightarrow> Workflow \<Rightarrow> string list \<Rightarrow> INode option result" where
  "first_trigger nodeTypes w [] = Inr None"
| "first_trigger nodeTypes w (nodeName # rest) =
     (case getNode w nodeName of None \<Rightarrow> Inl TypeError
      | Some node \<Rightarrow>
          (case nodeTypes (node_type node) (typeVersion node) of None \<Rightarrow> Inl TypeError
           | Some nodeType \<Rightarrow>
               if nt_name nodeType = MANUAL_CHAT_TRIGGER_LANGCHAIN_NODE_TYPE then first_trigger nodeTypes w rest
               else if nt_trigger nodeType \<or> nt_poll nodeType then
                 (if disabled node = Some True then first_trigger nodeTypes w rest else Inr (Some node))
               else first_trigger nodeTypes w rest))"

definition sorted_nodes :: "Workflow \<Rightarrow> INode list" where
  "sorted_nodes w =
     sort_cmp (\<lambda>a b. index_of (node_type a) STARTING_NODE_TYPES - index_of (node_type b) STARTING_NODE_TYPES)
       (object_values (wf_nodes w))"

definition first_starting :: "Workflow \<Rightarrow> INode option" where
  "first_starting w =
     List.find (\<lambda>node. node_type node \<in> set STARTING_NODE_TYPES \<and> disabled node \<noteq> Some True)
       (List.map_filter (getNode w \<circ> node_name) (sorted_nodes w))"

definition get_start_node_of :: "INodeTypes \<Rightarrow> Workflow \<Rightarrow> string list \<Rightarrow> INode option result" where
  "get_start_node_of nodeTypes w nodeNames =
     (let rest = bind_res (first_trigger nodeTypes w nodeNames) (\<lambda>r.
            case r of Some node \<Rightarrow> Inr (Some node) | None \<Rightarrow> Inr (first_starting w))
      in case nodeNames of
           [nodeName] \<Rightarrow>
             (case getNode w nodeName of
                Some node \<Rightarrow> if disabled node \<noteq> Some True then Inr (Some node) else rest
              | None \<Rightarrow> rest)
         | _ \<Rightarrow> rest)"

definition getStartNode :: "INodeTypes \<Rightarrow> Workflow \<Rightarrow> string option \<Rightarrow> INode option result" where
  "getStartNode nodeTypes w destinationNode =
     (case destinationNode of
        Some destination \<Rightarrow>
          if destination = [] then get_start_node_of nodeTypes w (object_keys (wf_nodes w))
          else bind_res (getHighestNode w destination None) (\<lambda>highest.
            let nodeNames = (if highest = [] then [destination] else highest) in
            bind_res (get_start_node_of nodeTypes w nodeNames) (\<lambda>node.
              case node of Some n \<Rightarrow> Inr (Some n) | None \<Rightarrow> Inr (getNode w (hd nodeNames))))
      | None \<Rightarrow> get_start_node_of nodeTypes w (object_keys (wf_nodes w)))"

lemma first_trigger_Some:
  "first_trigger nt w ns = Inr (Some node) \<Longrightarrow>
     disabled node \<noteq> Some True \<and> (\<exists>nm \<in> set ns. getNode w nm = Some node)
     \<and> (\<exists>ty. nt (node_type node) (typeVersion node) = Some ty \<and> (nt_trigger ty \<or> nt_poll ty))"
  by (induction nt w ns rule: first_trigger.induct) (auto split: option.splits if_splits)

lemma find_Some_in: "List.find P xs = Some x \<Longrightarrow> x \<in> set xs \<and> P x"
  by (induction xs) (auto split: if_splits)

lemma first_starting_Some:
  "first_starting w = Some node \<Longrightarrow>
     node_type node \<in> set STARTING_NODE_TYPES \<and> disabled node \<noteq> Some True \<and> (\<exists>nm. getNode w nm = Some node)"
  unfolding first_starting_def
  by (drule find_Some_in) (auto simp: List.map_filter_def comp_def)

lemma get_start_node_of_enabled:
  "get_start_node_of nt w ns = Inr (Some node) \<Longrightarrow>
     disabled node \<noteq> Some True \<and> (\<exists>nm. getNode w nm = Some node)"
  unfolding get_start_node_of_def Let_def
  by (auto split: list.splits option.splits if_splits simp: bind_res_eq_Inr
      dest: first_trigger_Some first_starting_Some)

lemma getStartNode_enabled:
  assumes "getStartNode nt w dest = Inr (Some node)"
  shows "\<exists>nm. getNode w nm = Some node"
    and "disabled node = Some True \<Longrightarrow> \<exists>d. dest = Some d \<and> getNode w d = Some node"
proof -
  have "(\<exists>nm. getNode w nm = Some node) \<and> (disabled node = Some True \<longrightarrow> (\<exists>d. dest = Some d \<and> getNode w d = Some node))"
  proof (cases "dest = None \<or> dest = Some []")
    case True
    with assms get_start_node_of_enabled show ?thesis by (auto simp: getStartNode_def)
  next
    case False
    then obtain d where d: "dest = Some d" "d \<noteq> []" by auto
    with assms obtain h where h: "getHighestNode w d None = Inr h"
      by (auto simp: getStartNode_def bind_res_eq_Inr)
    then obtain dn where "getNode w d = Some dn" by (cases "getNode w d") (auto simp: getHighestNode_def)
    from getHighestNode_spec [OF this, of None] h have en: "\<forall>x \<in> set h. enabled_in w x" by auto
    let ?ns = "if h = [] then [d] else h"
    from assms d h obtain r where r: "get_start_node_of nt w ?ns = Inr r"
      "(case r of Some n \<Rightarrow> Inr (Some n) | None \<Rightarrow> Inr (getNode w (hd ?ns))) = (Inr (Some node) :: INode option result)"
      unfolding getStartNode_def by (simp only: d h option.case if_False bind_res_simps Let_def bind_res_eq_Inr) blast
    show ?thesis
    proof (cases r)
      case (Some n)
      with r get_start_node_of_enabled show ?thesis by auto
    next
      case None
      with r(2) have hd: "getNode w (hd ?ns) = Some node" by simp
      show ?thesis
      proof (cases "h = []")
        case True
        with hd d show ?thesis by auto
      next
        case False
        with en have "enabled_in w (hd h)" by simp
        with False hd have "disabled node \<noteq> Some True" by (auto simp: enabled_in_def)
        with hd show ?thesis by auto
      qed
    qed
  qed
  then show "\<exists>nm. getNode w nm = Some node"
    "disabled node = Some True \<Longrightarrow> \<exists>d. dest = Some d \<and> getNode w d = Some node" by blast+
qed

section \<open>The trigger of a partial execution\<close>

definition isTriggerNode :: "INodeType \<Rightarrow> bool" where
  "isTriggerNode nodeType = (''trigger'' \<in> set (nt_group nodeType))"

definition node_is_trigger :: "INodeTypes \<Rightarrow> INode \<Rightarrow> bool result" where
  "node_is_trigger nodeTypes node =
     (case nodeTypes (node_type node) (typeVersion node) of None \<Rightarrow> Inl TypeError
      | Some nodeType \<Rightarrow> Inr (isTriggerNode nodeType))"

definition findAllParentTriggers :: "INodeTypes \<Rightarrow> Workflow \<Rightarrow> string \<Rightarrow> INode list result" where
  "findAllParentTriggers nodeTypes workflow destinationNodeName =
     bind_res (map_res (\<lambda>nm. case getNode workflow nm of None \<Rightarrow> Inl AssertionError | Some node \<Rightarrow> Inr node)
                 (getParentNodes workflow destinationNodeName (OfType Main) (-1))) (\<lambda>nodes.
     bind_res (map_res (\<lambda>node. bind_res (node_is_trigger nodeTypes node) (\<lambda>t. Inr (node, t))) nodes) (\<lambda>ts.
       Inr (map fst (filter snd ts))))"

definition ends_with :: "string \<Rightarrow> string \<Rightarrow> bool" where
  "ends_with s suffix = (length suffix \<le> length s \<and> drop (length s - length suffix) s = suffix)"

text \<open>
  The comparator returns \<open>-1\<close> for two webhooks in either order, so the result of the sort is left
  to the engine; \<open>srt\<close> stands for it.
\<close>

definition findTriggerForPartialExecution ::
  "((INode \<Rightarrow> INode \<Rightarrow> int) \<Rightarrow> INode list \<Rightarrow> INode list) \<Rightarrow> INodeTypes \<Rightarrow> Workflow \<Rightarrow> string \<Rightarrow> IRunData
     \<Rightarrow> INode option result" where
  "findTriggerForPartialExecution srt nodeTypes workflow destinationNodeName runData =
     (case getNode workflow destinationNodeName of None \<Rightarrow> Inr None
      | Some destinationNode \<Rightarrow>
          bind_res (node_is_trigger nodeTypes destinationNode) (\<lambda>destTrigger.
            if destTrigger \<and> disabled destinationNode \<noteq> Some True then Inr (Some destinationNode)
            else bind_res (findAllParentTriggers nodeTypes workflow destinationNodeName) (\<lambda>triggers.
              let parentTriggers = filter (\<lambda>t. disabled t \<noteq> Some True) triggers in
              case List.find (\<lambda>t. map_has runData (node_name t)) parentTriggers of
                Some t \<Rightarrow> Inr (Some t)
              | None \<Rightarrow>
                  let pinnedTriggers = srt
                        (\<lambda>a b. if ends_with (node_type a) ''webhook'' then -1
                               else if ends_with (node_type b) ''webhook'' then 1 else 0)
                        (filter (\<lambda>t. getPinDataOfNode workflow (node_name t) \<noteq> None) parentTriggers)
                  in if pinnedTriggers \<noteq> [] then Inr (Some (hd pinnedTriggers))
                     else let webhookTriggers = filter (\<lambda>t. ends_with (node_type t) ''webhook'') parentTriggers
                          in Inr (if webhookTriggers \<noteq> [] then Some (hd webhookTriggers)
                                  else case parentTriggers of [] \<Rightarrow> None | t # _ \<Rightarrow> Some t))))"

definition is_trigger_of :: "INodeTypes \<Rightarrow> Workflow \<Rightarrow> string \<Rightarrow> INode \<Rightarrow> bool" where
  "is_trigger_of nt w dest t =
     (disabled t \<noteq> Some True \<and> node_is_trigger nt t = Inr True
      \<and> (\<exists>nm. getNode w nm = Some t \<and> (dest, nm) \<in> (filtered_edges (connectionsByDestinationNode w) (OfType Main))\<^sup>*))"

lemma findAllParentTriggers_sound:
  assumes "findAllParentTriggers nt w d = Inr ts" "t \<in> set ts"
  shows "node_is_trigger nt t = Inr True
    \<and> (\<exists>nm. getNode w nm = Some t \<and> (d, nm) \<in> (filtered_edges (connectionsByDestinationNode w) (OfType Main))\<^sup>*)"
proof -
  let ?get = "\<lambda>nm. case getNode w nm of None \<Rightarrow> Inl AssertionError | Some node \<Rightarrow> Inr node"
  let ?ps = "getParentNodes w d (OfType Main) (-1)"
  from assms(1) obtain nodes us where n: "list_all2 (\<lambda>x y. ?get x = Inr y) ?ps nodes"
    and u: "list_all2 (\<lambda>x y. bind_res (node_is_trigger nt x) (\<lambda>t. Inr (x, t)) = Inr y) nodes us"
    and ts: "ts = map fst (filter snd us)"
    by (auto simp: findAllParentTriggers_def bind_res_eq_Inr map_res_eq_Inr)
  from assms(2) ts obtain b where "(t, b) \<in> set us" "b" by auto
  with u obtain x where x: "x \<in> set nodes" "bind_res (node_is_trigger nt x) (\<lambda>t. Inr (x, t)) = Inr (t, b)"
    unfolding list_all2_conv_all_nth by (metis in_set_conv_nth)
  then have t: "node_is_trigger nt t = Inr True" "x = t" using \<open>b\<close> by (auto simp: bind_res_eq_Inr)
  from x(1) n obtain nm where nm: "nm \<in> set ?ps" "?get nm = Inr x"
    unfolding list_all2_conv_all_nth by (metis in_set_conv_nth)
  then have "getNode w nm = Some t" using t by (simp split: option.splits)
  moreover have "(d, nm) \<in> (filtered_edges (connectionsByDestinationNode w) (OfType Main))\<^sup>*"
    using nm(1) unfolding getParentNodes_def getConnectedNodes_spec by (auto intro: relpow_imp_rtrancl)
  ultimately show ?thesis using t by blast
qed

lemma findTrigger_spec:
  assumes srt: "\<And>cmp xs. set (srt cmp xs) = set xs"
    and found: "findTriggerForPartialExecution srt nt w d rd = Inr (Some t)"
  shows "is_trigger_of nt w d t"
proof -
  obtain dn where dn: "getNode w d = Some dn"
    using found by (auto simp: findTriggerForPartialExecution_def split: option.splits)
  obtain b where b: "node_is_trigger nt dn = Inr b"
    using found dn by (auto simp: findTriggerForPartialExecution_def bind_res_eq_Inr)
  show ?thesis
  proof (cases "b \<and> disabled dn \<noteq> Some True")
    case True
    with found dn b have "t = dn" by (simp add: findTriggerForPartialExecution_def)
    with True dn b show ?thesis by (auto simp: is_trigger_of_def)
  next
    case False
    with found dn b obtain ts where ts: "findAllParentTriggers nt w d = Inr ts"
      by (auto simp: findTriggerForPartialExecution_def bind_res_eq_Inr)
    let ?ps = "filter (\<lambda>t. disabled t \<noteq> Some True) ts"
    have "t \<in> set ?ps"
    proof (cases "List.find (\<lambda>t. map_has rd (node_name t)) ?ps")
      case (Some x)
      with found dn b False ts have "x = t" by (auto simp: findTriggerForPartialExecution_def)
      with find_Some_in [OF Some] show ?thesis by simp
    next
      case None
      let ?cmp = "\<lambda>a b. if ends_with (node_type a) ''webhook'' then -1
         else if ends_with (node_type b) ''webhook'' then 1 else (0::int)"
      let ?pin = "srt ?cmp (filter (\<lambda>t. getPinDataOfNode w (node_name t) \<noteq> None) ?ps)"
      let ?web = "filter (\<lambda>t. ends_with (node_type t) ''webhook'') ?ps"
      have eq: "(if ?pin \<noteq> [] then Some (hd ?pin) else if ?web \<noteq> [] then Some (hd ?web)
          else case ?ps of [] \<Rightarrow> None | t # _ \<Rightarrow> Some t) = Some t"
        using found dn b False ts None
        unfolding findTriggerForPartialExecution_def Let_def by (simp split: if_splits)
      have "hd ?pin \<in> set ?ps" if "?pin \<noteq> []" using hd_in_set [OF that] unfolding srt by simp
      moreover have "hd ?web \<in> set ?ps" if "?web \<noteq> []" using hd_in_set [OF that] by simp
      moreover have "t \<in> set ?ps" if "(case ?ps of [] \<Rightarrow> None | t # _ \<Rightarrow> Some t) = Some t"
        using that by (cases ?ps) (simp, metis list.set_intros(1) list.simps(5) option.inject)
      ultimately show ?thesis using eq by (auto split: if_splits)
    qed
    with findAllParentTriggers_sound [OF ts, of t] show ?thesis by (auto simp: is_trigger_of_def)
  qed
qed

end
