(* ===== verification/Concurrency.thy ===== *)
theory Concurrency
  imports Workflow_Types
begin

text \<open>
  The concurrency limit on executions: \<open>concurrency-queue.ts\<close> and \<open>concurrency-control.service.ts\<close> of
  \<open>packages/cli/src/concurrency/\<close>.

  A queue has a capacity and the executions that wait. Starting and finishing executions keeps
  the accounting: the capacity is the limit less the running and the waiting executions, at most
  as many executions run as the limit allows, and none waits while there is room. Executions are
  let through in the order in which they came. Removing a waiting execution lets the next one
  through although no running execution has finished.

  The promise that \<open>enqueue\<close> returns is modelled by the events: an execution that is not throttled
  goes on at once, a throttled one when it is released. Logging and telemetry are left out.
\<close>

section \<open>The queue\<close>

datatype ConcurrencyEvent =
    ConcurrencyCheck int
  | ExecutionThrottled string
  | ExecutionReleased string

record ConcurrencyQueue =
  capacity :: int
  cq_queue :: "string list"

definition new_ConcurrencyQueue :: "int \<Rightarrow> ConcurrencyQueue" where
  "new_ConcurrencyQueue c = \<lparr>capacity = c, cq_queue = []\<rparr>"

definition resolveNext :: "ConcurrencyQueue \<Rightarrow> ConcurrencyQueue \<times> ConcurrencyEvent list" where
  "resolveNext q =
     (case cq_queue q of [] \<Rightarrow> (q, [])
      | item # rest \<Rightarrow> (q\<lparr>cq_queue := rest\<rparr>, [ExecutionReleased item]))"

definition enqueue :: "string \<Rightarrow> ConcurrencyQueue \<Rightarrow> ConcurrencyQueue \<times> ConcurrencyEvent list" where
  "enqueue executionId q =
     (let c = capacity q - 1 in
      if c < 0
      then (q\<lparr>capacity := c, cq_queue := cq_queue q @ [executionId]\<rparr>,
            [ConcurrencyCheck c, ExecutionThrottled executionId])
      else (q\<lparr>capacity := c\<rparr>, [ConcurrencyCheck c]))"

definition dequeue :: "ConcurrencyQueue \<Rightarrow> ConcurrencyQueue \<times> ConcurrencyEvent list" where
  "dequeue q = resolveNext (q\<lparr>capacity := capacity q + 1\<rparr>)"

definition remove_execution :: "string \<Rightarrow> ConcurrencyQueue \<Rightarrow> ConcurrencyQueue \<times> ConcurrencyEvent list" where
  "remove_execution executionId q =
     (if executionId \<in> set (cq_queue q)
      then resolveNext (q\<lparr>cq_queue := remove1 executionId (cq_queue q), capacity := capacity q + 1\<rparr>)
      else (q, []))"

definition getAll :: "ConcurrencyQueue \<Rightarrow> string list" where
  "getAll q = set_of_list (cq_queue q)"

definition has_execution :: "string \<Rightarrow> ConcurrencyQueue \<Rightarrow> bool" where
  "has_execution executionId q = (executionId \<in> set (cq_queue q))"

definition released :: "ConcurrencyEvent list \<Rightarrow> string list" where
  "released es = concat (map (\<lambda>e. case e of ExecutionReleased x \<Rightarrow> [x] | _ \<Rightarrow> []) es)"

definition throttled :: "string \<Rightarrow> ConcurrencyEvent list \<Rightarrow> bool" where
  "throttled x es = (ExecutionThrottled x \<in> set es)"

subsection \<open>What the service relies on\<close>

text \<open>
  An admission queue: starting takes one unit of capacity and lets the execution through if there
  was one, otherwise the execution waits at the end; finishing gives the unit back and lets
  the first waiting execution through.
\<close>

locale admission_queue =
  fixes cap :: "'q \<Rightarrow> int"
    and waiting :: "'q \<Rightarrow> 'i list"
    and start :: "'i \<Rightarrow> 'q \<Rightarrow> 'q \<times> 'e list"
    and finish :: "'q \<Rightarrow> 'q \<times> 'e list"
    and freed :: "'e list \<Rightarrow> 'i list"
  assumes cap_start: "cap (fst (start i q)) = cap q - 1"
    and waiting_start: "waiting (fst (start i q)) = (if cap q > 0 then waiting q else waiting q @ [i])"
    and freed_start: "freed (snd (start i q)) = []"
    and cap_finish: "cap (fst (finish q)) = cap q + 1"
    and waiting_finish: "waiting (fst (finish q)) = tl (waiting q)"
    and freed_finish: "freed (snd (finish q)) = take 1 (waiting q)"
begin

text \<open>A state: the queue and the executions that run.\<close>

inductive step :: "'q \<times> 'i multiset \<Rightarrow> 'q \<times> 'i multiset \<Rightarrow> bool" where
  started: "step (q, R) (fst (start i q), if cap q > 0 then add_mset i R else R)"
| finished: "i \<in># R \<Longrightarrow> step (q, R) (fst (finish q), R - {#i#} + mset (freed (snd (finish q))))"

definition accounts :: "int \<Rightarrow> 'q \<times> 'i multiset \<Rightarrow> bool" where
  "accounts limit s = (cap (fst s) = limit - int (size (snd s)) - int (length (waiting (fst s))))"

definition limited :: "int \<Rightarrow> 'q \<times> 'i multiset \<Rightarrow> bool" where
  "limited limit s =
     (accounts limit s \<and> int (size (snd s)) \<le> limit \<and> (waiting (fst s) \<noteq> [] \<longrightarrow> int (size (snd s)) = limit))"

lemma step_limited: "step s t \<Longrightarrow> limited limit s \<Longrightarrow> limited limit t"
proof (induction rule: step.induct)
  case (started q R i)
  then show ?case
    by (auto simp: limited_def accounts_def cap_start waiting_start)
next
  case (finished i R q)
  then have "int (size (R - {#i#})) = int (size R) - 1"
    by (metis One_nat_def of_nat_Suc add_diff_cancel_right' insert_DiffM size_add_mset add.commute)
  with finished show ?case
    by (cases "waiting q") (auto simp: limited_def accounts_def cap_finish waiting_finish freed_finish)
qed

lemma steps_limited: "step\<^sup>*\<^sup>* s t \<Longrightarrow> limited limit s \<Longrightarrow> limited limit t"
  by (induction rule: rtranclp_induct) (auto intro: step_limited)

text \<open>Finishing \<open>k\<close> times lets the first \<open>k\<close> waiting executions through, in their order.\<close>

fun finish_many :: "nat \<Rightarrow> 'q \<Rightarrow> 'q \<times> 'i list" where
  "finish_many 0 q = (q, [])"
| "finish_many (Suc k) q =
     (let (q1, es) = finish q; (q2, rest) = finish_many k q1 in (q2, freed es @ rest))"

lemma finish_many_fifo:
  "snd (finish_many k q) = take k (waiting q) \<and> waiting (fst (finish_many k q)) = drop k (waiting q)"
proof (induction k arbitrary: q)
  case (Suc k)
  obtain q1 es where f: "finish q = (q1, es)" by force
  obtain q2 rest where r: "finish_many k q1 = (q2, rest)" by force
  have "waiting q1 = tl (waiting q)" "freed es = take 1 (waiting q)"
    using waiting_finish [of q] freed_finish [of q] f by simp_all
  with Suc.IH [of q1] f r show ?case by (cases "waiting q") (simp_all add: drop_Suc)
qed simp

end

interpretation cq: admission_queue capacity cq_queue enqueue dequeue released
  by unfold_locales
    (auto simp: enqueue_def dequeue_def resolveNext_def released_def Let_def split: list.split)

text \<open>
  The executions of one queue over time: an execution starts and goes on at once unless it is
  throttled, or a running one finishes and the released one goes on.
\<close>

inductive execution_step ::
  "ConcurrencyQueue \<times> string multiset \<Rightarrow> ConcurrencyQueue \<times> string multiset \<Rightarrow> bool" where
  execution_started:
    "enqueue executionId q = (q', es) \<Longrightarrow>
       execution_step (q, R) (q', if throttled executionId es then R else add_mset executionId R)"
| execution_finished:
    "executionId \<in># R \<Longrightarrow> dequeue q = (q', es) \<Longrightarrow>
       execution_step (q, R) (q', R - {#executionId#} + mset (released es))"

inductive_cases execution_step_elim: "execution_step (q, R) (q', R')"

lemma enqueue_throttled: "throttled x (snd (enqueue x q)) \<longleftrightarrow> capacity q \<le> 0"
  by (auto simp: enqueue_def throttled_def Let_def)

lemma execution_step_admission: "execution_step s t \<Longrightarrow> cq.step s t"
proof (induction rule: execution_step.induct)
  case (execution_started x q q' es R)
  have "throttled x es \<longleftrightarrow> \<not> capacity q > 0" using enqueue_throttled [of x q] execution_started by auto
  then show ?case using cq.step.started [of q R x] execution_started by (simp split: if_splits)
next
  case (execution_finished x R q q' es)
  then show ?case using cq.step.finished [of x R q] by simp
qed

lemma execution_steps_admission: "execution_step\<^sup>*\<^sup>* s t \<Longrightarrow> cq.step\<^sup>*\<^sup>* s t"
  by (induction rule: rtranclp_induct) (auto dest: execution_step_admission intro: rtranclp.rtrancl_into_rtrancl)

lemma new_queue_limited: "0 \<le> limit \<Longrightarrow> cq.limited limit (new_ConcurrencyQueue limit, {#})"
  by (simp add: cq.limited_def cq.accounts_def new_ConcurrencyQueue_def)

lemma execution_steps_limited:
  assumes "0 \<le> limit" "execution_step\<^sup>*\<^sup>* (new_ConcurrencyQueue limit, {#}) (q, R)"
  shows "capacity q = limit - int (size R) - int (length (cq_queue q))
    \<and> int (size R) \<le> limit \<and> (cq_queue q \<noteq> [] \<longrightarrow> int (size R) = limit)"
  using cq.steps_limited [OF execution_steps_admission [OF assms(2)] new_queue_limited [OF assms(1)]]
  by (simp add: cq.limited_def cq.accounts_def)

subsection \<open>Removal\<close>

text \<open>
  Removing keeps the capacity in step with the running and the waiting executions, if the released
  execution is counted as running.
\<close>

lemma remove_accounts:
  assumes "cq.accounts limit (q, R)"
  shows "cq.accounts limit
    (fst (remove_execution x q), R + mset (released (snd (remove_execution x q))))"
proof (cases "x \<in> set (cq_queue q)")
  case True
  then have len: "length (cq_queue q) = Suc (length (remove1 x (cq_queue q)))"
    by (simp add: length_remove1) (metis Suc_pred length_pos_if_in_set)
  show ?thesis
    using assms True len
    by (cases "remove1 x (cq_queue q)")
      (auto simp: cq.accounts_def remove_execution_def resolveNext_def released_def)
qed (use assms in \<open>simp add: remove_execution_def released_def\<close>)

lemma remove_releases:
  assumes "cq_queue q = x # y # rest"
  shows "released (snd (remove_execution x q)) = [y]
    \<and> cq_queue (fst (remove_execution x q)) = rest"
  using assms by (simp add: remove_execution_def resolveNext_def released_def)

section \<open>The service\<close>

datatype ConcurrencyQueueType = ProductionQueue | EvaluationQueue

record ConcurrencyControl =
  isEnabled :: bool
  limits :: "(ConcurrencyQueueType, int) jsmap"
  queues :: "(ConcurrencyQueueType, ConcurrencyQueue) jsmap"

definition normalise_limit :: "int \<Rightarrow> int result" where
  "normalise_limit limit =
     (if limit = 0 then Inl (UserError ''Concurrency limit set to invalid value'')
      else if limit < -1 then Inr (-1) else Inr limit)"

definition new_ConcurrencyControl :: "int \<Rightarrow> int \<Rightarrow> bool \<Rightarrow> ConcurrencyControl result" where
  "new_ConcurrencyControl productionLimit evaluationLimit queueMode =
     bind_res (normalise_limit productionLimit) (\<lambda>p.
     bind_res (normalise_limit evaluationLimit) (\<lambda>e.
       let lims = [(ProductionQueue, p), (EvaluationQueue, e)] in
       if list_all (\<lambda>l. l = -1) (map_values lims) \<or> queueMode
       then Inr \<lparr>isEnabled = False, limits = lims, queues = []\<rparr>
       else Inr \<lparr>isEnabled = True, limits = lims,
                 queues = map (\<lambda>(ty, l). (ty, new_ConcurrencyQueue l)) (filter (\<lambda>(ty, l). l > 0) lims)\<rparr>))"

fun queue_type :: "WorkflowExecuteMode \<Rightarrow> ConcurrencyQueueType option" where
  "queue_type ModeWebhook = Some ProductionQueue"
| "queue_type ModeTrigger = Some ProductionQueue"
| "queue_type ModeEvaluation = Some EvaluationQueue"
| "queue_type ModeError = None"
| "queue_type ModeIntegrated = None"
| "queue_type ModeCli = None"
| "queue_type ModeInternal = None"
| "queue_type ModeManual = None"
| "queue_type ModeRetry = None"

definition getQueue :: "WorkflowExecuteMode \<Rightarrow> ConcurrencyControl \<Rightarrow> ConcurrencyQueue option" where
  "getQueue mode s = (case queue_type mode of None \<Rightarrow> None | Some ty \<Rightarrow> map_get (queues s) ty)"

definition isUnlimited :: "WorkflowExecuteMode \<Rightarrow> ConcurrencyControl \<Rightarrow> bool" where
  "isUnlimited mode s = (getQueue mode s = None)"

text \<open>A method that calls one on the queue of the mode, if the service is enabled and has one.\<close>

definition on_queue ::
  "(ConcurrencyQueue \<Rightarrow> ConcurrencyQueue \<times> ConcurrencyEvent list) \<Rightarrow> WorkflowExecuteMode
     \<Rightarrow> ConcurrencyControl \<Rightarrow> ConcurrencyControl \<times> ConcurrencyEvent list" where
  "on_queue f mode s =
     (if \<not> isEnabled s \<or> isUnlimited mode s then (s, [])
      else case (queue_type mode, getQueue mode s) of
             (Some ty, Some q) \<Rightarrow> (case f q of (q', es) \<Rightarrow> (s\<lparr>queues := map_set ty q' (queues s)\<rparr>, es))
           | _ \<Rightarrow> (s, []))"

definition throttle :: "WorkflowExecuteMode \<Rightarrow> string \<Rightarrow> ConcurrencyControl \<Rightarrow> ConcurrencyControl \<times> ConcurrencyEvent list" where
  "throttle mode executionId = on_queue (enqueue executionId) mode"

definition release :: "WorkflowExecuteMode \<Rightarrow> ConcurrencyControl \<Rightarrow> ConcurrencyControl \<times> ConcurrencyEvent list" where
  "release mode = on_queue dequeue mode"

definition remove_from :: "WorkflowExecuteMode \<Rightarrow> string \<Rightarrow> ConcurrencyControl \<Rightarrow> ConcurrencyControl \<times> ConcurrencyEvent list" where
  "remove_from mode executionId = on_queue (remove_execution executionId) mode"

definition has_in_queues :: "string \<Rightarrow> ConcurrencyControl \<Rightarrow> bool" where
  "has_in_queues executionId s = (isEnabled s \<and> list_ex (has_execution executionId) (map_values (queues s)))"

definition disable :: "ConcurrencyControl \<Rightarrow> ConcurrencyControl" where
  "disable s = s\<lparr>isEnabled := False\<rparr>"

text \<open>The inner loop of \<open>removeAll\<close> over the executions that waited when it began.\<close>

definition remove_each :: "string list \<Rightarrow> ConcurrencyQueue \<Rightarrow> ConcurrencyQueue \<times> ConcurrencyEvent list" where
  "remove_each ids q =
     fold (\<lambda>i (q, es). case remove_execution i q of (q', es') \<Rightarrow> (q', es @ es')) ids (q, [])"

definition removeAll_queue :: "ConcurrencyQueue \<Rightarrow> ConcurrencyQueue \<times> ConcurrencyEvent list" where
  "removeAll_queue q = remove_each (getAll q) q"

definition removeAll_executions :: "ConcurrencyControl \<Rightarrow> ConcurrencyControl \<times> ConcurrencyEvent list" where
  "removeAll_executions s =
     (if \<not> isEnabled s then (s, [])
      else (s\<lparr>queues := map (\<lambda>(ty, q). (ty, fst (removeAll_queue q))) (queues s)\<rparr>,
            concat (map (snd \<circ> removeAll_queue \<circ> snd) (queues s))))"

text \<open>Every second of the waiting executions is removed; the others are let through.\<close>

fun every_second :: "'a list \<Rightarrow> 'a list" where
  "every_second (x # y # xs) = y # every_second xs"
| "every_second xs = []"

lemma set_every_second: "set (every_second xs) \<subseteq> set xs"
  by (induction xs rule: every_second.induct) auto

lemma released_append [simp]: "released (a @ b) = released a @ released b"
  by (simp add: released_def)

lemma released_Nil [simp]: "released [] = []"
  by (simp add: released_def)

lemma remove_each_fold:
  "fold (\<lambda>i (q, es). case remove_execution i q of (q', es') \<Rightarrow> (q', es @ es')) ids (q, es0) =
     (fst (remove_each ids q), es0 @ snd (remove_each ids q))"
proof (induction ids arbitrary: q es0)
  case (Cons i ids)
  obtain q1 es1 where r: "remove_execution i q = (q1, es1)" by force
  then show ?case using Cons [of q1 "es0 @ es1"] Cons [of q1 es1] by (simp add: remove_each_def)
qed (simp add: remove_each_def)

lemma remove_each_Cons:
  "remove_each (i # ids) q =
     (fst (remove_each ids (fst (remove_execution i q))),
      snd (remove_execution i q) @ snd (remove_each ids (fst (remove_execution i q))))"
  using remove_each_fold [of ids "fst (remove_execution i q)" "snd (remove_execution i q)"]
  by (simp add: remove_each_def case_prod_unfold)

lemma remove_each_all:
  "cq_queue q = xs \<Longrightarrow> distinct xs \<Longrightarrow>
     cq_queue (fst (remove_each xs q)) = [] \<and> released (snd (remove_each xs q)) = every_second xs"
proof (induction xs arbitrary: q rule: every_second.induct)
  case (1 x y xs)
  let ?q1 = "fst (remove_execution x q)"
  have r: "released (snd (remove_execution x q)) = [y]" "cq_queue ?q1 = xs"
    using remove_releases [of q x y xs] "1.prems" by auto
  have "remove_execution y ?q1 = (?q1, [])" using r(2) "1.prems" by (simp add: remove_execution_def)
  with "1.IH" [of ?q1] r "1.prems" show ?case by (simp add: remove_each_Cons)
qed (simp_all add: remove_each_Cons remove_each_def remove_execution_def resolveNext_def)

lemma fold_set_add_distinct: "distinct xs \<Longrightarrow> set xs \<inter> set ys = {} \<Longrightarrow> fold set_add xs ys = ys @ xs"
  by (induction xs arbitrary: ys) (auto simp: set_add_def)

lemma removeAll_queue_spec:
  assumes "distinct (cq_queue q)"
  shows "cq_queue (fst (removeAll_queue q)) = [] \<and> released (snd (removeAll_queue q)) = every_second (cq_queue q)"
  using remove_each_all [of q "cq_queue q"] assms
  by (simp add: removeAll_queue_def getAll_def set_of_list_def fold_set_add_distinct)

lemma on_queue_frame:
  "map_get (queues (fst (on_queue f mode s))) ty =
     (if isEnabled s \<and> queue_type mode = Some ty then map_option (fst \<circ> f) (map_get (queues s) ty)
      else map_get (queues s) ty)"
  by (auto simp: on_queue_def isUnlimited_def getQueue_def case_prod_unfold split: option.splits)

end
