(* ===== verification/Execution_State.thy ===== *)
theory Execution_State
  imports Workflow_Start
begin

text \<open>
  The state of a running execution of \<open>WorkflowExecute\<close>
  (\<open>packages/core/src/execution-engine/workflow-execute.ts\<close>), the check whether incoming connections
  are empty, and the node helpers of \<open>packages/workflow/src/node-helpers.ts\<close> that the engine calls.

  Evaluation of expressions (\<open>getSimpleParameterValue\<close>) is a parameter.
\<close>

section \<open>The state\<close>

record StartNodeData =
  sn_name :: string
  sn_sourceData :: "ISourceData option"

record StartData =
  destinationNode :: "string option"
  originalDestinationNode :: "string option"
  runNodeFilter :: "string list option"

record ResultData =
  result_error :: "ExecutionError option"
  runData :: IRunData
  pinData :: "IPinData option"
  lastNodeExecuted :: "string option"

type_synonym ITaskMetadata = "(string, json) jsmap"

record ExecutionData =
  contextData :: "(string, json) jsmap"
  nodeExecutionStack :: "IExecuteData list"
  node_metadata :: "(string, ITaskMetadata list) jsmap"
  waitingExecution :: IWaitingForExecution
  waitingExecutionSource :: "IWaitingForExecutionSource option"

record IRunExecutionData =
  startData :: "StartData option"
  resultData :: ResultData
  executionData :: "ExecutionData option"
  waitTill :: "int option"

definition no_start_data :: StartData where
  "no_start_data = \<lparr>destinationNode = None, originalDestinationNode = None, runNodeFilter = None\<rparr>"

definition no_execution_data :: ExecutionData where
  "no_execution_data = \<lparr>contextData = [], nodeExecutionStack = [], node_metadata = [],
     waitingExecution = [], waitingExecutionSource = Some []\<rparr>"

text \<open>The default value of the constructor's third parameter.\<close>

definition new_run_execution_data :: IRunExecutionData where
  "new_run_execution_data =
     \<lparr>startData = Some no_start_data,
      resultData = \<lparr>result_error = None, runData = [], pinData = Some [], lastNodeExecuted = None\<rparr>,
      executionData = Some no_execution_data, waitTill = None\<rparr>"

text \<open>\<open>n || undefined\<close> for a number, and the source of data that a node emitted.\<close>

definition nonzero :: "nat \<Rightarrow> nat option" where
  "nonzero n = (if n = 0 then None else Some n)"

definition emitted_source :: "string \<Rightarrow> nat \<Rightarrow> nat \<Rightarrow> ISourceData" where
  "emitted_source parent output runIndex =
     \<lparr>previousNode = parent, previousNodeOutput = nonzero output, previousNodeRun = nonzero runIndex\<rparr>"

lemma option_nonzero [simp]: "(case nonzero n of None \<Rightarrow> 0 | Some k \<Rightarrow> k) = n"
  by (simp add: nonzero_def)

section \<open>Ports of node types\<close>

type_synonym port_eval = "INode \<Rightarrow> string \<Rightarrow> (js_error + port list option)"

definition getConnectionTypes :: "port list \<Rightarrow> NodeConnectionType list" where
  "getConnectionTypes ps = map (\<lambda>p. case p of PortName t \<Rightarrow> t | PortConfig t _ _ \<Rightarrow> t) ps"

definition getNodeInputs :: "port_eval \<Rightarrow> INode \<Rightarrow> INodeType \<Rightarrow> port list" where
  "getNodeInputs eval node nodeTypeData =
     (case nt_inputs nodeTypeData of PortList ps \<Rightarrow> ps
      | PortExpression e \<Rightarrow> (case eval node e of Inr (Some ps) \<Rightarrow> ps | _ \<Rightarrow> []))"

definition getNodeOutputs :: "port_eval \<Rightarrow> INode \<Rightarrow> INodeType \<Rightarrow> port list" where
  "getNodeOutputs eval node nodeTypeData =
     (let outputs = (case nt_outputs nodeTypeData of PortList ps \<Rightarrow> ps
            | PortExpression e \<Rightarrow> (case eval node e of Inr (Some ps) \<Rightarrow> ps | _ \<Rightarrow> []))
      in if onError node = Some ContinueErrorOutput then
           (case outputs of
              [p] \<Rightarrow> [case p of PortName t \<Rightarrow> PortConfig t None (Some ''Success'')
                       | PortConfig t cat _ \<Rightarrow> PortConfig t cat (Some ''Success'')]
            | _ \<Rightarrow> outputs) @ [PortConfig Main (Some ''error'') (Some ''Error'')]
         else outputs)"

definition isExecutable :: "port_eval \<Rightarrow> INode \<Rightarrow> INodeType \<Rightarrow> bool" where
  "isExecutable eval node nodeTypeData =
     (let outputNames = getConnectionTypes (getNodeOutputs eval node nodeTypeData)
      in Main \<in> set outputNames \<or> AiTool \<in> set outputNames \<or> isTriggerNode nodeTypeData)"

definition str_includes :: "string \<Rightarrow> string \<Rightarrow> bool" where
  "str_includes s sub = list_ex (\<lambda>n. take (length sub) (drop n s) = sub) [0..<Suc (length s)]"

text \<open>
  The loop looks at the first element only if it is a string, so an array of names is decided by
  its first name. Iterating over an expression string compares its first character.
\<close>

fun tool_ports :: "port list \<Rightarrow> bool" where
  "tool_ports [] = False"
| "tool_ports (PortName t # ps) = (t = AiTool)"
| "tool_ports (PortConfig t _ _ # ps) = (if t = AiTool then True else tool_ports ps)"

definition isTool :: "INodeType \<Rightarrow> INodeParameters \<Rightarrow> bool" where
  "isTool nodeTypeDescription ps =
     (if str_includes (nt_name nodeTypeDescription) ''vectorStore''
      then map_get ps ''mode'' = Some (JStr ''retrieve-as-tool'')
      else (case nt_outputs nodeTypeDescription of PortList outs \<Rightarrow> tool_ports outs
            | PortExpression e \<Rightarrow> False))"

text \<open>A node with an error output has it as its last Main output, after those of its type.\<close>

lemma getNodeOutputs_types:
  "getConnectionTypes (getNodeOutputs eval node ty) =
     getConnectionTypes (getNodeOutputs eval (node\<lparr>onError := None\<rparr>) ty)
       @ (if onError node = Some ContinueErrorOutput then [Main] else [])"
  if "eval (node\<lparr>onError := None\<rparr>) = eval node"
  using that
  by (auto simp: getNodeOutputs_def getConnectionTypes_def Let_def
      split: node_ports.splits sum.splits option.splits list.splits port.splits)

section \<open>Incoming data\<close>

text \<open>lodash's \<open>get\<close> along a path of run data; any missing step gives \<open>undefined\<close>.\<close>

definition output_cell :: "IRunData \<Rightarrow> string \<Rightarrow> nat \<Rightarrow> NodeConnectionType \<Rightarrow> nat \<Rightarrow> items cell" where
  "output_cell rd n runIndex ty i =
     (case map_get rd n of None \<Rightarrow> Hole
      | Some tasks \<Rightarrow> (case arr_get tasks runIndex of None \<Rightarrow> Hole
        | Some task \<Rightarrow> (case task_data task of None \<Rightarrow> Hole
          | Some d \<Rightarrow> (case map_get d ty of None \<Rightarrow> Hole | Some outs \<Rightarrow> cell_get outs i))))"

text \<open>
  An output that is \<open>null\<close> is not \<open>undefined\<close>, and reading its length throws.
\<close>

fun incomingConnectionIsEmpty :: "IRunData \<Rightarrow> IConnection list \<Rightarrow> nat \<Rightarrow> bool result" where
  "incomingConnectionIsEmpty rd [] runIndex = Inr True"
| "incomingConnectionIsEmpty rd (inputConnection # rest) runIndex =
     (case output_cell rd (conn_node inputConnection) runIndex Main (conn_index inputConnection) of
        Hole \<Rightarrow> incomingConnectionIsEmpty rd rest runIndex
      | Null \<Rightarrow> Inl TypeError
      | Val its \<Rightarrow> if its \<noteq> [] then Inr False else incomingConnectionIsEmpty rd rest runIndex)"

lemma incomingConnectionIsEmpty_spec:
  assumes "\<And>c. c \<in> set cs \<Longrightarrow> output_cell rd (conn_node c) r Main (conn_index c) \<noteq> Null"
  shows "incomingConnectionIsEmpty rd cs r =
    Inr (\<forall>c \<in> set cs. cell_list (output_cell rd (conn_node c) r Main (conn_index c)) = [])"
  using assms
proof (induction cs)
  case (Cons c cs)
  then show ?case by (cases "output_cell rd (conn_node c) r Main (conn_index c)") auto
qed simp

end
