(* ===== verification/Execution_Items.thy ===== *)
theory Execution_Items
  imports Execution_State
begin

text \<open>
  What \<open>WorkflowExecute\<close> does to items around the run of a node: it numbers the input items, pairs
  output items with input items (\<open>assignPairedItems\<close>), moves failed items to the error output
  (\<open>handleNodeErrorOutput\<close>), and merges error information into the items. The outputs of a node
  are an array whose slots may be \<open>null\<close> or missing.
\<close>

type_synonym outputs = "items cell list"

section \<open>Values\<close>

primrec json_truthy :: "json \<Rightarrow> bool" where
  "json_truthy JUndefined = False"
| "json_truthy JNull = False"
| "json_truthy (JBool b) = b"
| "json_truthy (JNum n) = (n \<noteq> 0)"
| "json_truthy (JStr s) = (s \<noteq> [])"
| "json_truthy (JArr xs) = True"
| "json_truthy (JObj ps) = True"

text \<open>A property of an object, \<open>undefined\<close> if it is missing.\<close>

definition obj_get :: "(string, json) jsmap \<Rightarrow> string \<Rightarrow> json" where
  "obj_get m k = (case map_get m k of None \<Rightarrow> JUndefined | Some v \<Rightarrow> v)"

text \<open>Reading a property of \<open>undefined\<close> or \<open>null\<close> throws.\<close>

fun json_prop :: "json \<Rightarrow> string \<Rightarrow> json result" where
  "json_prop JUndefined k = Inl TypeError"
| "json_prop JNull k = Inl TypeError"
| "json_prop (JObj m) k = Inr (obj_get m k)"
| "json_prop _ k = Inr JUndefined"

text \<open>\<open>{ ...a, ...b }\<close>.\<close>

definition spread :: "('k, 'v) jsmap \<Rightarrow> ('k, 'v) jsmap \<Rightarrow> ('k, 'v) jsmap" where
  "spread a b = fold (\<lambda>(k, v). map_set k v) b a"

lemma map_of_rev_wf: "map_wf m \<Longrightarrow> map_of (rev m) = map_of m"
proof
  fix k assume wf: "map_wf m"
  then have "map_wf (rev m)" by (simp add: map_wf_def rev_map [symmetric])
  with wf have "map_of (rev m) k = Some v \<longleftrightarrow> map_of m k = Some v" for v
    by (simp add: map_wf_get_iff)
  then show "map_of (rev m) k = map_of m k" by (metis option.exhaust)
qed

lemma map_get_spread:
  "map_wf b \<Longrightarrow> map_get (spread a b) k = (case map_get b k of None \<Rightarrow> map_get a k | Some v \<Rightarrow> Some v)"
  unfolding spread_def jsm.lookup_fold_update by (simp add: map_of_rev_wf)

section \<open>Input items\<close>

text \<open>Each input item is paired with its own position before the node runs.\<close>

definition number_items :: "nat \<Rightarrow> items \<Rightarrow> items" where
  "number_items ii its =
     map (\<lambda>(i, item). item\<lparr>pairedItem :=
        Some (PairedOne \<lparr>paired_item = i, paired_input = nonzero ii, sourceOverwrite = None\<rparr>)\<rparr>)
       (enumerate 0 its)"

definition update_paired_items :: "ITaskDataConnections \<Rightarrow> ITaskDataConnections" where
  "update_paired_items d =
     map (\<lambda>(ty, ins). (ty, map (\<lambda>(ii, c). case c of Val its \<Rightarrow> Val (number_items ii its) | _ \<Rightarrow> c)
       (enumerate 0 ins))) d"

section \<open>Paired items of outputs\<close>

text \<open>\<open>executionData.data.main\<close>, whose properties cannot be read if it is missing.\<close>

definition main_data :: "IExecuteData \<Rightarrow> items cell list result" where
  "main_data ed = (case map_get (exec_data ed) Main of None \<Rightarrow> Inl TypeError | Some m \<Rightarrow> Inr m)"

definition paired_with :: "nat \<Rightarrow> paired_item_info" where
  "paired_with i = PairedOne \<lparr>paired_item = i, paired_input = None, sourceOverwrite = None\<rparr>"

text \<open>The loop over the items of one output; the flag tells that it left both loops.\<close>

fun pair_items :: "bool \<Rightarrow> bool \<Rightarrow> nat \<Rightarrow> items \<Rightarrow> items \<times> bool" where
  "pair_items single same i [] = ([], False)"
| "pair_items single same i (item # rest) =
     (if pairedItem item \<noteq> None then (let (r, broke) = pair_items single same (Suc i) rest in (item # r, broke))
      else if single then
        (let (r, broke) = pair_items single same (Suc i) rest
         in (item\<lparr>pairedItem := Some (paired_with 0)\<rparr> # r, broke))
      else if same then
        (let (r, broke) = pair_items single same (Suc i) rest
         in (item\<lparr>pairedItem := Some (paired_with i)\<rparr> # r, broke))
      else (item # rest, True))"

fun pair_outputs :: "bool \<Rightarrow> bool \<Rightarrow> outputs \<Rightarrow> outputs result" where
  "pair_outputs single same [] = Inr []"
| "pair_outputs single same (Null # rest) = bind_res (pair_outputs single same rest) (\<lambda>r. Inr (Null # r))"
| "pair_outputs single same (Hole # rest) = Inl TypeError"
| "pair_outputs single same (Val its # rest) =
     (let (its', broke) = pair_items single same 0 its
      in if broke then Inr (Val its' # rest)
         else bind_res (pair_outputs single same rest) (\<lambda>r. Inr (Val its' # r)))"

text \<open>\<open>main.length === 1 && main[0]?.length === 1\<close>, and the same with the length of the only output.\<close>

definition cell_length :: "'a list cell \<Rightarrow> nat option" where
  "cell_length c = map_option length (cell_val c)"

definition isSingleInputAndOutput :: "items cell list \<Rightarrow> bool" where
  "isSingleInputAndOutput main = (length main = 1 \<and> cell_length (cell_get main 0) = Some 1)"

definition isSameNumberOfItems :: "outputs \<Rightarrow> items cell list \<Rightarrow> bool result" where
  "isSameNumberOfItems outs main =
     (if length outs = 1 \<and> length main = 1 then
        (case cell_length (cell_get outs 0) of None \<Rightarrow> Inl TypeError
         | Some n \<Rightarrow> Inr (cell_length (cell_get main 0) = Some n))
      else Inr False)"

definition assignPairedItems ::
  "outputs cell \<Rightarrow> IExecuteData \<Rightarrow> ResultData \<Rightarrow> (outputs cell \<times> ResultData) result" where
  "assignPairedItems nodeSuccessData ed res =
     (case nodeSuccessData of
        Hole \<Rightarrow> Inr (Null, res)
      | Null \<Rightarrow> Inr (Null, res\<lparr>lastNodeExecuted := Some (node_name (exec_node ed))\<rparr>)
      | Val outs \<Rightarrow>
          bind_res (if outs = [] then Inr []
            else bind_res (main_data ed) (\<lambda>main.
              bind_res (isSameNumberOfItems outs main) (\<lambda>same.
                pair_outputs (isSingleInputAndOutput main) same outs)))
          (\<lambda>outs'. Inr (Val outs', res\<lparr>lastNodeExecuted := Some (node_name (exec_node ed))\<rparr>)))"

lemma pair_items_fixed:
  "pair_items False False i its = (its, \<exists>item \<in> set its. pairedItem item = None)"
  by (induction its arbitrary: i) (auto simp: Let_def)

lemma pair_items_assigned:
  "single \<or> same \<Longrightarrow> pair_items single same i its =
     (map (\<lambda>(j, item). case pairedItem item of Some p \<Rightarrow> item
        | None \<Rightarrow> item\<lparr>pairedItem := Some (paired_with (if single then 0 else j))\<rparr>) (enumerate i its), False)"
  by (induction its arbitrary: i) (auto simp: Let_def split: option.splits)

lemma pair_outputs_fixed: "Hole \<notin> set outs \<Longrightarrow> pair_outputs False False outs = Inr outs"
proof (induction outs)
  case (Cons c outs)
  then show ?case by (cases c) (auto simp: pair_items_fixed)
qed simp

text \<open>The pairing an output item ends with.\<close>

definition expected_pairing ::
  "items cell list \<Rightarrow> outputs \<Rightarrow> nat \<Rightarrow> INodeExecutionData \<Rightarrow> INodeExecutionData" where
  "expected_pairing main outs i item =
     (if pairedItem item \<noteq> None then item
      else if isSingleInputAndOutput main then item\<lparr>pairedItem := Some (paired_with 0)\<rparr>
      else if isSameNumberOfItems outs main = Inr True then item\<lparr>pairedItem := Some (paired_with i)\<rparr>
      else item)"

lemma pair_outputs_assigned:
  assumes "single \<or> same" "list_all (\<lambda>c. \<exists>its. c = Val its) outs"
  shows "pair_outputs single same outs = Inr (map (\<lambda>c. Val (map (\<lambda>(j, item). case pairedItem item of
      Some p \<Rightarrow> item | None \<Rightarrow> item\<lparr>pairedItem := Some (paired_with (if single then 0 else j))\<rparr>)
      (enumerate 0 (cell_list c)))) outs)"
  using assms(2)
proof (induction outs)
  case (Cons c outs)
  then obtain its where "c = Val its" by auto
  with Cons show ?case by (simp add: pair_items_assigned [OF assms(1)])
qed simp

lemma map_enumerate_id: "map (\<lambda>(j, item). item) (enumerate n xs) = xs"
  by (induction xs arbitrary: n) auto

lemma assignPairedItems_spec:
  assumes main: "map_get (exec_data ed) Main = Some main"
    and outs: "list_all (\<lambda>c. \<exists>its. c = Val its) outs"
  shows "assignPairedItems (Val outs) ed res =
    Inr (Val (map (\<lambda>c. Val (map (\<lambda>(i, item). expected_pairing main outs i item) (enumerate 0 (cell_list c)))) outs),
      res\<lparr>lastNodeExecuted := Some (node_name (exec_node ed))\<rparr>)"
proof -
  have "\<exists>same. isSameNumberOfItems outs main = Inr same"
    using outs
    by (cases outs; cases "length outs = 1 \<and> length main = 1")
      (auto simp: isSameNumberOfItems_def cell_length_def cell_get_def)
  then obtain same where same: "isSameNumberOfItems outs main = Inr same" by blast
  have "pair_outputs (isSingleInputAndOutput main) same outs =
      Inr (map (\<lambda>c. Val (map (\<lambda>(i, item). expected_pairing main outs i item) (enumerate 0 (cell_list c)))) outs)"
  proof (cases "isSingleInputAndOutput main \<or> same")
    case True
    then show ?thesis
      unfolding pair_outputs_assigned [OF True outs]
      by (auto simp: expected_pairing_def same fun_eq_iff split: option.splits)
  next
    case False
    have "Hole \<notin> set outs" using outs by (auto simp: list_all_iff)
    with False have "pair_outputs (isSingleInputAndOutput main) same outs = Inr outs"
      by (simp add: pair_outputs_fixed)
    moreover have "expected_pairing main outs i item = item" for i item
      using False by (simp add: expected_pairing_def same)
    moreover have "map (\<lambda>c. Val (cell_list c)) outs = outs"
      using outs by (intro map_idI) (auto simp: list_all_iff)
    ultimately show ?thesis by (simp add: map_enumerate_id)
  qed
  with main same show ?thesis by (simp add: assignPairedItems_def main_data_def)
qed

section \<open>Error output\<close>

definition item_error_value :: "INodeExecutionData \<Rightarrow> json" where
  "item_error_value item = (case item_error item of None \<Rightarrow> JUndefined | Some e \<Rightarrow> e)"

text \<open>The error data of an item and the item itself, whose \<open>error\<close> is reset if it was the error data.\<close>

definition error_data :: "INodeExecutionData \<Rightarrow> json \<times> INodeExecutionData" where
  "error_data item =
     (let j = item_json item; e = obj_get j ''error''
      in if json_truthy (item_error_value item) then (item_error_value item, item\<lparr>item_error := None\<rparr>)
         else if json_truthy e \<and> length j = 1 then (e, item)
         else if json_truthy e \<and> json_truthy (obj_get j ''message'') \<and> length j = 2 then (e, item)
         else (JUndefined, item))"

definition is_error_item :: "INodeExecutionData \<Rightarrow> bool" where
  "is_error_item item = json_truthy (fst (error_data item))"

definition paired_data :: "INodeExecutionData \<Rightarrow> IPairedItemData option" where
  "paired_data item =
     (case pairedItem item of Some (PairedOne p) \<Rightarrow> Some p | Some (PairedMany (p # ps)) \<Rightarrow> Some p | _ \<Rightarrow> None)"

type_synonym paired_lookup = "string \<Rightarrow> ISourceData \<Rightarrow> IPairedItemData \<Rightarrow> (ExecutionError + INodeExecutionData option)"

definition error_item ::
  "(js_error \<Rightarrow> ExecutionError) \<Rightarrow> paired_lookup \<Rightarrow> ITaskDataConnectionsSource option \<Rightarrow> INodeExecutionData
     \<Rightarrow> ExecutionError + INodeExecutionData" where
  "error_item error_object getPairedItem source item =
     (case (source, paired_data item) of
        (Some src, Some pd) \<Rightarrow>
          (case map_get src Main of None \<Rightarrow> Inl (error_object TypeError)
           | Some cells \<Rightarrow>
               (case cell_get cells (case paired_input pd of None \<Rightarrow> 0 | Some i \<Rightarrow> i) of
                  Val sourceData \<Rightarrow>
                    bind_res (getPairedItem (previousNode sourceData) sourceData pd) (\<lambda>r.
                      case r of None \<Rightarrow> Inr item
                      | Some constPairedItem \<Rightarrow>
                          Inr (item\<lparr>item_json := spread (item_json constPairedItem) (item_json item)\<rparr>))
                | _ \<Rightarrow> Inl (error_object TypeError)))
      | _ \<Rightarrow> Inr item)"

fun split_items ::
  "(js_error \<Rightarrow> ExecutionError) \<Rightarrow> paired_lookup \<Rightarrow> ITaskDataConnectionsSource option \<Rightarrow> items
     \<Rightarrow> ExecutionError + items \<times> items" where
  "split_items error_object getPairedItem source [] = Inr ([], [])"
| "split_items error_object getPairedItem source (item # rest) =
     (let (errorData, item') = error_data item
      in if json_truthy errorData then
           bind_res (error_item error_object getPairedItem source item') (\<lambda>e.
             bind_res (split_items error_object getPairedItem source rest) (\<lambda>(ok, errs). Inr (ok, e # errs)))
         else bind_res (split_items error_object getPairedItem source rest) (\<lambda>(ok, errs). Inr (item' # ok, errs)))"

text \<open>One output of the node: its failed items join the error items, the others stay.\<close>

definition split_output ::
  "(js_error \<Rightarrow> ExecutionError) \<Rightarrow> paired_lookup \<Rightarrow> ITaskDataConnectionsSource option \<Rightarrow> outputs \<times> items
     \<Rightarrow> nat \<Rightarrow> ExecutionError + outputs \<times> items" where
  "split_output error_object getPairedItem source st i =
     (case st of (outs, errorItems) \<Rightarrow>
        bind_res (split_items error_object getPairedItem source (cell_list (cell_get outs i)))
          (\<lambda>(successItems, errs). Inr (cell_set outs i (Val successItems), errorItems @ errs)))"

text \<open>
  Writing at index \<open>-1\<close>, for a node without Main outputs, sets a property of the array object
  and no element.
\<close>

definition handleNodeErrorOutput ::
  "(js_error \<Rightarrow> ExecutionError) \<Rightarrow> port_eval \<Rightarrow> paired_lookup \<Rightarrow> INodeTypes \<Rightarrow> IExecuteData \<Rightarrow> outputs
     \<Rightarrow> ExecutionError + outputs" where
  "handleNodeErrorOutput error_object eval getPairedItem nodeTypes ed nodeSuccessData =
     (case nodeTypes (node_type (exec_node ed)) (typeVersion (exec_node ed)) of
        None \<Rightarrow> Inl (error_object TypeError)
      | Some nodeType \<Rightarrow>
          (let n = length (filter (\<lambda>t. t = Main) (getConnectionTypes (getNodeOutputs eval (exec_node ed) nodeType)))
           in bind_res
                (fold_res (split_output error_object getPairedItem (exec_source ed))
                   (nodeSuccessData, []) [0..<n - 1])
                (\<lambda>(outs, errorItems). Inr (if n = 0 then outs else cell_set outs (n - 1) (Val errorItems)))))"

text \<open>What the error output holds of a failed item: its own data, with the data of the paired item below it.\<close>

definition error_item_of :: "INodeExecutionData \<Rightarrow> INodeExecutionData \<Rightarrow> bool" where
  "error_item_of item e =
     ((\<exists>base. item_json e = (case base of None \<Rightarrow> item_json item | Some b \<Rightarrow> spread b (item_json item)))
      \<and> pairedItem e = pairedItem item \<and> item_binary e = item_binary item
      \<and> \<not> json_truthy (item_error_value e))"

lemma error_data_fields:
  "error_data item = (d, item') \<Longrightarrow> item_json item' = item_json item \<and> pairedItem item' = pairedItem item
     \<and> item_binary item' = item_binary item \<and> \<not> json_truthy (item_error_value item')
     \<and> (\<not> json_truthy d \<longrightarrow> item' = item)"
  by (auto simp: error_data_def Let_def item_error_value_def split: if_splits)

lemma error_item_cases:
  assumes "error_item eo gp src item = Inr e"
  shows "e = item \<or> (\<exists>b. e = item\<lparr>item_json := spread b (item_json item)\<rparr>)"
  using assms unfolding error_item_def
  by (auto simp: bind_res_eq_Inr split: option.splits cell.splits)

lemma error_item_spec:
  assumes "error_item eo gp src item' = Inr e" "error_data item = (d, item')"
  shows "error_item_of item e"
proof -
  note f = error_data_fields [OF assms(2)]
  from error_item_cases [OF assms(1)] consider "e = item'"
    | b where "e = item'\<lparr>item_json := spread b (item_json item')\<rparr>" by blast
  then show ?thesis
  proof cases
    case 1
    with f show ?thesis unfolding error_item_of_def by (metis option.case(1))
  next
    case (2 b)
    then have "item_json e = (case Some b of None \<Rightarrow> item_json item | Some b \<Rightarrow> spread b (item_json item))"
      using f by simp
    then have "\<exists>base. item_json e = (case base of None \<Rightarrow> item_json item | Some b \<Rightarrow> spread b (item_json item))"
      by blast
    with 2 f show ?thesis unfolding error_item_of_def by (simp add: item_error_value_def)
  qed
qed

lemma split_items_spec:
  "split_items eo gp src its = Inr (ok, errs) \<Longrightarrow>
     ok = filter (\<lambda>i. \<not> is_error_item i) its \<and> list_all2 error_item_of (filter is_error_item its) errs"
proof (induction its arbitrary: ok errs)
  case (Cons item its)
  obtain d item' where d: "error_data item = (d, item')" by (cases "error_data item")
  show ?case
  proof (cases "json_truthy d")
    case True
    with Cons.prems d obtain e ok' errs' where
      "error_item eo gp src item' = Inr e" "split_items eo gp src its = Inr (ok', errs')" "ok = ok'" "errs = e # errs'"
      by (auto simp: bind_res_eq_Inr)
    with Cons.IH [of ok' errs'] error_item_spec [OF _ d] True d show ?thesis by (simp add: is_error_item_def)
  next
    case False
    with Cons.prems d obtain ok' where "split_items eo gp src its = Inr (ok', errs)" "ok = item' # ok'"
      by (auto simp: bind_res_eq_Inr)
    with Cons.IH [of ok' errs] error_data_fields [OF d] False d show ?thesis by (simp add: is_error_item_def)
  qed
qed simp

lemma error_loop_spec:
  assumes "fold_res (split_output eo gp src) (outs, []) [0..<n] = Inr (outs', es)"
  shows "(\<forall>i<n. cell_get outs' i = Val (filter (\<lambda>x. \<not> is_error_item x) (cell_list (cell_get outs i))))
    \<and> (\<forall>i\<ge>n. cell_get outs' i = cell_get outs i)
    \<and> list_all2 error_item_of (concat (map (\<lambda>i. filter is_error_item (cell_list (cell_get outs i))) [0..<n])) es"
  using assms
proof (induction n arbitrary: outs' es)
  case (Suc n)
  from Suc.prems obtain outs1 es1 where 1: "fold_res (split_output eo gp src) (outs, []) [0..<n] = Inr (outs1, es1)"
    "split_output eo gp src (outs1, es1) n = Inr (outs', es)"
    by (auto simp: fold_res_append bind_res_eq_Inr)
  then obtain ok errs where st: "fold_res (split_output eo gp src) (outs, []) [0..<n] = Inr (outs1, es1)"
    "split_items eo gp src (cell_list (cell_get outs1 n)) = Inr (ok, errs)"
    "outs' = cell_set outs1 n (Val ok)" "es = es1 @ errs"
    by (auto simp: split_output_def bind_res_eq_Inr)
  note IH = Suc.IH [OF st(1)] and sp = split_items_spec [OF st(2)]
  have n: "cell_get outs1 n = cell_get outs n" using IH by simp
  have "list_all2 error_item_of (concat (map (\<lambda>i. filter is_error_item (cell_list (cell_get outs i))) [0..<Suc n])) es"
    using IH sp unfolding st(4) n by (simp add: list_all2_appendI)
  moreover have "cell_get outs' i = Val (filter (\<lambda>x. \<not> is_error_item x) (cell_list (cell_get outs i)))" if "i < Suc n" for i
    using IH sp that unfolding st(3) n by (cases "i = n") auto
  ultimately show ?case using IH unfolding st(3) by simp
qed simp

definition main_outputs :: "port_eval \<Rightarrow> INodeTypes \<Rightarrow> INode \<Rightarrow> nat" where
  "main_outputs eval nts node =
     (case nts (node_type node) (typeVersion node) of None \<Rightarrow> 0
      | Some ty \<Rightarrow> length (filter (\<lambda>t. t = Main) (getConnectionTypes (getNodeOutputs eval node ty))))"

lemma main_outputs_error:
  "onError node = Some ContinueErrorOutput \<Longrightarrow> nts (node_type node) (typeVersion node) = Some ty \<Longrightarrow>
     0 < main_outputs eval nts node"
  by (simp add: main_outputs_def getNodeOutputs_def getConnectionTypes_def Let_def)

lemma handleNodeErrorOutput_spec:
  assumes run: "handleNodeErrorOutput eo eval gp nts ed outs = Inr outs'"
    and err: "onError (exec_node ed) = Some ContinueErrorOutput"
  defines "n \<equiv> main_outputs eval nts (exec_node ed)"
  shows "(\<forall>i<n - 1. cell_get outs' i = Val (filter (\<lambda>x. \<not> is_error_item x) (cell_list (cell_get outs i))))
    \<and> (\<exists>es. cell_get outs' (n - 1) = Val es
         \<and> list_all2 error_item_of (concat (map (\<lambda>i. filter is_error_item (cell_list (cell_get outs i))) [0..<n - 1])) es)
    \<and> (\<forall>i\<ge>n. cell_get outs' i = cell_get outs i)"
proof -
  obtain ty where ty: "nts (node_type (exec_node ed)) (typeVersion (exec_node ed)) = Some ty"
    using run by (auto simp: handleNodeErrorOutput_def split: option.splits)
  have n: "n = length (filter (\<lambda>t. t = Main) (getConnectionTypes (getNodeOutputs eval (exec_node ed) ty)))" "0 < n"
    using ty main_outputs_error [where nts = nts, OF err ty] by (simp_all add: n_def main_outputs_def)
  obtain outs1 es where st: "fold_res (split_output eo gp (exec_source ed)) (outs, []) [0..<n - 1] = Inr (outs1, es)" "outs' = cell_set outs1 (n - 1) (Val es)"
    using run ty n by (auto simp: handleNodeErrorOutput_def Let_def bind_res_eq_Inr)
  from error_loop_spec [OF st(1)] n(2) show ?thesis unfolding st(2) by auto
qed

section \<open>Items after the run\<close>

definition merge_error_item :: "INodeExecutionData \<Rightarrow> INodeExecutionData result" where
  "merge_error_item lineResult =
     (let e = obj_get (item_json lineResult) ''$error''
      in if e \<noteq> JUndefined \<and> obj_get (item_json lineResult) ''$json'' \<noteq> JUndefined then
           bind_res (json_prop e ''message'') (\<lambda>m.
             Inr (lineResult\<lparr>item_error := Some e, item_json := [(''error'', m)]\<rparr>))
         else if item_error_value lineResult \<noteq> JUndefined then
           bind_res (json_prop (item_error_value lineResult) ''message'') (\<lambda>m.
             Inr (lineResult\<lparr>item_json := [(''error'', m)]\<rparr>))
         else Inr lineResult)"

fun merge_output :: "items cell \<Rightarrow> items cell result" where
  "merge_output (Val its) = bind_res (map_res merge_error_item its) (\<lambda>r. Inr (Val r))"
| "merge_output _ = Inl TypeError"

definition merge_errors :: "outputs cell \<Rightarrow> outputs result" where
  "merge_errors nodeSuccessData =
     (case nodeSuccessData of Val outs \<Rightarrow> map_res merge_output outs | _ \<Rightarrow> Inl TypeError)"

text \<open>The single item of a node that always outputs data, paired with every input item.\<close>

definition always_output_item :: "items cell list \<Rightarrow> INodeExecutionData" where
  "always_output_item main =
     (json_item [])\<lparr>pairedItem := Some (PairedMany (concat (map (\<lambda>(ii, c).
        map (\<lambda>i. \<lparr>paired_item = i, paired_input = Some ii, sourceOverwrite = None\<rparr>)
          [0..<length (cell_list c)]) (enumerate 0 main))))\<rparr>"

definition first_item :: "outputs cell \<Rightarrow> INodeExecutionData option" where
  "first_item d = (case d of Val outs \<Rightarrow> (case cell_get outs 0 of Val its \<Rightarrow> arr_get its 0 | _ \<Rightarrow> None) | _ \<Rightarrow> None)"

definition ensure_output :: "outputs cell \<Rightarrow> IExecuteData \<Rightarrow> outputs cell result" where
  "ensure_output nodeSuccessData ed =
     (if first_item nodeSuccessData = None \<and> alwaysOutputData (exec_node ed) = Some True then
        bind_res (main_data ed) (\<lambda>main.
          Inr (Val (cell_set (case nodeSuccessData of Val outs \<Rightarrow> outs | _ \<Rightarrow> []) 0
            (Val [always_output_item main]))))
      else Inr nodeSuccessData)"

text \<open>\<open>nodeSuccessData?.[0]?.[0]?.json?.error !== undefined\<close>.\<close>

definition did_continue_on_fail :: "outputs cell \<Rightarrow> bool" where
  "did_continue_on_fail d =
     (case first_item d of None \<Rightarrow> False | Some item \<Rightarrow> obj_get (item_json item) ''error'' \<noteq> JUndefined)"

text \<open>The input of a node that executes once: the first item of each input.\<close>

definition first_items_only :: "ITaskDataConnections \<Rightarrow> ITaskDataConnections" where
  "first_items_only d =
     map (\<lambda>(ty, ins). (ty, map (\<lambda>c. case c of Val its \<Rightarrow> Val (take 1 its) | _ \<Rightarrow> c) ins)) d"

end
