(* ===== verification/Execution_Scheduling.thy ===== *)
theory Execution_Scheduling
  imports Execution_Items
begin

text \<open>
  How \<open>WorkflowExecute\<close> decides which node runs next: \<open>prepareWaitingToExecution\<close>,
  \<open>addNodeToBeExecuted\<close> and the search for a waiting node that may run although some of its
  inputs never got data.

  A node with one input goes to the stack as soon as a parent emits data; a node with several
  inputs collects its data in an entry of \<open>waitingExecution\<close>, with the sources in the entry of
  the same run index of \<open>waitingExecutionSource\<close>, and goes to the stack when no input is
  missing. The invariant \<open>waiting_ok\<close> says what these entries look like, and \<open>pending\<close> is the
  abstract view of them.

  The objects with run indexes as keys (the code creates some of them as arrays) are maps from
  numbers whose keys are enumerated in ascending order.
\<close>

section \<open>Waiting data\<close>

type_synonym 'v waiting = "(string, (nat, (NodeConnectionType, 'v cell list) jsmap) jsmap) jsmap"

definition run_entries :: "'v waiting \<Rightarrow> string \<Rightarrow> (nat, (NodeConnectionType, 'v cell list) jsmap) jsmap" where
  "run_entries m n = (case map_get m n of None \<Rightarrow> [] | Some es \<Rightarrow> es)"

definition entry_put :: "string \<Rightarrow> nat \<Rightarrow> (NodeConnectionType, 'v cell list) jsmap \<Rightarrow> 'v waiting \<Rightarrow> 'v waiting" where
  "entry_put n i e m = map_set n (map_set i e (run_entries m n)) m"

text \<open>\<open>m[n][i].main\<close>.\<close>

definition entry_main :: "'v waiting \<Rightarrow> string \<Rightarrow> nat \<Rightarrow> 'v cell list option" where
  "entry_main m n i =
     (case map_get (run_entries m n) i of None \<Rightarrow> None | Some e \<Rightarrow> map_get e Main)"

text \<open>\<open>m[n][i].main[j] = v\<close>.\<close>

definition set_input :: "string \<Rightarrow> nat \<Rightarrow> nat \<Rightarrow> 'v cell \<Rightarrow> 'v waiting \<Rightarrow> 'v waiting result" where
  "set_input n i j v m =
     (case map_get (run_entries m n) i of None \<Rightarrow> Inl TypeError
      | Some e \<Rightarrow> (case map_get e Main of None \<Rightarrow> Inl TypeError
        | Some arr \<Rightarrow> Inr (entry_put n i (map_set Main (cell_set arr j v) e) m)))"

definition sources :: "ExecutionData \<Rightarrow> IWaitingForExecutionSource" where
  "sources ed = (case waitingExecutionSource ed of None \<Rightarrow> [] | Some s \<Rightarrow> s)"

definition prepareWaitingToExecution :: "string \<Rightarrow> nat \<Rightarrow> nat \<Rightarrow> ExecutionData \<Rightarrow> ExecutionData" where
  "prepareWaitingToExecution nodeName numberOfConnections runIndex ed =
     ed\<lparr>waitingExecution :=
          entry_put nodeName runIndex [(Main, replicate numberOfConnections Null)] (waitingExecution ed),
        waitingExecutionSource := Some
          (entry_put nodeName runIndex [(Main, replicate numberOfConnections Null)] (sources ed))\<rparr>"

section \<open>Scheduling a node\<close>

definition is_v1 :: "Workflow \<Rightarrow> bool" where
  "is_v1 w = (map_get (settings w) ''executionOrder'' = Some (JStr ''v1''))"

definition forceInputNodeExecution :: "Workflow \<Rightarrow> bool" where
  "forceInputNodeExecution w = (\<not> is_v1 w)"

text \<open>\<open>unshift\<close> in the order \<open>v1\<close>, \<open>push\<close> in the older one.\<close>

definition enqueue_entry :: "Workflow \<Rightarrow> IExecuteData \<Rightarrow> ExecutionData \<Rightarrow> ExecutionData" where
  "enqueue_entry w e ed =
     ed\<lparr>nodeExecutionStack :=
       (if is_v1 w then e # nodeExecutionStack ed else nodeExecutionStack ed @ [e])\<rparr>"

text \<open>
  A node that is not in the workflow: the entry would hold \<open>undefined\<close>, and the first read of
  one of its properties throws.
\<close>

definition the_node :: "Workflow \<Rightarrow> string \<Rightarrow> INode result" where
  "the_node w n = (case getNode w n of None \<Rightarrow> Inl TypeError | Some node \<Rightarrow> Inr node)"

text \<open>The first waiting entry, by ascending run index, that has no data for the input.\<close>

fun find_missing :: "nat \<Rightarrow> (nat \<times> ITaskDataConnections) list \<Rightarrow> nat option result" where
  "find_missing ci [] = Inr None"
| "find_missing ci ((i, e) # rest) =
     (case map_get e Main of None \<Rightarrow> Inl TypeError
      | Some arr \<Rightarrow> (case cell_get arr ci of Val _ \<Rightarrow> find_missing ci rest | _ \<Rightarrow> Inr (Some i)))"

text \<open>The waiting entry the data goes to, and whether it has to be created.\<close>

definition choose_waiting_index :: "nat \<Rightarrow> (nat, ITaskDataConnections) jsmap \<Rightarrow> (nat \<times> bool) result" where
  "choose_waiting_index ci entries =
     bind_res (find_missing ci (sort_key fst entries)) (\<lambda>r.
       case r of Some i \<Rightarrow> Inr (i, False) | None \<Rightarrow> Inr (length entries, True))"

definition emitted :: "outputs option \<Rightarrow> nat \<Rightarrow> items cell" where
  "emitted nsd oi = (case nsd of None \<Rightarrow> Null | Some outs \<Rightarrow> cell_get outs oi)"

definition store_waiting ::
  "IConnection \<Rightarrow> nat \<Rightarrow> nat \<Rightarrow> string \<Rightarrow> outputs option \<Rightarrow> nat \<Rightarrow> ExecutionData \<Rightarrow> ExecutionData result" where
  "store_waiting cd wi oi parent nsd runIndex ed =
     bind_res (set_input (conn_node cd) wi (conn_index cd) (emitted nsd oi) (waitingExecution ed)) (\<lambda>we.
       bind_res (set_input (conn_node cd) wi (conn_index cd)
           (if nsd = None then Null else Val (emitted_source parent oi runIndex)) (sources ed)) (\<lambda>ws.
         Inr (ed\<lparr>waitingExecution := we, waitingExecutionSource := Some ws\<rparr>)))"

text \<open>\<open>delete m[n][i]\<close> in both objects, and of the node once it has no entry left.\<close>

definition delete_waiting :: "string \<Rightarrow> nat \<Rightarrow> ExecutionData \<Rightarrow> ExecutionData result" where
  "delete_waiting n i ed =
     (case (map_get (waitingExecution ed) n, map_get (sources ed) n) of
        (Some es, Some ss) \<Rightarrow>
          (if map_delete i es = [] then
             Inr (ed\<lparr>waitingExecution := map_delete n (waitingExecution ed),
                     waitingExecutionSource := Some (map_delete n (sources ed))\<rparr>)
           else
             Inr (ed\<lparr>waitingExecution := map_set n (map_delete i es) (waitingExecution ed),
                     waitingExecutionSource := Some (map_set n (map_delete i ss) (sources ed))\<rparr>))
      | _ \<Rightarrow> Inl TypeError)"

definition waiting_to_stack :: "Workflow \<Rightarrow> string \<Rightarrow> nat \<Rightarrow> ExecutionData \<Rightarrow> ExecutionData result" where
  "waiting_to_stack w n i ed =
     (case map_get (run_entries (waitingExecution ed) n) i of None \<Rightarrow> Inl TypeError
      | Some e \<Rightarrow>
          bind_res (the_node w n) (\<lambda>node.
            delete_waiting n i
              (enqueue_entry w \<lparr>exec_data = e, exec_metadata = None, exec_node = node,
                 exec_source = map_get (run_entries (sources ed) n) i\<rparr> ed)))"

subsection \<open>Forcing the other inputs\<close>

text \<open>\<open>workflow.connectionsByDestinationNode[n].main[0] ?? []\<close>.\<close>

definition first_input :: "Workflow \<Rightarrow> string \<Rightarrow> IConnection list result" where
  "first_input w n =
     (case main_inputs w n of None \<Rightarrow> Inl TypeError | Some ins \<Rightarrow> Inr (cell_list (cell_get ins 0)))"

definition check_output_nodes :: "Workflow \<Rightarrow> string \<Rightarrow> string list result" where
  "check_output_nodes w parent =
     (case map_get (connectionsBySourceNode w) parent of None \<Rightarrow> Inl TypeError
      | Some tys \<Rightarrow> Inr (case map_get tys Main of None \<Rightarrow> []
          | Some outs \<Rightarrow> map conn_node (concat (map cell_list outs))))"

text \<open>The walk up the parents that looks for the node to add.\<close>

fun find_node_to_add ::
  "string \<Rightarrow> string list \<Rightarrow> string list \<Rightarrow> IRunData \<Rightarrow> string list \<Rightarrow> string option \<Rightarrow> string option" where
  "find_node_to_add inputNode checkOutputNodes stackNodes rd [] nodeToAdd = nodeToAdd"
| "find_node_to_add inputNode checkOutputNodes stackNodes rd (p # ps) nodeToAdd =
     (if inputNode \<noteq> p \<and> p \<in> set checkOutputNodes then None
      else if p \<in> set stackNodes then None
      else if map_has rd p then nodeToAdd
      else find_node_to_add inputNode checkOutputNodes stackNodes rd ps (Some p))"

text \<open>
  The end of the walk: a node that is a child of the parent is not added when the parent
  emitted nothing. A missing node reads the property \<open>undefined\<close> of the connections.
\<close>

definition drop_unfed ::
  "Workflow \<Rightarrow> string \<Rightarrow> outputs option \<Rightarrow> nat \<Rightarrow> string option \<Rightarrow> string option result" where
  "drop_unfed w parent nsd oi nodeToAdd =
     (if parent \<in> set (getParentNodes w (case nodeToAdd of None \<Rightarrow> ''undefined'' | Some n \<Rightarrow> n) (OfType Main) (-1))
      then (case emitted nsd oi of Val its \<Rightarrow> Inr (if its = [] then None else nodeToAdd) | _ \<Rightarrow> Inl TypeError)
      else Inr nodeToAdd)"

definition needs_empty_item :: "Workflow \<Rightarrow> IRunData \<Rightarrow> nat \<Rightarrow> string \<Rightarrow> bool result" where
  "needs_empty_item w rd runIndex n =
     (if map_get (connectionsByDestinationNode w) n = None then Inr True
      else bind_res (first_input w n) (\<lambda>cs. incomingConnectionIsEmpty rd cs runIndex))"

definition force_input ::
  "Workflow \<Rightarrow> string \<Rightarrow> nat \<Rightarrow> outputs option \<Rightarrow> nat \<Rightarrow> IRunData \<Rightarrow> string list \<Rightarrow> ExecutionData
     \<Rightarrow> IConnection \<Rightarrow> ExecutionData result" where
  "force_input w parent oi nsd runIndex rd checkOutputNodes ed inputData =
     (let n = conn_node inputData;
          stackNodes = map (\<lambda>e. node_name (exec_node e)) (nodeExecutionStack ed)
      in if n = parent then Inr ed
         else bind_res
           (if n \<in> set checkOutputNodes
            then bind_res (first_input w n) (\<lambda>cs. incomingConnectionIsEmpty rd cs runIndex) else Inr True)
           (\<lambda>unfed.
             if \<not> unfed then Inr ed
             else if n \<in> set stackNodes then Inr ed
             else if map_has rd n then Inr ed
             else if \<not> forceInputNodeExecution w then Inr ed
             else
               let parentNodes = rev (getParentNodes w n (OfType Main) (-1) @ [n]) in
               bind_res (drop_unfed w parent nsd oi
                   (find_node_to_add n checkOutputNodes stackNodes rd parentNodes (Some n))) (\<lambda>nodeToAdd.
                 case nodeToAdd of None \<Rightarrow> Inr ed
                 | Some x \<Rightarrow>
                     bind_res (needs_empty_item w rd runIndex x) (\<lambda>addEmptyItem.
                       if addEmptyItem then
                         bind_res (the_node w x) (\<lambda>node.
                           Inr (enqueue_entry w
                             \<lparr>exec_data = [(Main, [Val [json_item []]])], exec_metadata = None, exec_node = node,
                              exec_source = Some [(Main, [Val (emitted_source parent oi runIndex)])]\<rparr> ed))
                       else Inr ed))))"

definition force_inputs ::
  "Workflow \<Rightarrow> IConnection \<Rightarrow> nat \<Rightarrow> string \<Rightarrow> outputs option \<Rightarrow> nat \<Rightarrow> IRunData \<Rightarrow> NodeInputConnections
     \<Rightarrow> ExecutionData \<Rightarrow> ExecutionData result" where
  "force_inputs w cd oi parent nsd runIndex rd ins ed =
     bind_res (check_output_nodes w parent) (\<lambda>checkOutputNodes.
       fold_res (force_input w parent oi nsd runIndex rd checkOutputNodes) ed (concat (map cell_list ins)))"

subsection \<open>\<open>addNodeToBeExecuted\<close>\<close>

text \<open>The data stays in its entry, which keeps nothing but the Main inputs.\<close>

definition keep_waiting ::
  "IConnection \<Rightarrow> nat \<Rightarrow> nat \<Rightarrow> outputs option \<Rightarrow> nat \<Rightarrow> ExecutionData \<Rightarrow> ExecutionData result" where
  "keep_waiting cd k oi nsd wi ed =
     (let n = conn_node cd;
          connectionDataArray = cell_set
            (case entry_main (waitingExecution ed) n wi of None \<Rightarrow> replicate (Suc (conn_index cd)) Null
             | Some arr \<Rightarrow> arr) (conn_index cd) (emitted nsd oi)
      in case entry_main (sources ed) n wi of None \<Rightarrow> Inl TypeError
         | Some saved \<Rightarrow>
             (let ed' = prepareWaitingToExecution n k wi ed
              in Inr (ed'\<lparr>waitingExecution :=
                    entry_put n wi [(Main, connectionDataArray)] (waitingExecution ed'),
                  waitingExecutionSource := Some (entry_put n wi [(Main, saved)] (sources ed'))\<rparr>)))"

text \<open>The node has one input.\<close>

definition add_direct ::
  "Workflow \<Rightarrow> IConnection \<Rightarrow> nat \<Rightarrow> string \<Rightarrow> outputs option \<Rightarrow> nat \<Rightarrow> ExecutionData \<Rightarrow> ExecutionData result" where
  "add_direct w cd oi parent nsd runIndex ed =
     bind_res (the_node w (conn_node cd)) (\<lambda>node.
       Inr (enqueue_entry w
         \<lparr>exec_data = [(Main, cell_set (replicate (Suc (conn_index cd)) Null) (conn_index cd) (emitted nsd oi))],
          exec_metadata = None, exec_node = node,
          exec_source = Some [(Main, [Val (emitted_source parent oi runIndex)])]\<rparr> ed))"

text \<open>The node has several inputs: the data goes into a waiting entry, whose run index is returned.\<close>

definition receive_input ::
  "IConnection \<Rightarrow> nat \<Rightarrow> nat \<Rightarrow> string \<Rightarrow> outputs option \<Rightarrow> nat \<Rightarrow> ExecutionData \<Rightarrow> (nat \<times> ExecutionData) result" where
  "receive_input cd k oi parent nsd runIndex ed =
     (let n = conn_node cd;
          ed1 = (if map_has (waitingExecution ed) n then ed\<lparr>waitingExecutionSource := Some (sources ed)\<rparr>
                 else ed\<lparr>waitingExecution := map_set n [] (waitingExecution ed),
                         waitingExecutionSource := Some (map_set n [] (sources ed))\<rparr>)
      in bind_res (choose_waiting_index (conn_index cd) (run_entries (waitingExecution ed1) n)) (\<lambda>(wi, new).
           bind_res (store_waiting cd wi oi parent nsd runIndex
               (if new then prepareWaitingToExecution n k wi ed1 else ed1)) (\<lambda>ed3. Inr (wi, ed3))))"

definition addNodeToBeExecuted ::
  "Workflow \<Rightarrow> IConnection \<Rightarrow> nat \<Rightarrow> string \<Rightarrow> outputs option \<Rightarrow> nat \<Rightarrow> IRunData \<Rightarrow> ExecutionData
     \<Rightarrow> ExecutionData result" where
  "addNodeToBeExecuted w cd oi parent nsd runIndex rd ed =
     (case main_inputs w (conn_node cd) of None \<Rightarrow> Inl TypeError
      | Some ins \<Rightarrow>
          (if length ins \<le> 1 then add_direct w cd oi parent nsd runIndex ed
           else bind_res (receive_input cd (length ins) oi parent nsd runIndex ed) (\<lambda>(wi, ed3).
             case entry_main (waitingExecution ed3) (conn_node cd) wi of None \<Rightarrow> Inl TypeError
             | Some arr \<Rightarrow>
                 if Null \<notin> set arr then waiting_to_stack w (conn_node cd) wi ed3
                 else bind_res
                   (if map_has (waitingExecution ed) (conn_node cd) then Inr ed3
                    else force_inputs w cd oi parent nsd runIndex rd ins ed3)
                   (keep_waiting cd (length ins) oi nsd wi))))"

section \<open>The waiting entries\<close>

lemma run_entries_simps [simp]:
  "run_entries (map_set n es m) n' = (if n' = n then es else run_entries m n')"
  "run_entries (map_delete n m) n' = (if n' = n then [] else run_entries m n')"
  by (simp_all add: run_entries_def)

lemma sources_simps [simp]:
  "sources (ed\<lparr>waitingExecutionSource := Some s\<rparr>) = s"
  "sources (ed\<lparr>waitingExecution := we\<rparr>) = sources ed"
  "sources (ed\<lparr>nodeExecutionStack := st\<rparr>) = sources ed"
  by (simp_all add: sources_def)

lemma run_entries_put [simp]:
  "run_entries (entry_put n i e m) n' = (if n' = n then map_set i e (run_entries m n) else run_entries m n')"
  by (simp add: run_entries_def entry_put_def)

lemma entry_main_put [simp]:
  "entry_main (entry_put n i e m) n' i' = (if n' = n \<and> i' = i then map_get e Main else entry_main m n' i')"
  by (simp add: entry_main_def)

lemma map_wf_entry_put [simp]: "map_wf m \<Longrightarrow> map_wf (entry_put n i e m)"
  by (simp add: entry_put_def)

lemma map_get_entry_put [simp]:
  "map_get (entry_put n i e m) n' = (if n' = n then Some (map_set i e (run_entries m n)) else map_get m n')"
  by (simp add: entry_put_def)

text \<open>The abstract view: what a node has received for a run, and from where.\<close>

definition pending :: "ExecutionData \<Rightarrow> string \<Rightarrow> nat \<Rightarrow> (items cell list \<times> ISourceData cell list) option" where
  "pending ed n i =
     (case (entry_main (waitingExecution ed) n i, entry_main (sources ed) n i) of
        (Some a, Some s) \<Rightarrow> Some (a, s) | _ \<Rightarrow> None)"

text \<open>An entry has a slot for each input, some data is missing, and a slot has data exactly if it has a source.\<close>

definition entry_ok :: "nat \<Rightarrow> items cell list \<Rightarrow> ISourceData cell list \<Rightarrow> bool" where
  "entry_ok k a s =
     (length a = k \<and> length s = k \<and> Hole \<notin> set a \<and> Hole \<notin> set s
      \<and> (\<forall>j<k. (a ! j = Null) = (s ! j = Null)))"

definition node_waiting_ok ::
  "nat \<Rightarrow> (nat, ITaskDataConnections) jsmap \<Rightarrow> (nat, ITaskDataConnectionsSource) jsmap \<Rightarrow> bool" where
  "node_waiting_ok k es ss =
     (map_wf es \<and> map_wf ss \<and> map_keys es = map_keys ss
      \<and> (\<forall>i e. map_get es i = Some e \<longrightarrow>
           (\<exists>a s. e = [(Main, a)] \<and> map_get ss i = Some [(Main, s)] \<and> entry_ok k a s \<and> Null \<in> set a)))"

definition waiting_ok :: "Workflow \<Rightarrow> ExecutionData \<Rightarrow> bool" where
  "waiting_ok w ed =
     (map_wf (waitingExecution ed) \<and> map_wf (sources ed) \<and> waitingExecutionSource ed \<noteq> None
      \<and> (\<forall>n. map_has (sources ed) n = map_has (waitingExecution ed) n)
      \<and> (\<forall>n es. map_get (waitingExecution ed) n = Some es \<longrightarrow> es \<noteq> []
           \<and> (\<exists>ins. main_inputs w n = Some ins \<and> 1 < length ins
                \<and> node_waiting_ok (length ins) es (run_entries (sources ed) n))))"

lemma node_waiting_okD:
  assumes "node_waiting_ok k es ss" "map_get es i = Some e"
  obtains a s where "e = [(Main, a)]" "map_get ss i = Some [(Main, s)]" "entry_ok k a s" "Null \<in> set a"
  using assms unfolding node_waiting_ok_def by blast

lemma node_waiting_ok_Nil [simp]: "node_waiting_ok k [] []"
  by (simp add: node_waiting_ok_def)

lemma node_waiting_ok_put:
  assumes "node_waiting_ok k es ss" "entry_ok k a s" "Null \<in> set a"
  shows "node_waiting_ok k (map_set i [(Main, a)] es) (map_set i [(Main, s)] ss)"
  using assms by (auto simp: node_waiting_ok_def map_keys_set simp del: set_map)

lemma map_keys_delete: "map_keys (map_delete k m) = filter (\<lambda>x. x \<noteq> k) (map_keys m)"
  by (simp add: map_delete_def filter_map o_def)

lemma node_waiting_ok_delete:
  "node_waiting_ok k es ss \<Longrightarrow> node_waiting_ok k (map_delete i es) (map_delete i ss)"
  by (auto simp: node_waiting_ok_def map_keys_delete)

lemma waiting_ok_entries:
  assumes "waiting_ok w ed" "main_inputs w n = Some ins"
  shows "node_waiting_ok (length ins) (run_entries (waitingExecution ed) n) (run_entries (sources ed) n)"
proof (cases "map_get (waitingExecution ed) n")
  case None
  then have "map_get (sources ed) n = None" using assms(1) unfolding waiting_ok_def map_has_def by blast
  with None show ?thesis by (simp add: run_entries_def)
next
  case (Some es)
  then have "run_entries (waitingExecution ed) n = es" by (simp add: run_entries_def)
  moreover from Some assms(1) obtain ins' where "main_inputs w n = Some ins'"
    "node_waiting_ok (length ins') es (run_entries (sources ed) n)"
    unfolding waiting_ok_def by blast
  ultimately show ?thesis using assms(2) by simp
qed

text \<open>Replacing the entries of one node keeps the invariant.\<close>

lemma waiting_ok_update:
  assumes ok: "waiting_ok w ed" and ins: "main_inputs w n = Some ins" "1 < length ins"
    and es: "node_waiting_ok (length ins) es ss" "es \<noteq> []"
    and ed': "waitingExecution ed' = map_set n es (waitingExecution ed)"
      "waitingExecutionSource ed' = Some (map_set n ss (sources ed))"
  shows "waiting_ok w ed'"
proof -
  have src: "sources ed' = map_set n ss (sources ed)" by (simp add: sources_def ed')
  have "run_entries (map_set n ss (sources ed)) m = (if m = n then ss else run_entries (sources ed) m)" for m
    by (simp add: run_entries_def)
  then show ?thesis using ok ins es unfolding waiting_ok_def src ed' by (auto simp: map_has_def)
qed

lemma waiting_ok_delete:
  assumes ok: "waiting_ok w ed"
    and ed': "waitingExecution ed' = map_delete n (waitingExecution ed)"
      "waitingExecutionSource ed' = Some (map_delete n (sources ed))"
  shows "waiting_ok w ed'"
proof -
  have src: "sources ed' = map_delete n (sources ed)" by (simp add: sources_def ed')
  have "run_entries (map_delete n (sources ed)) m = (if m = n then [] else run_entries (sources ed) m)" for m
    by (simp add: run_entries_def)
  then show ?thesis using ok unfolding waiting_ok_def src ed' by (auto simp: map_has_def)
qed

lemma waiting_ok_stack [simp]: "waiting_ok w (ed\<lparr>nodeExecutionStack := st\<rparr>) = waiting_ok w ed"
  by (simp add: waiting_ok_def sources_def)

lemma enqueue_entry_simps [simp]:
  "waitingExecution (enqueue_entry w e ed) = waitingExecution ed"
  "waitingExecutionSource (enqueue_entry w e ed) = waitingExecutionSource ed"
  "sources (enqueue_entry w e ed) = sources ed"
  "node_metadata (enqueue_entry w e ed) = node_metadata ed"
  "contextData (enqueue_entry w e ed) = contextData ed"
  "waiting_ok w' (enqueue_entry w e ed) = waiting_ok w' ed"
  by (simp_all add: enqueue_entry_def sources_def)

definition lacks :: "nat \<Rightarrow> ITaskDataConnections \<Rightarrow> bool" where
  "lacks ci e = (\<exists>a. map_get e Main = Some a \<and> cell_val (cell_get a ci) = None)"

definition first_missing :: "nat \<Rightarrow> (nat \<times> ITaskDataConnections) list \<Rightarrow> nat option \<Rightarrow> bool" where
  "first_missing ci xs r =
     (case r of None \<Rightarrow> (\<forall>(i, e) \<in> set xs. \<not> lacks ci e)
      | Some i \<Rightarrow> (\<exists>e. (i, e) \<in> set xs \<and> lacks ci e) \<and> (\<forall>(j, e) \<in> set xs. j < i \<longrightarrow> \<not> lacks ci e))"

lemma find_missing_spec:
  assumes "\<And>i e. (i, e) \<in> set xs \<Longrightarrow> map_get e Main \<noteq> None" "sorted (map fst xs)"
  shows "\<exists>r. find_missing ci xs = Inr r \<and> first_missing ci xs r"
  using assms
proof (induction xs)
  case (Cons x xs)
  obtain i e a where x: "x = (i, e)" "map_get e Main = Some a" using Cons.prems(1) by (cases x) fastforce
  have le: "i \<le> j" if "(j, e) \<in> set xs" for j e using Cons.prems(2) that x by force
  obtain r where r: "find_missing ci xs = Inr r" "first_missing ci xs r" using Cons by auto
  show ?case
  proof (cases "cell_val (cell_get a ci)")
    case (Some v)
    then have "find_missing ci (x # xs) = Inr r" using x r(1) by (cases "cell_get a ci") auto
    moreover have "first_missing ci (x # xs) r"
      using r(2) x Some unfolding first_missing_def by (cases r) (auto simp: lacks_def)
    ultimately show ?thesis by blast
  next
    case None
    then have "find_missing ci (x # xs) = Inr (Some i)" using x by (cases "cell_get a ci") auto
    moreover have "first_missing ci (x # xs) (Some i)"
      using x None le unfolding first_missing_def by (force simp: lacks_def)
    ultimately show ?thesis by blast
  qed
qed (simp add: first_missing_def)

text \<open>Where the data goes: the least entry without data for the input, or a new one.\<close>

definition target_entry :: "nat \<Rightarrow> nat \<Rightarrow> ExecutionData \<Rightarrow> string \<Rightarrow> nat \<Rightarrow> bool \<Rightarrow> bool" where
  "target_entry k ci ed n wi new =
     (if new then wi = length (run_entries (waitingExecution ed) n)
                  \<and> (\<forall>i a s. pending ed n i = Some (a, s) \<longrightarrow> a ! ci \<noteq> Null)
      else (\<exists>a s. pending ed n wi = Some (a, s) \<and> a ! ci = Null)
           \<and> (\<forall>i<wi. \<forall>a s. pending ed n i = Some (a, s) \<longrightarrow> a ! ci \<noteq> Null))"

lemma pending_entry:
  assumes "node_waiting_ok k (run_entries (waitingExecution ed) n) (run_entries (sources ed) n)"
  shows "pending ed n i = Some (a, s) \<longleftrightarrow>
    map_get (run_entries (waitingExecution ed) n) i = Some [(Main, a)]
    \<and> map_get (run_entries (sources ed) n) i = Some [(Main, s)]"
proof (cases "map_get (run_entries (waitingExecution ed) n) i")
  case (Some e)
  from node_waiting_okD [OF assms Some] obtain a' s' where
    "e = [(Main, a')]" "map_get (run_entries (sources ed) n) i = Some [(Main, s')]" by blast
  with Some show ?thesis by (auto simp: pending_def entry_main_def)
qed (simp add: pending_def entry_main_def)

lemma pending_ok:
  assumes "node_waiting_ok k (run_entries (waitingExecution ed) n) (run_entries (sources ed) n)"
    "pending ed n i = Some (a, s)"
  shows "entry_ok k a s \<and> Null \<in> set a"
  using node_waiting_okD [OF assms(1)] pending_entry [OF assms(1), of i a s] assms(2) by force

lemma pending_cell:
  assumes "node_waiting_ok k (run_entries (waitingExecution ed) n) (run_entries (sources ed) n)"
    "pending ed n i = Some (a, s)" "ci < k"
  shows "lacks ci [(Main, a)] \<longleftrightarrow> a ! ci = Null"
proof -
  have ok: "entry_ok k a s" using pending_ok [OF assms(1,2)] by simp
  then have "ci < length a" using assms(3) by (simp add: entry_ok_def)
  moreover from this have "a ! ci \<noteq> Hole" using ok nth_mem [of ci a] unfolding entry_ok_def by metis
  ultimately show ?thesis by (cases "a ! ci") (auto simp: lacks_def cell_get_def)
qed

lemma choose_waiting_index_spec:
  assumes ok: "node_waiting_ok k (run_entries (waitingExecution ed) n) (run_entries (sources ed) n)" and ci: "ci < k"
  shows "\<exists>wi new. choose_waiting_index ci (run_entries (waitingExecution ed) n) = Inr (wi, new)
    \<and> target_entry k ci ed n wi new"
proof -
  let ?es = "run_entries (waitingExecution ed) n"
  have mem: "(i, e) \<in> set ?es \<longleftrightarrow> map_get ?es i = Some e" for i e
    using ok by (simp add: node_waiting_ok_def map_wf_get_iff)
  have form: "map_get e Main \<noteq> None" if "(i, e) \<in> set ?es" for i e
    using that ok unfolding mem by (elim node_waiting_okD) auto
  have pend: "\<exists>a s. e = [(Main, a)] \<and> pending ed n i = Some (a, s)" if "(i, e) \<in> set ?es" for i e
    using that node_waiting_okD [OF ok] unfolding mem pending_entry [OF ok] by metis
  have pend': "(i, [(Main, a)]) \<in> set ?es" if "pending ed n i = Some (a, s)" for i a s
    using that unfolding mem pending_entry [OF ok] by simp
  obtain r where r: "find_missing ci (sort_key fst ?es) = Inr r" "first_missing ci ?es r"
    using find_missing_spec [of "sort_key fst ?es" ci] form unfolding first_missing_def set_sort
    by (auto simp: sorted_sort_key)
  show ?thesis
  proof (cases r)
    case None
    have "a ! ci \<noteq> Null" if "pending ed n i = Some (a, s)" for i a s
      using r(2) None pend' [OF that] pending_cell [OF ok that ci] by (auto simp: first_missing_def)
    then show ?thesis using r(1) None by (auto simp: choose_waiting_index_def target_entry_def)
  next
    case (Some wi)
    then obtain e where e: "(wi, e) \<in> set ?es" "lacks ci e" using r(2) by (auto simp: first_missing_def)
    obtain a s where s: "e = [(Main, a)]" "pending ed n wi = Some (a, s)" using pend [OF e(1)] by blast
    have "a' ! ci \<noteq> Null" if "pending ed n i = Some (a', s')" "i < wi" for i a' s'
      using r(2) Some pend' [OF that(1)] pending_cell [OF ok that(1) ci] that(2) by (auto simp: first_missing_def)
    moreover have "a ! ci = Null" using pending_cell [OF ok s(2) ci] e(2) s(1) by simp
    ultimately show ?thesis using r(1) Some s by (auto simp: choose_waiting_index_def target_entry_def)
  qed
qed

section \<open>Receiving data\<close>

lemma map_set_set [simp]: "map_set k v (map_set k u m) = map_set k v m"
  by (induction m) auto

lemma map_delete_set [simp]: "map_delete k (map_set k u m) = map_delete k m"
  by (induction m) (auto simp: map_delete_def)

lemma entry_put_put [simp]: "entry_put n i e (entry_put n i e' m) = entry_put n i e m"
  unfolding entry_put_def [of n i e "entry_put n i e' m"] run_entries_put by (simp add: entry_put_def)

lemma entry_put_fresh [simp]: "map_get m n = None \<Longrightarrow> entry_put n i e (map_set n [] m) = entry_put n i e m"
  by (simp add: entry_put_def run_entries_def)

lemma cell_set_update: "i < length xs \<Longrightarrow> cell_set xs i v = xs[i := v]"
  by (simp add: cell_set_def)

lemma set_input_simp:
  "map_get (run_entries m n) i = Some [(Main, arr)] \<Longrightarrow>
     set_input n i j v m = Inr (entry_put n i [(Main, cell_set arr j v)] m)"
  by (simp add: set_input_def)

text \<open>The entry the data is added to: the one that was waiting, or a new one without data.\<close>

definition base_entry ::
  "nat \<Rightarrow> ExecutionData \<Rightarrow> string \<Rightarrow> nat \<Rightarrow> bool \<Rightarrow> items cell list \<times> ISourceData cell list" where
  "base_entry k ed n wi new =
     (if new then (replicate k Null, replicate k Null)
      else (case pending ed n wi of None \<Rightarrow> ([], []) | Some p \<Rightarrow> p))"

definition put_pending ::
  "string \<Rightarrow> nat \<Rightarrow> items cell list \<times> ISourceData cell list \<Rightarrow> ExecutionData \<Rightarrow> ExecutionData" where
  "put_pending n wi p ed =
     ed\<lparr>waitingExecution := entry_put n wi [(Main, fst p)] (waitingExecution ed),
        waitingExecutionSource := Some (entry_put n wi [(Main, snd p)] (sources ed))\<rparr>"

lemma put_pending_simps [simp]:
  "waitingExecution (put_pending n wi p ed) = entry_put n wi [(Main, fst p)] (waitingExecution ed)"
  "sources (put_pending n wi p ed) = entry_put n wi [(Main, snd p)] (sources ed)"
  "nodeExecutionStack (put_pending n wi p ed) = nodeExecutionStack ed"
  by (simp_all add: put_pending_def sources_def)

lemma pending_put [simp]:
  "pending (put_pending n wi p ed) m i = (if m = n \<and> i = wi then Some p else pending ed m i)"
  by (cases p) (auto simp: pending_def)

lemma entry_ok_replicate: "entry_ok k (replicate k Null) (replicate k Null)"
  by (simp add: entry_ok_def)

lemma entry_ok_set:
  "entry_ok k a s \<Longrightarrow> ci < k \<Longrightarrow> entry_ok k (a[ci := Val x]) (s[ci := Val y])"
  by (auto simp: entry_ok_def nth_list_update dest!: set_update_subset_insert [THEN subsetD])

lemma base_entry_ok:
  assumes "node_waiting_ok k (run_entries (waitingExecution ed) n) (run_entries (sources ed) n)"
    "target_entry k ci ed n wi new"
  shows "entry_ok k (fst (base_entry k ed n wi new)) (snd (base_entry k ed n wi new))"
  using assms pending_ok [OF assms(1)]
  by (auto simp: base_entry_def target_entry_def entry_ok_replicate)

lemma store_waiting_simp:
  assumes "map_get (run_entries (waitingExecution ed) n) wi = Some [(Main, a)]"
    "map_get (run_entries (sources ed) n) wi = Some [(Main, s)]"
    "conn_node cd = n" "conn_index cd < length a" "length s = length a" "emitted nsd oi = Val its" "nsd \<noteq> None"
  shows "store_waiting cd wi oi parent nsd r ed =
    Inr (put_pending n wi (a[conn_index cd := Val its], s[conn_index cd := Val (emitted_source parent oi r)]) ed)"
  using assms
  by (auto simp: store_waiting_def set_input_simp cell_set_update put_pending_def)

lemma receive_input_spec:
  assumes ok: "node_waiting_ok k (run_entries (waitingExecution ed) n) (run_entries (sources ed) n)"
    and src: "map_has (sources ed) n = map_has (waitingExecution ed) n" "waitingExecutionSource ed \<noteq> None"
    and cd: "conn_node cd = n" "conn_index cd < k" and out: "emitted nsd oi = Val its" "nsd \<noteq> None"
  shows "\<exists>wi new. target_entry k (conn_index cd) ed n wi new
    \<and> receive_input cd k oi parent nsd r ed = Inr (wi, put_pending n wi
        ((fst (base_entry k ed n wi new))[conn_index cd := Val its],
         (snd (base_entry k ed n wi new))[conn_index cd := Val (emitted_source parent oi r)]) ed)"
proof -
  define ed1 where "ed1 = (if map_has (waitingExecution ed) n then ed\<lparr>waitingExecutionSource := Some (sources ed)\<rparr>
                 else ed\<lparr>waitingExecution := map_set n [] (waitingExecution ed),
                         waitingExecutionSource := Some (map_set n [] (sources ed))\<rparr>)"
  have fresh: "map_get (waitingExecution ed) n = None \<longleftrightarrow> map_get (sources ed) n = None"
    using src(1) unfolding map_has_def by blast
  have run1: "run_entries (waitingExecution ed1) n = run_entries (waitingExecution ed) n"
    "run_entries (sources ed1) n = run_entries (sources ed) n"
    using fresh by (auto simp: ed1_def run_entries_def map_has_def sources_def)
  have put1: "put_pending n i p ed1 = put_pending n i p ed" for i p
    using fresh unfolding put_pending_def ed1_def
    by (cases "map_has (waitingExecution ed) n") (simp_all add: sources_def map_has_def)
  obtain wi new where ch: "choose_waiting_index (conn_index cd) (run_entries (waitingExecution ed) n) = Inr (wi, new)"
    "target_entry k (conn_index cd) ed n wi new"
    using choose_waiting_index_spec [OF ok cd(2)] by blast
  let ?b = "base_entry k ed n wi new"
  define ed2 where "ed2 = (if new then prepareWaitingToExecution n k wi ed1 else ed1)"
  have ok2: "entry_ok k (fst ?b) (snd ?b)" by (rule base_entry_ok [OF ok ch(2)])
  have e2: "map_get (run_entries (waitingExecution ed2) n) wi = Some [(Main, fst ?b)]
      \<and> map_get (run_entries (sources ed2) n) wi = Some [(Main, snd ?b)]"
  proof (cases new)
    case True
    then show ?thesis by (simp add: ed2_def prepareWaitingToExecution_def base_entry_def sources_def)
  next
    case False
    with ch(2) obtain a s where "pending ed n wi = Some (a, s)" by (auto simp: target_entry_def)
    then show ?thesis
      using False pending_entry [OF ok, of wi a s] by (simp add: ed2_def base_entry_def run1)
  qed
  have put2: "put_pending n wi p ed2 = put_pending n wi p ed" for p
    using put1 [of wi p] by (auto simp: ed2_def put_pending_def prepareWaitingToExecution_def sources_def)
  have "conn_index cd < length (fst ?b)" "length (snd ?b) = length (fst ?b)"
    using ok2 cd(2) by (simp_all add: entry_ok_def)
  then have "store_waiting cd wi oi parent nsd r ed2 = Inr (put_pending n wi
        ((fst ?b)[conn_index cd := Val its], (snd ?b)[conn_index cd := Val (emitted_source parent oi r)]) ed)"
    using store_waiting_simp [of ed2 n wi "fst ?b" "snd ?b"] e2 cd out put2 by simp
  then have "receive_input cd k oi parent nsd r ed = Inr (wi, put_pending n wi
        ((fst ?b)[conn_index cd := Val its], (snd ?b)[conn_index cd := Val (emitted_source parent oi r)]) ed)"
    using ch(1) unfolding receive_input_def Let_def cd(1) ed1_def [symmetric] run1 by (simp add: ed2_def)
  with ch(2) show ?thesis by blast
qed

text \<open>An entry that is full goes to the stack, with everything else left as it is.\<close>

definition full_entry :: "INode \<Rightarrow> items cell list \<times> ISourceData cell list \<Rightarrow> IExecuteData" where
  "full_entry node p =
     \<lparr>exec_data = [(Main, fst p)], exec_metadata = None, exec_node = node, exec_source = Some [(Main, snd p)]\<rparr>"

lemma delete_waiting_effect:
  assumes ok: "waiting_ok w ed" and ins: "main_inputs w n = Some ins" "1 < length ins"
    and ed1: "waitingExecution ed1 = map_set n es (waitingExecution ed)" "sources ed1 = map_set n ss (sources ed)"
    and del: "map_delete i es = map_delete i (run_entries (waitingExecution ed) n)"
      "map_delete i ss = map_delete i (run_entries (sources ed) n)"
  shows "\<exists>ed'. delete_waiting n i ed1 = Inr ed' \<and> waiting_ok w ed' \<and> nodeExecutionStack ed' = nodeExecutionStack ed1
    \<and> (\<forall>m j. pending ed' m j = (if m = n \<and> j = i then None else pending ed m j))"
proof -
  let ?es = "run_entries (waitingExecution ed) n" and ?ss = "run_entries (sources ed) n"
  note nok = node_waiting_ok_delete [OF waiting_ok_entries [OF ok ins(1)], of i]
  show ?thesis
  proof (cases "map_delete i ?es = []")
    case True
    define ed' where "ed' = ed1\<lparr>waitingExecution := map_delete n (waitingExecution ed),
      waitingExecutionSource := Some (map_delete n (sources ed))\<rparr>"
    have run: "delete_waiting n i ed1 = Inr ed'"
      using True del by (simp add: delete_waiting_def ed'_def ed1)
    have "map_get ?es j = None" if "j \<noteq> i" for j
      using True that map_get_delete [of i ?es j] by simp
    then have "pending ed' m j = (if m = n \<and> j = i then None else pending ed m j)" for m j
      by (cases "m = n"; cases "j = i") (simp_all add: pending_def entry_main_def ed'_def)
    moreover have "waiting_ok w ed'" by (rule waiting_ok_delete [OF ok, of _ n]) (simp_all add: ed'_def)
    ultimately show ?thesis using run by (simp add: ed'_def)
  next
    case False
    define ed' where "ed' = ed1\<lparr>waitingExecution := map_set n (map_delete i ?es) (waitingExecution ed),
      waitingExecutionSource := Some (map_set n (map_delete i ?ss) (sources ed))\<rparr>"
    have run: "delete_waiting n i ed1 = Inr ed'"
      using False del by (simp add: delete_waiting_def ed'_def ed1)
    have "pending ed' m j = (if m = n \<and> j = i then None else pending ed m j)" for m j
      by (cases "m = n"; cases "j = i") (simp_all add: pending_def entry_main_def ed'_def)
    moreover have "waiting_ok w ed'"
      by (rule waiting_ok_update [OF ok ins nok False]) (simp_all add: ed'_def)
    ultimately show ?thesis using run by (simp add: ed'_def)
  qed
qed

lemma waiting_to_stack_put:
  assumes ok: "waiting_ok w ed" and ins: "main_inputs w n = Some ins" "1 < length ins" and node: "getNode w n = Some node"
  shows "\<exists>ed'. waiting_to_stack w n wi (put_pending n wi p ed) = Inr ed' \<and> waiting_ok w ed'
    \<and> nodeExecutionStack ed' = nodeExecutionStack (enqueue_entry w (full_entry node p) ed)
    \<and> (\<forall>m i. pending ed' m i = (if m = n \<and> i = wi then None else pending ed m i))"
proof -
  let ?ed = "enqueue_entry w (full_entry node p) (put_pending n wi p ed)"
  have run: "waiting_to_stack w n wi (put_pending n wi p ed) = delete_waiting n wi ?ed"
    using node by (simp add: waiting_to_stack_def the_node_def full_entry_def)
  have "nodeExecutionStack ?ed = nodeExecutionStack (enqueue_entry w (full_entry node p) ed)"
    by (simp add: enqueue_entry_def)
  then show ?thesis
    using delete_waiting_effect [OF ok ins, of ?ed "map_set wi [(Main, fst p)] (run_entries (waitingExecution ed) n)"
      "map_set wi [(Main, snd p)] (run_entries (sources ed) n)" wi] run
    by (simp add: entry_put_def)
qed

lemma waiting_ok_put:
  assumes ok: "waiting_ok w ed" and ins: "main_inputs w n = Some ins" "1 < length ins"
    and p: "entry_ok (length ins) (fst p) (snd p)" "Null \<in> set (fst p)"
  shows "waiting_ok w (put_pending n wi p ed)"
proof -
  note nok = node_waiting_ok_put [OF waiting_ok_entries [OF ok ins(1)] p, of wi]
  have "map_set wi [(Main, fst p)] m \<noteq> []" for m :: "(nat, ITaskDataConnections) jsmap"
    by (cases m) auto
  then show ?thesis
    by (intro waiting_ok_update [OF ok ins nok]) (simp_all add: put_pending_def entry_put_def)
qed

lemma keep_waiting_put:
  assumes "conn_node cd = n" "fst p = a[conn_index cd := Val its]" "conn_index cd < length a" "emitted nsd oi = Val its"
  shows "keep_waiting cd k oi nsd wi (put_pending n wi p ed) = Inr (put_pending n wi p ed)"
  using assms
  by (simp add: keep_waiting_def prepareWaitingToExecution_def cell_set_update)
    (simp add: put_pending_def sources_def)

section \<open>Forced inputs\<close>

text \<open>
  Run data without \<open>null\<close> outputs, and connections that lead to nodes of the workflow with a
  Main input of the connection's index.
\<close>

definition outputs_present :: "IRunData \<Rightarrow> bool" where
  "outputs_present rd = (\<forall>n r i. output_cell rd n r Main i \<noteq> Null)"

definition routes_ok :: "Workflow \<Rightarrow> bool" where
  "routes_ok w =
     (\<forall>p. \<forall>c \<in> set (main_connections (connectionsBySourceNode w) p).
        getNode w (conn_node c) \<noteq> None
        \<and> (\<exists>ins. main_inputs w (conn_node c) = Some ins \<and> conn_index c < length ins))"

lemma check_output_nodes_spec:
  "map_get (connectionsBySourceNode w) p \<noteq> None \<Longrightarrow>
     check_output_nodes w p = Inr (map conn_node (main_connections (connectionsBySourceNode w) p))"
  by (auto simp: check_output_nodes_def main_connections_def split: option.splits)

text \<open>In the order \<open>v1\<close> no input is forced.\<close>

lemma force_inputs_v1:
  assumes v1: "is_v1 w" and routes: "routes_ok w" and rd: "outputs_present rd"
    and p: "map_get (connectionsBySourceNode w) parent \<noteq> None"
  shows "force_inputs w cd oi parent nsd r rd ins ed = Inr ed"
proof -
  let ?out = "map conn_node (main_connections (connectionsBySourceNode w) parent)"
  have inc: "\<exists>b. incomingConnectionIsEmpty rd cs r = Inr b" for cs
    using incomingConnectionIsEmpty_spec [of cs rd r] rd by (auto simp: outputs_present_def)
  have fi: "\<exists>cs. first_input w n = Inr cs" if "n \<in> set ?out" for n
    using routes that unfolding routes_ok_def first_input_def by fastforce
  have step: "force_input w parent oi nsd r rd ?out ed c = Inr ed" for c
  proof (cases "conn_node c \<in> set ?out")
    case True
    then obtain cs b where "first_input w (conn_node c) = Inr cs" "incomingConnectionIsEmpty rd cs r = Inr b"
      using fi inc by blast
    with True v1 show ?thesis by (simp add: force_input_def Let_def forceInputNodeExecution_def)
  next
    case False
    with v1 show ?thesis by (simp add: force_input_def Let_def forceInputNodeExecution_def)
  qed
  have "fold_res (force_input w parent oi nsd r rd ?out) ed cs = Inr ed" for cs
    by (induction cs) (simp_all add: step)
  then show ?thesis by (simp add: force_inputs_def check_output_nodes_spec [OF p])
qed

section \<open>What \<open>addNodeToBeExecuted\<close> does\<close>

text \<open>The entry after the data came in, and what happens to it if data is still missing.\<close>

lemma receive_input_ok:
  assumes ok: "waiting_ok w ed" and ins: "main_inputs w n = Some ins"
    and cd: "conn_node cd = n" "conn_index cd < length ins" and out: "emitted nsd oi = Val its" "nsd \<noteq> None"
  obtains wi new a s where "target_entry (length ins) (conn_index cd) ed n wi new"
    "a = (fst (base_entry (length ins) ed n wi new))[conn_index cd := Val its]"
    "s = (snd (base_entry (length ins) ed n wi new))[conn_index cd := Val (emitted_source parent oi r)]"
    "entry_ok (length ins) a s"
    "receive_input cd (length ins) oi parent nsd r ed = Inr (wi, put_pending n wi (a, s) ed)"
    "\<forall>ed1. keep_waiting cd (length ins) oi nsd wi (put_pending n wi (a, s) ed1) = Inr (put_pending n wi (a, s) ed1)"
proof -
  note nok = waiting_ok_entries [OF ok ins]
  have src: "map_has (sources ed) n = map_has (waitingExecution ed) n" "waitingExecutionSource ed \<noteq> None"
    using ok unfolding waiting_ok_def by blast+
  obtain wi new where ri: "target_entry (length ins) (conn_index cd) ed n wi new"
    "receive_input cd (length ins) oi parent nsd r ed = Inr (wi, put_pending n wi
        ((fst (base_entry (length ins) ed n wi new))[conn_index cd := Val its],
         (snd (base_entry (length ins) ed n wi new))[conn_index cd := Val (emitted_source parent oi r)]) ed)"
    using receive_input_spec [OF nok src cd out] by blast
  note bok = base_entry_ok [OF nok ri(1)]
  have len: "conn_index cd < length (fst (base_entry (length ins) ed n wi new))"
    using bok cd(2) by (simp add: entry_ok_def)
  show thesis
    by (rule that [OF ri(1) refl refl entry_ok_set [OF bok cd(2)] ri(2)], intro allI, rule keep_waiting_put [OF cd(1) _ len out(1)]) simp
qed

lemma addNode_single:
  assumes "main_inputs w (conn_node cd) = Some ins" "length ins \<le> 1" "getNode w (conn_node cd) = Some node"
  shows "addNodeToBeExecuted w cd oi parent nsd r rd ed = Inr (enqueue_entry w
    \<lparr>exec_data = [(Main, replicate (conn_index cd) Null @ [emitted nsd oi])], exec_metadata = None, exec_node = node,
     exec_source = Some [(Main, [Val (emitted_source parent oi r)])]\<rparr> ed)"
proof -
  have "cell_set (replicate (Suc i) Null) i v = replicate i Null @ [v]" for i and v :: "items cell"
    by (induction i) (simp_all add: cell_set_update)
  with assms show ?thesis by (simp add: addNodeToBeExecuted_def add_direct_def the_node_def)
qed

lemma addNode_multi:
  assumes ok: "waiting_ok w ed" and ins: "main_inputs w n = Some ins" "1 < length ins"
    and cd: "conn_node cd = n" "conn_index cd < length ins" and node: "getNode w n = Some node"
    and out: "emitted nsd oi = Val its" "nsd \<noteq> None"
    and v1: "is_v1 w" "routes_ok w" "outputs_present rd" "map_get (connectionsBySourceNode w) parent \<noteq> None"
  obtains ed' wi new a s where
    "addNodeToBeExecuted w cd oi parent nsd r rd ed = Inr ed'" "waiting_ok w ed'"
    "target_entry (length ins) (conn_index cd) ed n wi new"
    "a = (fst (base_entry (length ins) ed n wi new))[conn_index cd := Val its]"
    "s = (snd (base_entry (length ins) ed n wi new))[conn_index cd := Val (emitted_source parent oi r)]"
    "entry_ok (length ins) a s"
    "nodeExecutionStack ed' =
       (if Null \<in> set a then nodeExecutionStack ed else full_entry node (a, s) # nodeExecutionStack ed)"
    "\<And>m i. pending ed' m i =
       (if m = n \<and> i = wi then if Null \<in> set a then Some (a, s) else None else pending ed m i)"
proof -
  obtain wi new a s where ri: "target_entry (length ins) (conn_index cd) ed n wi new"
    and a_def: "a = (fst (base_entry (length ins) ed n wi new))[conn_index cd := Val its]"
    and s_def: "s = (snd (base_entry (length ins) ed n wi new))[conn_index cd := Val (emitted_source parent oi r)]"
    and eok: "entry_ok (length ins) a s"
    and rec: "receive_input cd (length ins) oi parent nsd r ed = Inr (wi, put_pending n wi (a, s) ed)"
    and keep: "\<forall>ed1. keep_waiting cd (length ins) oi nsd wi (put_pending n wi (a, s) ed1) = Inr (put_pending n wi (a, s) ed1)"
    by (rule receive_input_ok [OF ok ins(1) cd out, of parent r])
  note run = addNodeToBeExecuted_def [of w cd oi parent nsd r rd ed, unfolded cd(1) ins(1)]
  show thesis
  proof (cases "Null \<in> set a")
    case True
    have "addNodeToBeExecuted w cd oi parent nsd r rd ed = Inr (put_pending n wi (a, s) ed)"
      using ins(2) rec keep True force_inputs_v1 [OF v1] by (simp add: run)
    moreover have "waiting_ok w (put_pending n wi (a, s) ed)"
      by (rule waiting_ok_put [OF ok ins]) (use eok True in simp_all)
    ultimately show thesis using that [OF _ _ ri a_def s_def eok] True by simp
  next
    case False
    obtain ed' where ed': "waiting_to_stack w n wi (put_pending n wi (a, s) ed) = Inr ed'" "waiting_ok w ed'"
      "nodeExecutionStack ed' = nodeExecutionStack (enqueue_entry w (full_entry node (a, s)) ed)"
      "\<And>m i. pending ed' m i = (if m = n \<and> i = wi then None else pending ed m i)"
      using waiting_to_stack_put [OF ok ins node] by metis
    then have "addNodeToBeExecuted w cd oi parent nsd r rd ed = Inr ed'"
      using ins(2) rec False by (simp add: run)
    then show thesis using that [OF _ ed'(2) ri a_def s_def eok] False ed'(3,4) v1(1)
      by (simp add: enqueue_entry_def)
  qed
qed

text \<open>Forcing inputs changes nothing but the stack, in either order.\<close>

definition only_stack :: "ExecutionData \<Rightarrow> ExecutionData \<Rightarrow> bool" where
  "only_stack ed ed' = (\<exists>st. ed' = ed\<lparr>nodeExecutionStack := st\<rparr>)"

lemma only_stack_refl [simp]: "only_stack ed ed"
  unfolding only_stack_def by (rule exI [of _ "nodeExecutionStack ed"]) simp

lemma only_stack_enqueue [simp]: "only_stack ed (enqueue_entry w e ed)"
  unfolding only_stack_def enqueue_entry_def by blast

lemma only_stack_trans: "only_stack a b \<Longrightarrow> only_stack b c \<Longrightarrow> only_stack a c"
  unfolding only_stack_def by auto

lemma force_input_stack: "force_input w p oi nsd r rd out ed c = Inr ed' \<Longrightarrow> only_stack ed ed'"
  by (auto simp: force_input_def Let_def bind_res_eq_Inr split: if_splits option.splits)

lemma force_inputs_stack: "force_inputs w cd oi p nsd r rd ins ed = Inr ed' \<Longrightarrow> only_stack ed ed'"
  by (auto simp: force_inputs_def bind_res_eq_Inr
      elim!: fold_res_invariant [where P = "only_stack ed"] intro: only_stack_trans force_input_stack)

lemma put_pending_stack: "(put_pending n wi p ed)\<lparr>nodeExecutionStack := st\<rparr> = put_pending n wi p (ed\<lparr>nodeExecutionStack := st\<rparr>)"
  by (simp add: put_pending_def)

text \<open>Whenever \<open>addNodeToBeExecuted\<close> returns, it keeps the invariant of the waiting entries.\<close>

lemma addNode_waiting_ok:
  assumes run: "addNodeToBeExecuted w cd oi parent nsd r rd ed = Inr ed'" and ok: "waiting_ok w ed"
    and ci: "\<And>ins. main_inputs w (conn_node cd) = Some ins \<Longrightarrow> conn_index cd < length ins"
    and out: "emitted nsd oi = Val its" "nsd \<noteq> None"
  shows "waiting_ok w ed'"
proof -
  define n where "n = conn_node cd"
  obtain ins where ins: "main_inputs w n = Some ins"
    using run by (auto simp: addNodeToBeExecuted_def n_def split: option.splits)
  show ?thesis
  proof (cases "length ins \<le> 1")
    case True
    then show ?thesis
      using run ok ins by (auto simp: addNodeToBeExecuted_def add_direct_def n_def bind_res_eq_Inr)
  next
    case False
    then have ins1: "1 < length ins" by simp
    obtain wi new a s where eok: "entry_ok (length ins) a s"
      and rec: "receive_input cd (length ins) oi parent nsd r ed = Inr (wi, put_pending n wi (a, s) ed)"
      and keep: "\<forall>ed1. keep_waiting cd (length ins) oi nsd wi (put_pending n wi (a, s) ed1) = Inr (put_pending n wi (a, s) ed1)"
      by (rule receive_input_ok [OF ok ins n_def [symmetric] ci [OF ins [unfolded n_def]] out, of parent r])
    note run' = run [unfolded addNodeToBeExecuted_def, folded n_def, unfolded ins option.case if_not_P [OF False]
        rec bind_res_simps prod.case]
    show ?thesis
    proof (cases "Null \<in> set a")
      case True
      then have "\<exists>ed4. only_stack (put_pending n wi (a, s) ed) ed4 \<and> keep_waiting cd (length ins) oi nsd wi ed4 = Inr ed'"
      proof (cases "map_has (waitingExecution ed) n")
        case True
        with run' \<open>Null \<in> set a\<close> show ?thesis by (intro exI [of _ "put_pending n wi (a, s) ed"]) simp
      next
        case False
        with run' \<open>Null \<in> set a\<close> show ?thesis by (auto simp: bind_res_eq_Inr intro: force_inputs_stack)
      qed
      then obtain st where "keep_waiting cd (length ins) oi nsd wi (put_pending n wi (a, s) (ed\<lparr>nodeExecutionStack := st\<rparr>)) = Inr ed'"
        by (auto simp: only_stack_def put_pending_stack)
      then have "ed' = put_pending n wi (a, s) (ed\<lparr>nodeExecutionStack := st\<rparr>)" by (simp add: keep)
      then show ?thesis
        using waiting_ok_put [OF _ ins ins1, of "ed\<lparr>nodeExecutionStack := st\<rparr>" "(a, s)"] ok eok True by simp
    next
      case False
      then have f: "waiting_to_stack w n wi (put_pending n wi (a, s) ed) = Inr ed'" using run' by simp
      then obtain node where "getNode w n = Some node"
        by (auto simp: waiting_to_stack_def the_node_def bind_res_eq_Inr split: option.splits)
      from waiting_to_stack_put [OF ok ins ins1 this, of wi "(a, s)"] f show ?thesis by auto
    qed
  qed
qed

end
