(* ===== verification/Execution_Waiting.thy ===== *)
theory Execution_Waiting
  imports Execution_Scheduling
begin

text \<open>
  The end of an iteration of the execution loop: when the stack is empty, the waiting nodes are
  searched for one that may run with the inputs it has. The search restarts whenever it drops a
  waiting entry without any item, and it ends because each restart has one entry less.

  Node types whose \<open>requiredInputs\<close> is an expression need the evaluation of expressions, which is
  a parameter; the code casts its result to an array of numbers and also accepts a number.
\<close>

type_synonym required_eval = "INode \<Rightarrow> string \<Rightarrow> (nat list + nat) option"

text \<open>The default order of \<open>Array.prototype.sort\<close>: by the code units of the strings.\<close>

fun str_compare :: "string \<Rightarrow> string \<Rightarrow> int" where
  "str_compare [] [] = 0"
| "str_compare [] (d # ds) = -1"
| "str_compare (c # cs) [] = 1"
| "str_compare (c # cs) (d # ds) =
     (if (of_char c :: nat) < of_char d then -1 else if (of_char d :: nat) < of_char c then 1
      else str_compare cs ds)"

definition first_run_index :: "(nat, 'e) jsmap \<Rightarrow> nat option" where
  "first_run_index es =
     (case sort_cmp (\<lambda>a b. str_compare (show_nat a) (show_nat b)) (sort (map_keys es)) of
        [] \<Rightarrow> None | i # is \<Rightarrow> Some i)"

definition ports_length :: "node_ports \<Rightarrow> nat" where
  "ports_length ps = (case ps of PortList l \<Rightarrow> length l | PortExpression e \<Rightarrow> length e)"

text \<open>\<open>requiredInputs\<close> after the evaluation of an expression.\<close>

definition required_of :: "required_eval \<Rightarrow> Workflow \<Rightarrow> INode \<Rightarrow> INodeType \<Rightarrow> (nat list + nat) option" where
  "required_of eval w node ty =
     (if is_v1 w then
        (case nt_requiredInputs ty of None \<Rightarrow> None
         | Some (RequiredExpression e) \<Rightarrow> eval node e
         | Some (RequiredList l) \<Rightarrow> Some (Inl l)
         | Some (RequiredCount n) \<Rightarrow> Some (Inr n))
      else None)"

definition all_required :: "(nat list + nat) option \<Rightarrow> INodeType \<Rightarrow> bool" where
  "all_required req ty =
     (case req of None \<Rightarrow> False
      | Some (Inl l) \<Rightarrow> length l = ports_length (nt_inputs ty)
      | Some (Inr n) \<Rightarrow> n = ports_length (nt_inputs ty))"

definition inputs_with_data :: "items cell list \<Rightarrow> nat list" where
  "inputs_with_data arr = filter (\<lambda>j. cell_val (arr ! j) \<noteq> None) [0..<length arr]"

definition required_present :: "(nat list + nat) option \<Rightarrow> items cell list \<Rightarrow> bool" where
  "required_present req arr =
     (case req of None \<Rightarrow> True
      | Some (Inl l) \<Rightarrow> list_all (\<lambda>i. i \<in> set (inputs_with_data arr)) l
      | Some (Inr n) \<Rightarrow> n \<le> length (inputs_with_data arr))"

text \<open>The input of the node: empty arrays for the inputs that never got data.\<close>

definition task_data_main :: "items cell list \<Rightarrow> items cell list" where
  "task_data_main arr = map (\<lambda>c. if c = Null then Val [] else c) arr"

definition has_items :: "items cell list \<Rightarrow> bool" where
  "has_items arr = list_ex (\<lambda>c. cell_list c \<noteq> []) arr"

datatype release = Skip | Released ExecutionData | Dropped ExecutionData

text \<open>One waiting node: skipped, put on the stack, or its empty entry dropped.\<close>

definition try_release ::
  "required_eval \<Rightarrow> INodeTypes \<Rightarrow> Workflow \<Rightarrow> string list \<Rightarrow> string \<Rightarrow> ExecutionData \<Rightarrow> release result" where
  "try_release eval nodeTypes w waitingNodes n ed =
     (case getNode w n of None \<Rightarrow> Inr Skip
      | Some checkNode \<Rightarrow>
          (case nodeTypes (node_type checkNode) (typeVersion checkNode) of None \<Rightarrow> Inl TypeError
           | Some ty \<Rightarrow>
               (let req = required_of eval w checkNode ty
                in if all_required req ty then Inr Skip
                   else if list_ex (\<lambda>p. p \<in> set waitingNodes) (getParentNodes w n (OfType Main) (-1)) then Inr Skip
                   else case first_run_index (run_entries (waitingExecution ed) n) of None \<Rightarrow> Inl TypeError
                   | Some i \<Rightarrow>
                       (case entry_main (waitingExecution ed) n i of None \<Rightarrow> Inl TypeError
                        | Some arr \<Rightarrow>
                            if \<not> required_present req arr then Inr Skip
                            else let main = task_data_main arr in
                              if has_items main then
                                bind_res (delete_waiting n i
                                  (ed\<lparr>nodeExecutionStack := nodeExecutionStack ed @
                                    [\<lparr>exec_data = [(Main, main @ replicate (ports_length (nt_inputs ty) - length main) (Val []))],
                                      exec_metadata = None, exec_node = checkNode,
                                      exec_source = map_get (run_entries (sources ed) n) i\<rparr>]\<rparr>))
                                  (\<lambda>ed'. Inr (Released ed'))
                              else bind_res (delete_waiting n i ed) (\<lambda>ed'. Inr (Dropped ed'))))))"

text \<open>The number of waiting entries, each counted with the weight of its node.\<close>

definition entries_load :: "(string \<Rightarrow> nat) \<Rightarrow> string \<times> (nat, 'e) jsmap \<Rightarrow> nat" where
  "entries_load W p = length (snd p) * W (fst p)"

definition wait_load :: "(string \<Rightarrow> nat) \<Rightarrow> ExecutionData \<Rightarrow> nat" where
  "wait_load W ed = sum_list (map (entries_load W) (waitingExecution ed))"

lemma sum_map_set:
  fixes f :: "'k \<times> 'v \<Rightarrow> nat"
  shows "map_get m k = Some u \<Longrightarrow> sum_list (map f (map_set k v m)) + f (k, u) = sum_list (map f m) + f (k, v)"
  by (induction m) (auto split: if_splits)

lemma sum_map_delete_le:
  fixes f :: "'k \<times> 'v \<Rightarrow> nat"
  shows "sum_list (map f (map_delete k m)) \<le> sum_list (map f m)"
  unfolding map_delete_def by (induction m) auto

lemma sum_map_delete:
  fixes f :: "'k \<times> 'v \<Rightarrow> nat"
  shows "map_get m k = Some u \<Longrightarrow> sum_list (map f (map_delete k m)) + f (k, u) \<le> sum_list (map f m)"
proof (induction m)
  case (Cons p m)
  then show ?case using sum_map_delete_le [of f k m] by (auto simp: map_delete_def split: if_splits)
qed simp

lemma delete_waiting_load:
  assumes "delete_waiting n i ed = Inr ed'" "map_get (run_entries (waitingExecution ed) n) i \<noteq> None"
  shows "wait_load W ed' + W n \<le> wait_load W ed"
proof -
  obtain es where es: "map_get (waitingExecution ed) n = Some es"
    using assms(1) by (auto simp: delete_waiting_def split: option.splits)
  then have "length (map_delete i es) + 1 \<le> length es"
    using assms(2) by (simp add: run_entries_def length_map_delete_less Suc_leI)
  then have le: "length (map_delete i es) * W n + W n \<le> length es * W n"
    by (metis add_mult_distrib mult.left_neutral mult_le_mono1)
  have we: "waitingExecution ed' = (if map_delete i es = [] then map_delete n (waitingExecution ed)
      else map_set n (map_delete i es) (waitingExecution ed))"
    using assms(1) es by (auto simp: delete_waiting_def split: option.splits)
  show ?thesis
    using le sum_map_delete [OF es, of "entries_load W"] sum_map_set [OF es, of "entries_load W" "map_delete i es"]
    unfolding wait_load_def we by (auto simp: entries_load_def)
qed

lemma try_release_Dropped:
  "try_release eval nts w ws n ed = Inr (Dropped ed') \<Longrightarrow> wait_load W ed' + W n \<le> wait_load W ed"
  by (auto simp: try_release_def entry_main_def Let_def bind_res_eq_Inr split: option.splits if_splits
      intro: delete_waiting_load)

text \<open>The loop over the waiting nodes; \<open>waitingNodes\<close> is the whole array.\<close>

function release_loop ::
  "required_eval \<Rightarrow> INodeTypes \<Rightarrow> Workflow \<Rightarrow> string list \<Rightarrow> string list \<Rightarrow> ExecutionData \<Rightarrow> ExecutionData result" where
  "release_loop eval nodeTypes w waitingNodes [] ed = Inr ed"
| "release_loop eval nodeTypes w waitingNodes (n # rest) ed =
     (case try_release eval nodeTypes w waitingNodes n ed of
        Inl e \<Rightarrow> Inl e
      | Inr Skip \<Rightarrow> release_loop eval nodeTypes w waitingNodes rest ed
      | Inr (Released ed') \<Rightarrow> Inr ed'
      | Inr (Dropped ed') \<Rightarrow>
          release_loop eval nodeTypes w (object_keys (waitingExecution ed'))
            (object_keys (waitingExecution ed')) ed')"
  by pat_completeness auto
termination release_loop
  by (relation "measures [\<lambda>(eval, nts, w, ws, rest, ed). wait_load (\<lambda>_. 1) ed,
      \<lambda>(eval, nts, w, ws, rest, ed). length rest]")
    (auto dest: try_release_Dropped [where W = "\<lambda>_. 1"])

declare release_loop.simps [simp del]

definition release_waiting ::
  "required_eval \<Rightarrow> INodeTypes \<Rightarrow> Workflow \<Rightarrow> ExecutionData \<Rightarrow> ExecutionData result" where
  "release_waiting eval nodeTypes w ed =
     (let waitingNodes = object_keys (waitingExecution ed)
      in if nodeExecutionStack ed = [] \<and> waitingNodes \<noteq> []
         then release_loop eval nodeTypes w waitingNodes waitingNodes ed else Inr ed)"

section \<open>What the search does\<close>

lemma insert_cmp_Nil [simp]: "insert_cmp cmp x xs \<noteq> []"
  by (cases xs) auto

lemma sort_cmp_Nil [simp]: "sort_cmp cmp [] = []"
  by (simp add: sort_cmp_def)

lemma first_run_index_Some: "es \<noteq> [] \<Longrightarrow> \<exists>i. first_run_index es = Some i \<and> i \<in> set (map_keys es)"
proof -
  assume "es \<noteq> []"
  then have "sort (map_keys es) \<noteq> []" by (metis map_is_Nil_conv set_empty set_sort)
  then obtain i xs where i: "sort_cmp (\<lambda>a b. str_compare (show_nat a) (show_nat b)) (sort (map_keys es)) = i # xs"
    by (metis length_0_conv length_sort_cmp neq_Nil_conv)
  then have "i \<in> set (sort_cmp (\<lambda>a b. str_compare (show_nat a) (show_nat b)) (sort (map_keys es)))" by simp
  then have "i \<in> set (map_keys es)" by (simp only: set_sort_cmp set_sort)
  with i show ?thesis by (simp add: first_run_index_def)
qed

lemma delete_waiting_ok:
  assumes ok: "waiting_ok w ed" and es: "map_get (waitingExecution ed) n = Some es"
  shows "\<exists>ed'. delete_waiting n i (ed\<lparr>nodeExecutionStack := st\<rparr>) = Inr ed' \<and> waiting_ok w ed'
    \<and> nodeExecutionStack ed' = st
    \<and> (\<forall>m j. pending ed' m j = (if m = n \<and> j = i then None else pending ed m j))"
proof -
  obtain ins where ins: "main_inputs w n = Some ins" "1 < length ins"
    using ok es unfolding waiting_ok_def by blast
  obtain ss where ss: "map_get (sources ed) n = Some ss"
    using ok es unfolding waiting_ok_def map_has_def by fastforce
  have "map_set n es (waitingExecution ed) = waitingExecution ed" "map_set n ss (sources ed) = sources ed"
    using es ss by (simp_all add: map_set_same)
  then show ?thesis
    using delete_waiting_effect [OF ok ins, of "ed\<lparr>nodeExecutionStack := st\<rparr>" es ss i] es ss
    by (simp add: run_entries_def)
qed

definition types_known :: "INodeTypes \<Rightarrow> Workflow \<Rightarrow> bool" where
  "types_known nts w = (\<forall>n node. getNode w n = Some node \<longrightarrow> nts (node_type node) (typeVersion node) \<noteq> None)"

text \<open>Why a waiting node is not released.\<close>

definition blocked :: "required_eval \<Rightarrow> INodeTypes \<Rightarrow> Workflow \<Rightarrow> string list \<Rightarrow> ExecutionData \<Rightarrow> string \<Rightarrow> bool" where
  "blocked eval nts w ws ed n =
     (getNode w n = None
      \<or> (\<exists>node ty. getNode w n = Some node \<and> nts (node_type node) (typeVersion node) = Some ty
           \<and> (all_required (required_of eval w node ty) ty
              \<or> (\<exists>p \<in> set ws. p \<in> set (getParentNodes w n (OfType Main) (-1)))
              \<or> (\<exists>i a s. first_run_index (run_entries (waitingExecution ed) n) = Some i
                   \<and> pending ed n i = Some (a, s) \<and> \<not> required_present (required_of eval w node ty) a))))"

text \<open>The stack entry made from a waiting one.\<close>

definition released_entry :: "INodeTypes \<Rightarrow> INode \<Rightarrow> items cell list \<Rightarrow> ISourceData cell list \<Rightarrow> IExecuteData" where
  "released_entry nts node a s =
     \<lparr>exec_data = [(Main, task_data_main a @ replicate
         (case nts (node_type node) (typeVersion node) of None \<Rightarrow> 0 | Some ty \<Rightarrow> ports_length (nt_inputs ty) - length a)
         (Val []))],
      exec_metadata = None, exec_node = node, exec_source = Some [(Main, s)]\<rparr>"

definition without :: "ExecutionData \<Rightarrow> string \<Rightarrow> nat \<Rightarrow> ExecutionData \<Rightarrow> bool" where
  "without ed n i ed' = (\<forall>m j. pending ed' m j = (if m = n \<and> j = i then None else pending ed m j))"

definition release_ok ::
  "required_eval \<Rightarrow> INodeTypes \<Rightarrow> Workflow \<Rightarrow> string list \<Rightarrow> ExecutionData \<Rightarrow> string \<Rightarrow> release \<Rightarrow> bool" where
  "release_ok eval nts w ws ed n r =
     (case r of Skip \<Rightarrow> blocked eval nts w ws ed n
      | Released ed' \<Rightarrow> waiting_ok w ed' \<and> (\<exists>i a s node. getNode w n = Some node
          \<and> pending ed n i = Some (a, s) \<and> has_items a \<and> without ed n i ed'
          \<and> nodeExecutionStack ed' = nodeExecutionStack ed @ [released_entry nts node a s]
          \<and> (\<forall>W. wait_load W ed' + W n \<le> wait_load W ed))
      | Dropped ed' \<Rightarrow> waiting_ok w ed' \<and> nodeExecutionStack ed' = nodeExecutionStack ed
          \<and> (\<exists>i a s. pending ed n i = Some (a, s) \<and> \<not> has_items a \<and> without ed n i ed')
          \<and> (\<forall>W. wait_load W ed' + W n \<le> wait_load W ed))"

lemma has_items_task_data [simp]: "has_items (task_data_main a) = has_items a"
  unfolding has_items_def task_data_main_def by (induction a) auto

lemma waiting_first_entry:
  assumes "waiting_ok w ed" "map_get (waitingExecution ed) n = Some es"
  obtains i a s where "first_run_index (run_entries (waitingExecution ed) n) = Some i" "pending ed n i = Some (a, s)"
    "map_get (run_entries (waitingExecution ed) n) i = Some [(Main, a)]"
    "map_get (run_entries (sources ed) n) i = Some [(Main, s)]"
proof -
  obtain ins where es: "es \<noteq> []" "main_inputs w n = Some ins"
    using assms unfolding waiting_ok_def by blast
  have run: "run_entries (waitingExecution ed) n = es" using assms(2) by (simp add: run_entries_def)
  note nok = waiting_ok_entries [OF assms(1) es(2)]
  obtain i where i: "first_run_index es = Some i" "i \<in> set (map_keys es)" using first_run_index_Some [OF es(1)] by blast
  then obtain e where e: "map_get (run_entries (waitingExecution ed) n) i = Some e"
    unfolding run by (metis map_of_eq_None_iff not_None_eq set_map)
  from node_waiting_okD [OF nok e] show thesis
    using that [of i] i(1) e pending_entry [OF nok] run by metis
qed

lemma try_release_spec:
  assumes ok: "waiting_ok w ed" and n: "map_get (waitingExecution ed) n = Some es" and ty: "types_known nts w"
  shows "\<exists>r. try_release eval nts w ws n ed = Inr r \<and> release_ok eval nts w ws ed n r"
proof (cases "getNode w n")
  case None
  then show ?thesis by (simp add: try_release_def release_ok_def blocked_def)
next
  case (Some node)
  then obtain t where t: "nts (node_type node) (typeVersion node) = Some t" using ty by (auto simp: types_known_def)
  let ?req = "required_of eval w node t"
  obtain i a s where f: "first_run_index (run_entries (waitingExecution ed) n) = Some i" "pending ed n i = Some (a, s)"
    "map_get (run_entries (waitingExecution ed) n) i = Some [(Main, a)]"
    "map_get (run_entries (sources ed) n) i = Some [(Main, s)]"
    by (rule waiting_first_entry [OF ok n])
  then have main: "entry_main (waitingExecution ed) n i = Some a" by (simp add: entry_main_def)
  consider "all_required ?req t \<or> (\<exists>p \<in> set ws. p \<in> set (getParentNodes w n (OfType Main) (-1)))
      \<or> \<not> required_present ?req a"
    | "\<not> all_required ?req t" "\<not> list_ex (\<lambda>p. p \<in> set ws) (getParentNodes w n (OfType Main) (-1))"
      "required_present ?req a" "has_items a"
    | "\<not> all_required ?req t" "\<not> list_ex (\<lambda>p. p \<in> set ws) (getParentNodes w n (OfType Main) (-1))"
      "required_present ?req a" "\<not> has_items a"
    by (auto simp: list_ex_iff)
  then show ?thesis
  proof cases
    case 1
    then have "try_release eval nts w ws n ed = Inr Skip"
      using Some t f main by (auto simp: try_release_def Let_def list_ex_iff)
    moreover have "blocked eval nts w ws ed n" using 1 Some t f unfolding blocked_def by blast
    ultimately show ?thesis by (simp add: release_ok_def)
  next
    case 2
    let ?st = "nodeExecutionStack ed @ [released_entry nts node a s]"
    obtain ed' where d: "delete_waiting n i (ed\<lparr>nodeExecutionStack := ?st\<rparr>) = Inr ed'" "waiting_ok w ed'"
      "nodeExecutionStack ed' = ?st" "without ed n i ed'"
      using delete_waiting_ok [OF ok n] unfolding without_def by blast
    have "wait_load W ed' + W n \<le> wait_load W (ed\<lparr>nodeExecutionStack := ?st\<rparr>)" for W
      by (rule delete_waiting_load [OF d(1)]) (simp add: f(3))
    then have "wait_load W ed' + W n \<le> wait_load W ed" for W by (simp add: wait_load_def)
    moreover have "try_release eval nts w ws n ed = Inr (Released ed')"
      using 2 Some t f main d(1)
      by (simp add: try_release_def Let_def released_entry_def task_data_main_def [THEN arg_cong [of _ _ length]])
    ultimately show ?thesis using d Some f(2) 2(4) unfolding release_ok_def by auto
  next
    case 3
    obtain ed' where d: "delete_waiting n i (ed\<lparr>nodeExecutionStack := nodeExecutionStack ed\<rparr>) = Inr ed'" "waiting_ok w ed'"
      "nodeExecutionStack ed' = nodeExecutionStack ed" "without ed n i ed'"
      using delete_waiting_ok [OF ok n] unfolding without_def by blast
    have "wait_load W ed' + W n \<le> wait_load W ed" for W
      by (rule delete_waiting_load [of n i]) (use d(1) f(3) in simp_all)
    moreover have "try_release eval nts w ws n ed = Inr (Dropped ed')"
      using 3 Some t f main d(1) by (simp add: try_release_def Let_def)
    ultimately show ?thesis using d f(2) 3(4) unfolding release_ok_def by auto
  qed
qed

text \<open>
  The weight of a state: every entry on the stack and every waiting entry counts with the
  weight of its node.
\<close>

definition stack_load :: "(string \<Rightarrow> nat) \<Rightarrow> ExecutionData \<Rightarrow> nat" where
  "stack_load W ed = sum_list (map (\<lambda>e. W (node_name (exec_node e))) (nodeExecutionStack ed))"

definition load :: "(string \<Rightarrow> nat) \<Rightarrow> ExecutionData \<Rightarrow> nat" where
  "load W ed = stack_load W ed + wait_load W ed"

text \<open>
  The search ends with one entry more on the stack, or with every waiting node blocked; only
  entries without items are dropped, and the weight does not grow.
\<close>

definition search_ok ::
  "required_eval \<Rightarrow> INodeTypes \<Rightarrow> Workflow \<Rightarrow> ExecutionData \<Rightarrow> ExecutionData \<Rightarrow> bool" where
  "search_ok eval nts w ed ed' =
     ((nodes_wf w \<longrightarrow> (\<forall>W. load W ed' \<le> load W ed))
      \<and> (nodeExecutionStack ed' = nodeExecutionStack ed
           \<and> (\<forall>n es. map_get (waitingExecution ed') n = Some es \<longrightarrow>
                blocked eval nts w (object_keys (waitingExecution ed')) ed' n)
           \<and> (\<forall>m j p. pending ed m j = Some p \<longrightarrow> has_items (fst p) \<longrightarrow> pending ed' m j = Some p)
         \<or> (\<exists>n i a s node. getNode w n = Some node \<and> pending ed n i = Some (a, s) \<and> has_items a
           \<and> nodeExecutionStack ed' = nodeExecutionStack ed @ [released_entry nts node a s]
           \<and> pending ed' n i = None
           \<and> (\<forall>m j p. (m, j) \<noteq> (n, i) \<longrightarrow> pending ed m j = Some p \<longrightarrow> has_items (fst p) \<longrightarrow> pending ed' m j = Some p))))"

lemma released_load:
  "nodes_wf w \<Longrightarrow> getNode w n = Some node \<Longrightarrow>
     nodeExecutionStack ed' = nodeExecutionStack ed @ [released_entry nts node a s] \<Longrightarrow>
     wait_load W ed' + W n \<le> wait_load W ed \<Longrightarrow> load W ed' \<le> load W ed"
  by (simp add: load_def stack_load_def released_entry_def getNode_name)

lemma search_ok_released:
  assumes "release_ok eval nts w ws ed n (Released ed')"
  shows "waiting_ok w ed' \<and> search_ok eval nts w ed ed'"
proof -
  from assms obtain i a s node where r: "waiting_ok w ed'" "getNode w n = Some node" "pending ed n i = Some (a, s)"
    "has_items a" "without ed n i ed'" "nodeExecutionStack ed' = nodeExecutionStack ed @ [released_entry nts node a s]"
    "\<And>W. wait_load W ed' + W n \<le> wait_load W ed"
    unfolding release_ok_def by auto
  have "\<forall>m j p. (m, j) \<noteq> (n, i) \<longrightarrow> pending ed m j = Some p \<longrightarrow> has_items (fst p) \<longrightarrow> pending ed' m j = Some p"
    "pending ed' n i = None" using r(5) by (auto simp: without_def)
  then show ?thesis
    unfolding search_ok_def using r(1-4,6) released_load [OF _ r(2,6) r(7)] by blast
qed

lemma search_ok_dropped:
  assumes "nodeExecutionStack ed1 = nodeExecutionStack ed" "pending ed n i = Some (a, s)" "\<not> has_items a" "without ed n i ed1"
    "\<And>W. wait_load W ed1 + W n \<le> wait_load W ed" "search_ok eval nts w ed1 ed'"
  shows "search_ok eval nts w ed ed'"
proof -
  have keep: "pending ed1 m j = Some p" if "pending ed m j = Some p" "has_items (fst p)" for m j p
    using that assms(2-4) by (auto simp: without_def)
  have in_ed: "pending ed m j = Some p" if "pending ed1 m j = Some p" for m j p
    using that assms(4) by (auto simp: without_def split: if_splits)
  have le: "load W ed1 \<le> load W ed" for W
    using assms(1) assms(5) [of W] by (simp add: load_def stack_load_def)
  then have "nodes_wf w \<longrightarrow> (\<forall>W. load W ed' \<le> load W ed)"
    using assms(6) unfolding search_ok_def by (meson le_trans)
  with assms(6) show ?thesis
    unfolding search_ok_def assms(1) using keep in_ed by (elim conjE disjE exE) blast+
qed

lemma release_loop_spec:
  assumes "waiting_ok w ed" "types_known nts w" "set rest \<subseteq> set (map_keys (waitingExecution ed))"
    "ws = object_keys (waitingExecution ed)" "\<forall>n \<in> set ws. n \<in> set rest \<or> blocked eval nts w ws ed n"
  shows "\<exists>ed'. release_loop eval nts w ws rest ed = Inr ed' \<and> waiting_ok w ed' \<and> search_ok eval nts w ed ed'"
  using assms
proof (induction eval nts w ws rest ed rule: release_loop.induct)
  case (1 eval nts w ws ed)
  have "blocked eval nts w (object_keys (waitingExecution ed)) ed n" if "map_get (waitingExecution ed) n = Some es" for n es
  proof -
    have "n \<in> set ws" using map_of_SomeD [OF that] unfolding "1.prems"(4) by force
    then show ?thesis using "1.prems"(4,5) by auto
  qed
  then have "search_ok eval nts w ed ed" unfolding search_ok_def by blast
  with "1.prems"(1) show ?case by (simp add: release_loop.simps)
next
  case (2 eval nts w ws n rest ed)
  obtain es where n: "map_get (waitingExecution ed) n = Some es"
    using "2.prems"(3) by (force dest: weak_map_of_SomeI simp: map_of_eq_None_iff)
  obtain r where r: "try_release eval nts w ws n ed = Inr r" "release_ok eval nts w ws ed n r"
    using try_release_spec [OF "2.prems"(1) n "2.prems"(2)] by blast
  show ?case
  proof (cases r)
    case Skip
    with r "2.prems" have "\<exists>ed'. release_loop eval nts w ws rest ed = Inr ed' \<and> waiting_ok w ed' \<and> search_ok eval nts w ed ed'"
      by (intro "2.IH"(1)) (auto simp: release_ok_def)
    then show ?thesis using r(1) Skip by (simp add: release_loop.simps)
  next
    case (Released ed')
    then show ?thesis using r search_ok_released [of eval nts w ws ed n ed'] by (simp add: release_loop.simps)
  next
    case (Dropped ed1)
    let ?ks = "object_keys (waitingExecution ed1)"
    from r(2) Dropped obtain i a s where d: "waiting_ok w ed1" "nodeExecutionStack ed1 = nodeExecutionStack ed"
      "pending ed n i = Some (a, s)" "\<not> has_items a" "without ed n i ed1" "\<And>W. wait_load W ed1 + W n \<le> wait_load W ed"
      unfolding release_ok_def by auto
    have "\<exists>ed'. release_loop eval nts w ?ks ?ks ed1 = Inr ed' \<and> waiting_ok w ed' \<and> search_ok eval nts w ed1 ed'"
      using r(1) Dropped d(1) "2.prems"(2) by (intro "2.IH"(2)) auto
    then show ?thesis using r(1) Dropped search_ok_dropped [OF d(2-6)] by (auto simp: release_loop.simps)
  qed
qed

lemma release_waiting_spec:
  assumes "waiting_ok w ed" "types_known nts w" "nodeExecutionStack ed = []"
  shows "\<exists>ed'. release_waiting eval nts w ed = Inr ed' \<and> waiting_ok w ed' \<and> search_ok eval nts w ed ed'"
proof (cases "waitingExecution ed = []")
  case True
  then have "search_ok eval nts w ed ed" unfolding search_ok_def by simp
  with True assms show ?thesis by (simp add: release_waiting_def object_entries_def)
next
  case False
  then have "object_keys (waitingExecution ed) \<noteq> []"
    by (metis length_0_conv length_map length_object_entries)
  with assms release_loop_spec [OF assms(1,2) _ refl, of "object_keys (waitingExecution ed)" eval] show ?thesis
    by (simp add: release_waiting_def Let_def)
qed

end
