(* ===== verification/Execution_Node.thy ===== *)
theory Execution_Node
  imports Execution_Waiting
begin

text \<open>
  Running one node: \<open>getCustomOperation\<close>, \<open>runNode\<close> and the loop of tries around it in
  \<open>processRunExecutionData\<close> (\<open>workflow-execute.ts\<close>).

  What a node does when it runs is not code of the engine: the environment gives the functions
  that execute, poll or trigger a node, and they may change the whole state of the execution and
  a world of their own, which also stands for time and the abort signal. Errors are values; the
  text of an error that the runtime throws is given by the environment too.

  Items are values: a node that changes its input items in place, or keeps references to the
  arrays it returned, is outside the model.
\<close>

section \<open>State and environment\<close>

record 'w engine =
  eg_start :: StartData
  eg_result :: ResultData
  eg_exec :: ExecutionData
  eg_waitTill :: "int option"
  eg_status :: ExecutionStatus
  eg_index :: int
  eg_world :: 'w

record 'w IRunNodeResponse =
  resp_data :: "outputs cell"
  resp_hints :: "string list"
  resp_close :: "('w \<Rightarrow> 'w) option"

record 'w ITriggerResponse =
  tr_close :: "('w \<Rightarrow> 'w) option"
  tr_manual :: "('w \<Rightarrow> ExecutionError option \<times> 'w) option"
  tr_response :: "'w \<Rightarrow> (ExecutionError + outputs) \<times> 'w"

datatype node_code = ExecuteMethod | CustomOperation string string | RoutingNode

text \<open>
  The result of node code: the outputs or an error, the hints of the context, and the
  rejections of the close functions, \<open>None\<close> for a reason that is not an \<open>Error\<close>.
\<close>

record node_result =
  nr_data :: "ExecutionError + outputs cell"
  nr_hints :: "string list"
  nr_closing :: "ExecutionError option list"

record 'w env =
  env_nodeTypes :: INodeTypes
  env_mode :: WorkflowExecuteMode
  env_error :: "js_error \<Rightarrow> ExecutionError"
  env_ports :: port_eval
  env_required :: required_eval
  env_paired :: "'w engine \<Rightarrow> paired_lookup"
  env_run :: "node_code \<Rightarrow> items \<Rightarrow> ITaskDataConnections \<Rightarrow> nat \<Rightarrow> IExecuteData \<Rightarrow> 'w engine
     \<Rightarrow> node_result \<times> IExecuteData \<times> 'w engine"
  env_poll :: "INode \<Rightarrow> 'w engine \<Rightarrow> (ExecutionError + outputs cell) \<times> 'w engine"
  env_trigger :: "INode \<Rightarrow> 'w engine \<Rightarrow> (ExecutionError + 'w ITriggerResponse option) \<times> 'w engine"
  env_sleep :: "int \<Rightarrow> 'w \<Rightarrow> 'w"
  env_now :: "'w \<Rightarrow> int"
  env_expired :: "'w \<Rightarrow> bool"
  env_aborted :: "'w \<Rightarrow> bool"

section \<open>\<open>runNode\<close>\<close>

definition getCustomOperation :: "INode \<Rightarrow> INodeType \<Rightarrow> node_code option" where
  "getCustomOperation node type =
     (case nt_customOperations type of None \<Rightarrow> None
      | Some customOperations \<Rightarrow>
          (let (resource, operation) =
             (case forceCustomOperation node of Some (r, op) \<Rightarrow> (JStr r, JStr op)
              | None \<Rightarrow> (obj_get (parameters node) ''resource'', obj_get (parameters node) ''operation''))
           in case (resource, operation) of
                (JStr r, JStr op) \<Rightarrow>
                  (case map_get customOperations r of None \<Rightarrow> None
                   | Some ops \<Rightarrow> if op \<in> set ops then Some (CustomOperation r op) else None)
              | _ \<Rightarrow> None))"

definition no_response :: "outputs cell \<Rightarrow> 'w IRunNodeResponse" where
  "no_response d = \<lparr>resp_data = d, resp_hints = [], resp_close = None\<rparr>"

text \<open>A disabled node passes on the data of its first Main input.\<close>

definition disabled_output :: "ITaskDataConnections \<Rightarrow> outputs cell" where
  "disabled_output d =
     (case map_get d Main of Some (c # cs) \<Rightarrow> (if c = Null then Hole else Val [c]) | _ \<Rightarrow> Hole)"

text \<open>The items a node runs on: the first input, in the order \<open>v1\<close> the first input with items.\<close>

definition connection_input_data :: "Workflow \<Rightarrow> ITaskDataConnections \<Rightarrow> items cell result" where
  "connection_input_data w d =
     (let first = (case map_get d Main of Some (c # cs) \<Rightarrow> c | _ \<Rightarrow> Val [])
      in if is_v1 w then
           (case map_get d Main of None \<Rightarrow> Inl TypeError
            | Some main \<Rightarrow>
                (case List.find (\<lambda>c. cell_list c \<noteq> []) main of Some c \<Rightarrow> Inr c | None \<Rightarrow> Inr first))
         else Inr first)"

text \<open>Whether the node already failed, in which case its error is thrown again.\<close>

definition earlier_error :: "INode \<Rightarrow> ResultData \<Rightarrow> ExecutionError option" where
  "earlier_error node res =
     (case result_error res of None \<Rightarrow> None
      | Some e \<Rightarrow>
          if lastNodeExecuted res \<noteq> Some (node_name node) then None
          else if err_name e = ''NodeOperationError'' \<or> err_name e = ''NodeApiError'' then Some e
          else Some \<lparr>err_name = ''Error'', err_message = err_message e, err_stack = err_stack e,
                      err_description = None\<rparr>)"

definition run_code ::
  "'w env \<Rightarrow> node_code \<Rightarrow> items \<Rightarrow> ITaskDataConnections \<Rightarrow> nat \<Rightarrow> IExecuteData \<Rightarrow> 'w engine
     \<Rightarrow> (ExecutionError + 'w IRunNodeResponse) \<times> IExecuteData \<times> 'w engine" where
  "run_code env code connectionInputData inputData runIndex ed eg =
     (case env_run env code connectionInputData inputData runIndex ed eg of
        (res, ed', eg') \<Rightarrow>
          (case nr_data res of
             Inl e \<Rightarrow> (Inl e, ed', eg')
           | Inr d \<Rightarrow>
               (case nr_closing res of
                  [] \<Rightarrow> (Inr \<lparr>resp_data = d, resp_hints = nr_hints res, resp_close = None\<rparr>, ed', eg')
                | None # _ \<Rightarrow> (Inl (env_error env (ApplicationError
                    ''Error on execution node's close function(s)'')), ed', eg')
                | Some e # _ \<Rightarrow> (Inl e, ed', eg'))))"

definition run_trigger ::
  "'w env \<Rightarrow> INode \<Rightarrow> 'w engine \<Rightarrow> (ExecutionError + 'w IRunNodeResponse) \<times> 'w engine" where
  "run_trigger env node eg =
     (case env_trigger env node eg of
        (Inl e, eg') \<Rightarrow> (Inl e, eg')
      | (Inr None, eg') \<Rightarrow> (Inr (no_response Null), eg')
      | (Inr (Some tr), eg') \<Rightarrow>
          (let (failed, world) =
             (case tr_manual tr of None \<Rightarrow> (None, eg_world eg') | Some f \<Rightarrow> f (eg_world eg'))
           in case failed of Some e \<Rightarrow> (Inl e, eg'\<lparr>eg_world := world\<rparr>)
              | None \<Rightarrow>
                  (case tr_response tr world of
                     (Inl e, world') \<Rightarrow> (Inl e, eg'\<lparr>eg_world := world'\<rparr>)
                   | (Inr response, world') \<Rightarrow>
                       (Inr \<lparr>resp_data = (if response = [] then Null else Val response), resp_hints = [],
                             resp_close = tr_close tr\<rparr>, eg'\<lparr>eg_world := world'\<rparr>))))"

text \<open>\<open>inputData.main\<close> as the outputs of a node that passes its data through.\<close>

definition pass_through :: "ITaskDataConnections \<Rightarrow> outputs cell" where
  "pass_through d = (case map_get d Main of None \<Rightarrow> Hole | Some m \<Rightarrow> Val m)"

text \<open>What remains once it is known that the node has data to run on.\<close>

definition dispatch_node ::
  "'w env \<Rightarrow> Workflow \<Rightarrow> INodeType \<Rightarrow> items \<Rightarrow> nat \<Rightarrow> IExecuteData \<Rightarrow> 'w engine
     \<Rightarrow> (ExecutionError + 'w IRunNodeResponse) \<times> IExecuteData \<times> 'w engine" where
  "dispatch_node env w ty connectionInputData runIndex ed eg =
     (let node = exec_node ed;
          inputData = (if executeOnce node = Some True then first_items_only (exec_data ed) else exec_data ed)
      in case earlier_error node (eg_result eg) of
           Some e \<Rightarrow> (Inl e, ed, eg)
         | None \<Rightarrow>
             (case getCustomOperation node ty of
                Some code \<Rightarrow> run_code env code connectionInputData inputData runIndex ed eg
              | None \<Rightarrow>
                  if nt_execute ty then run_code env ExecuteMethod connectionInputData inputData runIndex ed eg
                  else if nt_poll ty then
                    (if env_mode env = ModeManual
                     then (case env_poll env node eg of
                             (Inl e, eg') \<Rightarrow> (Inl e, ed, eg') | (Inr d, eg') \<Rightarrow> (Inr (no_response d), ed, eg'))
                     else (Inr (no_response (pass_through inputData)), ed, eg))
                  else if nt_trigger ty then
                    (if env_mode env = ModeManual
                     then (case run_trigger env node eg of (r, eg') \<Rightarrow> (r, ed, eg'))
                     else (Inr (no_response (pass_through inputData)), ed, eg))
                  else if nt_webhook ty \<and> \<not> nt_requestDefaults ty
                    then (Inr (no_response (pass_through inputData)), ed, eg)
                  else (case env_run env RoutingNode connectionInputData inputData runIndex ed eg of
                          (res, ed', eg') \<Rightarrow>
                            (case nr_data res of Inl e \<Rightarrow> (Inl e, ed', eg')
                             | Inr d \<Rightarrow> (Inr (no_response d), ed', eg')))))"

definition runNode ::
  "'w env \<Rightarrow> Workflow \<Rightarrow> nat \<Rightarrow> IExecuteData \<Rightarrow> 'w engine
     \<Rightarrow> (ExecutionError + 'w IRunNodeResponse) \<times> IExecuteData \<times> 'w engine" where
  "runNode env w runIndex ed eg =
     (if disabled (exec_node ed) = Some True
      then (Inr (no_response (disabled_output (exec_data ed))), ed, eg)
      else case env_nodeTypes env (node_type (exec_node ed)) (typeVersion (exec_node ed)) of
        None \<Rightarrow> (Inl (env_error env TypeError), ed, eg)
      | Some ty \<Rightarrow>
          if nt_execute ty \<or> getCustomOperation (exec_node ed) ty \<noteq> None
             \<or> (\<not> nt_poll ty \<and> \<not> nt_trigger ty \<and> \<not> nt_webhook ty)
          then (case connection_input_data w (exec_data ed) of
                  Inl e \<Rightarrow> (Inl (env_error env e), ed, eg)
                | Inr (Val its) \<Rightarrow>
                    if its = [] then (Inr (no_response Hole), ed, eg)
                    else dispatch_node env w ty its runIndex ed eg
                | Inr _ \<Rightarrow> (Inl (env_error env TypeError), ed, eg))
          else dispatch_node env w ty [] runIndex ed eg)"

section \<open>The tries\<close>

definition max_tries :: "INode \<Rightarrow> nat" where
  "max_tries node =
     (if retryOnFail node = Some True
      then min 5 (max 2 (case maxTries node of None \<Rightarrow> 3 | Some n \<Rightarrow> if n = 0 then 3 else n))
      else 1)"

definition wait_between_tries :: "INode \<Rightarrow> int" where
  "wait_between_tries node =
     (if retryOnFail node = Some True
      then min 5000 (max 0 (case waitBetweenTries node of None \<Rightarrow> 1000 | Some n \<Rightarrow> if n = 0 then 1000 else n))
      else 0)"

text \<open>
  The variables of the loop: the entry, the state, \<open>nodeSuccessData\<close>, the hints collected and
  \<open>executionError\<close>. The position of the loop is the number of tries that remain after the
  current one, \<open>maxTries - 1 - tryIndex\<close>.
\<close>

record 'w tries =
  ts_entry :: IExecuteData
  ts_engine :: "'w engine"
  ts_data :: "outputs cell"
  ts_hints :: "string list"
  ts_error :: "ExecutionError option"

definition sleep_tries :: "'w env \<Rightarrow> 'w tries \<Rightarrow> 'w tries" where
  "sleep_tries env ts =
     (let eg = ts_engine ts
      in ts\<lparr>ts_engine := eg\<lparr>eg_world :=
           env_sleep env (wait_between_tries (exec_node (ts_entry ts))) (eg_world eg)\<rparr>\<rparr>)"

definition call_node ::
  "'w env \<Rightarrow> Workflow \<Rightarrow> nat \<Rightarrow> 'w tries \<Rightarrow> (ExecutionError + 'w IRunNodeResponse) \<times> 'w tries" where
  "call_node env w runIndex ts =
     (case runNode env w runIndex (ts_entry ts) (ts_engine ts) of
        (Inl e, ed, eg) \<Rightarrow> (Inl e, ts\<lparr>ts_entry := ed, ts_engine := eg\<rparr>)
      | (Inr resp, ed, eg) \<Rightarrow>
          (Inr resp, ts\<lparr>ts_entry := ed, ts_engine := eg, ts_data := resp_data resp\<rparr>))"

text \<open>
  The inner loop runs the node again while its first output item reports an error. It counts a
  try only after the node returned.
\<close>

fun rerun ::
  "'w env \<Rightarrow> Workflow \<Rightarrow> nat \<Rightarrow> nat \<Rightarrow> 'w IRunNodeResponse \<Rightarrow> 'w tries
     \<Rightarrow> (ExecutionError + 'w IRunNodeResponse) \<times> nat \<times> 'w tries" where
  "rerun env w runIndex 0 resp ts = (Inr resp, 0, ts)"
| "rerun env w runIndex (Suc left) resp ts =
     (if did_continue_on_fail (ts_data ts) then
        (case call_node env w runIndex (sleep_tries env ts) of
           (Inl e, ts') \<Rightarrow> (Inl e, Suc left, ts')
         | (Inr resp', ts') \<Rightarrow> rerun env w runIndex left resp' ts')
      else (Inr resp, Suc left, ts))"

text \<open>The data of the node that ran: hints, error output, and the call of the close function.\<close>

definition accept_response ::
  "'w env \<Rightarrow> 'w IRunNodeResponse \<Rightarrow> 'w tries \<Rightarrow> ExecutionError option \<times> 'w tries" where
  "accept_response env resp ts =
     (let ts1 = ts\<lparr>ts_hints := ts_hints ts @ resp_hints resp\<rparr>;
          handled =
            (case ts_data ts1 of
               Val outs \<Rightarrow>
                 if onError (exec_node (ts_entry ts1)) = Some ContinueErrorOutput then
                   (case handleNodeErrorOutput (env_error env) (env_ports env) (env_paired env (ts_engine ts1))
                      (env_nodeTypes env) (ts_entry ts1) outs of
                      Inl e \<Rightarrow> Inl e | Inr outs' \<Rightarrow> Inr (Val outs'))
                 else Inr (Val outs)
             | d \<Rightarrow> Inr d)
      in case handled of Inl e \<Rightarrow> (Some e, ts1)
         | Inr d \<Rightarrow>
             (None, ts1\<lparr>ts_data := d, ts_engine :=
                (case resp_close resp of None \<Rightarrow> ts_engine ts1
                 | Some f \<Rightarrow> (ts_engine ts1)\<lparr>eg_world := f (eg_world (ts_engine ts1))\<rparr>)\<rparr>))"

definition pinned_items :: "'w engine \<Rightarrow> INode \<Rightarrow> items option" where
  "pinned_items eg node =
     (case pinData (eg_result eg) of None \<Rightarrow> None
      | Some pins \<Rightarrow> if disabled node = Some True then None else map_get pins (node_name node))"

text \<open>Pinned data stands in for the run of the node.\<close>

definition produce ::
  "'w env \<Rightarrow> Workflow \<Rightarrow> nat \<Rightarrow> nat \<Rightarrow> 'w tries \<Rightarrow> ExecutionError option \<times> nat \<times> 'w tries" where
  "produce env w runIndex left ts =
     (case pinned_items (ts_engine ts) (exec_node (ts_entry ts)) of
        Some its \<Rightarrow> (None, left, ts\<lparr>ts_data := Val [Val its]\<rparr>)
      | None \<Rightarrow>
          (case call_node env w runIndex ts of
             (Inl e, ts') \<Rightarrow> (Some e, left, ts')
           | (Inr resp, ts') \<Rightarrow>
               (case rerun env w runIndex left resp ts' of
                  (Inl e, left', ts'') \<Rightarrow> (Some e, left', ts'')
                | (Inr resp', left', ts'') \<Rightarrow>
                    (case accept_response env resp' ts'' of (failed, ts3) \<Rightarrow> (failed, left', ts3)))))"

text \<open>
  Pinned items are shared with the pinned data of the execution, so pairing them changes the
  pinned data as well.
\<close>

definition share_pinned :: "bool \<Rightarrow> string \<Rightarrow> outputs cell \<Rightarrow> ResultData \<Rightarrow> ResultData" where
  "share_pinned pinned n d res =
     (case (pinned, d, pinData res) of
        (True, Val (Val its # _), Some pins) \<Rightarrow> res\<lparr>pinData := Some (map_set n its pins)\<rparr>
      | _ \<Rightarrow> res)"

text \<open>The end of a try: \<open>True\<close> if the branch of the execution ends here.\<close>

definition conclude :: "'w env \<Rightarrow> bool \<Rightarrow> 'w tries \<Rightarrow> (ExecutionError + bool) \<times> 'w tries" where
  "conclude env pinned ts =
     (let eg = ts_engine ts; ed = ts_entry ts
      in case assignPairedItems (ts_data ts) ed (eg_result eg) of
           Inl e \<Rightarrow> (Inl (env_error env e), ts)
         | Inr (d, res) \<Rightarrow>
             (let ts1 = ts\<lparr>ts_data := d, ts_engine :=
                    eg\<lparr>eg_result := share_pinned pinned (node_name (exec_node ed)) d res\<rparr>\<rparr>
              in case ensure_output d ed of
                   Inl e \<Rightarrow> (Inl (env_error env e), ts1)
                 | Inr d' \<Rightarrow> (Inr (d' = Null \<and> eg_waitTill eg = None), ts1\<lparr>ts_data := d'\<rparr>)))"

definition attempt ::
  "'w env \<Rightarrow> Workflow \<Rightarrow> nat \<Rightarrow> nat \<Rightarrow> 'w tries \<Rightarrow> (ExecutionError + bool) \<times> nat \<times> 'w tries" where
  "attempt env w runIndex left ts =
     (let pinned = (pinned_items (ts_engine ts) (exec_node (ts_entry ts)) \<noteq> None)
      in case produce env w runIndex left (ts\<lparr>ts_error := None\<rparr>) of
           (Some e, left', ts') \<Rightarrow> (Inl e, left', ts')
         | (None, left', ts') \<Rightarrow> (case conclude env pinned ts' of (r, ts'') \<Rightarrow> (r, left', ts'')))"

definition record_error :: "ExecutionError \<Rightarrow> 'w tries \<Rightarrow> 'w tries" where
  "record_error e ts =
     (let eg = ts_engine ts
      in ts\<lparr>ts_error := Some e, ts_engine := eg\<lparr>eg_result :=
           (eg_result eg)\<lparr>lastNodeExecuted := Some (node_name (exec_node (ts_entry ts)))\<rparr>\<rparr>\<rparr>)"

lemma rerun_left: "rerun env w ri left resp ts = (r, left', ts') \<Longrightarrow> left' \<le> left"
  by (induction env w ri left resp ts rule: rerun.induct)
    (auto split: if_splits prod.splits sum.splits intro: le_SucI)

lemma produce_left: "produce env w ri left ts = (r, left', ts') \<Longrightarrow> left' \<le> left"
  by (auto simp: produce_def split: option.splits prod.splits sum.splits dest!: rerun_left)

lemma attempt_left: "attempt env w ri left ts = (r, left', ts') \<Longrightarrow> left' \<le> left"
  by (auto simp: attempt_def Let_def split: option.splits prod.splits dest!: produce_left)

function try_loop ::
  "'w env \<Rightarrow> Workflow \<Rightarrow> nat \<Rightarrow> nat \<Rightarrow> 'w tries \<Rightarrow> bool \<times> 'w tries" where
  "try_loop env w runIndex left ts =
     (case attempt env w runIndex left ts of
        (Inr ends, left', ts') \<Rightarrow> (ends, ts')
      | (Inl e, left', ts') \<Rightarrow>
          (let ts'' = record_error e ts'
           in if left' = 0 then (False, ts'')
              else try_loop env w runIndex (left' - 1)
                (if wait_between_tries (exec_node (ts_entry ts'')) = 0 then ts'' else sleep_tries env ts'')))"
  by pat_completeness auto
termination try_loop
  by (relation "measure (\<lambda>(env, w, ri, left, ts). left)") (auto dest!: attempt_left [OF sym])

declare try_loop.simps [simp del]

end
