(* ===== verification/Execution_Loop.thy ===== *)
theory Execution_Loop
  imports Execution_Node
begin

text \<open>
  The execution loop of \<open>processRunExecutionData\<close>, one definition per stage of an iteration, with
  \<open>ensureInputData\<close>. Lifecycle hooks are recorded as events in the order in which they run; a hook
  that throws is left out, as are log messages and error reports.

  Whether an iteration goes on with the next entry, ends the loop or throws is its outcome. The
  loop need not end, since a workflow may have cycles: it takes fuel, and returns \<open>None\<close> only if
  the fuel is used up.
\<close>

section \<open>State\<close>

datatype hook_event =
    WorkflowExecuteBefore
  | NodeExecuteBefore string
  | SendChunk string
  | NodeExecuteAfter string ITaskData
  | WorkflowExecuteAfter "(string, json) jsmap option"

record 'w loop =
  lp_engine :: "'w engine"
  lp_last_try :: string
  lp_error :: "ExecutionError option"
  lp_events :: "hook_event list"

datatype 'w outcome = Continue "'w loop" | Stop "'w loop" | Thrown ExecutionError "'w loop"

definition emit :: "hook_event \<Rightarrow> 'w loop \<Rightarrow> 'w loop" where
  "emit e lp = lp\<lparr>lp_events := lp_events lp @ [e]\<rparr>"

definition set_exec :: "ExecutionData \<Rightarrow> 'w loop \<Rightarrow> 'w loop" where
  "set_exec ed lp = lp\<lparr>lp_engine := (lp_engine lp)\<lparr>eg_exec := ed\<rparr>\<rparr>"

section \<open>Input data\<close>

text \<open>
  The comparison \<open>main.length < connectionIndex\<close> lets an input through whose index is the
  length of the array.
\<close>

fun ensure_inputs :: "Workflow \<Rightarrow> INode \<Rightarrow> IExecuteData \<Rightarrow> ExecutionData \<Rightarrow> nat list \<Rightarrow> (bool \<times> ExecutionData) result" where
  "ensure_inputs w node ed exec [] = Inr (True, exec)"
| "ensure_inputs w node ed exec (i # is) =
     bind_res (getHighestNode w (node_name node) (Some i)) (\<lambda>highestNodes.
       if highestNodes = [] then Inr (True, exec)
       else case map_get (exec_data ed) Main of
         None \<Rightarrow> Inr (False, exec\<lparr>nodeExecutionStack := nodeExecutionStack exec @ [ed]\<rparr>)
       | Some main \<Rightarrow>
           if forceInputNodeExecution w \<and> (length main < i \<or> cell_get main i = Null)
           then Inr (False, exec\<lparr>nodeExecutionStack := nodeExecutionStack exec @ [ed]\<rparr>)
           else ensure_inputs w node ed exec is)"

definition ensureInputData :: "Workflow \<Rightarrow> INode \<Rightarrow> IExecuteData \<Rightarrow> ExecutionData \<Rightarrow> (bool \<times> ExecutionData) result" where
  "ensureInputData w executionNode ed exec =
     (let inputConnections = (case main_inputs w (node_name executionNode) of None \<Rightarrow> [] | Some ins \<Rightarrow> ins)
      in ensure_inputs w executionNode ed exec [0..<length inputConnections])"

section \<open>Successors\<close>

record node_to_add =
  na_position :: "int \<times> int"
  na_connection :: IConnection
  na_output :: nat

text \<open>
  The comparator of the order \<open>v1\<close>. It never answers that an element comes after one further to
  the right, so the sort is the insertion of each element before the first one it precedes.
\<close>

definition compare_position :: "node_to_add \<Rightarrow> node_to_add \<Rightarrow> int" where
  "compare_position a b =
     (if snd (na_position a) < snd (na_position b) then 1
      else if snd (na_position b) < snd (na_position a) then -1
      else if fst (na_position b) < fst (na_position a) then -1 else 0)"

fun insert_before :: "('a \<Rightarrow> 'a \<Rightarrow> int) \<Rightarrow> 'a \<Rightarrow> 'a list \<Rightarrow> 'a list" where
  "insert_before cmp x [] = [x]"
| "insert_before cmp x (y # ys) = (if cmp x y < 0 then x # y # ys else y # insert_before cmp x ys)"

definition sort_before :: "('a \<Rightarrow> 'a \<Rightarrow> int) \<Rightarrow> 'a list \<Rightarrow> 'a list" where
  "sort_before cmp xs = fold (insert_before cmp) xs []"

text \<open>The connections of a node's Main outputs with their output index.\<close>

definition output_connections :: "Workflow \<Rightarrow> string \<Rightarrow> (nat \<times> IConnection) list" where
  "output_connections w n =
     (case map_get (connectionsBySourceNode w) n of None \<Rightarrow> []
      | Some tys \<Rightarrow> (case map_get tys Main of None \<Rightarrow> []
        | Some outs \<Rightarrow> concat (map (\<lambda>(oi, c). map (\<lambda>cd. (oi, cd)) (cell_list c)) (enumerate 0 outs))))"

definition gets_data :: "Workflow \<Rightarrow> outputs \<Rightarrow> nat \<times> IConnection \<Rightarrow> bool" where
  "gets_data w outs p =
     (case cell_get outs (fst p) of
        Val its \<Rightarrow> its \<noteq> [] \<or> (0 < conn_index (snd p) \<and> forceInputNodeExecution w)
      | _ \<Rightarrow> False)"

definition to_add :: "Workflow \<Rightarrow> nat \<times> IConnection \<Rightarrow> node_to_add" where
  "to_add w p =
     \<lparr>na_position = (case getNode w (conn_node (snd p)) of None \<Rightarrow> (0, 0) | Some node \<Rightarrow> position node),
      na_connection = snd p, na_output = fst p\<rparr>"

definition known_destination :: "Workflow \<Rightarrow> nat \<times> IConnection \<Rightarrow> bool" where
  "known_destination w p = map_has (wf_nodes w) (conn_node (snd p))"

definition destination_error :: js_error where
  "destination_error = ApplicationError ''Destination node not found''"

text \<open>
  In the order \<open>v1\<close> the connections are collected and sorted first, otherwise each one is added
  as it is met. If something throws, the successors added so far are not reported.
\<close>

definition add_successors ::
  "Workflow \<Rightarrow> string \<Rightarrow> outputs \<Rightarrow> nat \<Rightarrow> IRunData \<Rightarrow> ExecutionData \<Rightarrow> ExecutionData result" where
  "add_successors w n outs runIndex rd ed =
     (let conns = output_connections w n
      in if is_v1 w then
           (if \<not> list_all (known_destination w) conns then Inl destination_error
            else fold_res (\<lambda>ed a. addNodeToBeExecuted w (na_connection a) (na_output a) n (Some outs) runIndex rd ed)
              ed (sort_before compare_position (map (to_add w) (filter (gets_data w outs) conns))))
         else fold_res (\<lambda>ed p.
             if \<not> known_destination w p then Inl destination_error
             else if gets_data w outs p
               then addNodeToBeExecuted w (snd p) (fst p) n (Some outs) runIndex rd ed
             else Inr ed) ed conns)"

section \<open>One iteration\<close>

definition task_started :: "'w env \<Rightarrow> 'w engine \<Rightarrow> IExecuteData \<Rightarrow> ITaskData" where
  "task_started env eg ed =
     \<lparr>startTime = env_now env (eg_world eg), executionIndex = Some (eg_index eg),
      task_source = (case exec_source ed of None \<Rightarrow> []
        | Some src \<Rightarrow> (case map_get src Main of None \<Rightarrow> [] | Some cells \<Rightarrow> cells)),
      hints = [], executionTime = 0, executionStatus = None, task_data = None, inputOverride = None,
      task_error = None, task_metadata = None\<rparr>"

definition run_index :: "IRunData \<Rightarrow> string \<Rightarrow> nat" where
  "run_index rd n = (case map_get rd n of None \<Rightarrow> 0 | Some tasks \<Rightarrow> length tasks)"

definition execution_try :: "string \<Rightarrow> nat \<Rightarrow> string" where
  "execution_try n runIndex = n @ '':'' @ show_nat runIndex"

definition endless_loop_error :: js_error where
  "endless_loop_error = ApplicationError ''Stopped execution because it seems to be in an endless loop''"

definition add_run_data :: "string \<Rightarrow> ITaskData \<Rightarrow> 'w loop \<Rightarrow> 'w loop" where
  "add_run_data n task lp =
     (let eg = lp_engine lp; rd = runData (eg_result eg)
      in lp\<lparr>lp_engine := eg\<lparr>eg_result := (eg_result eg)\<lparr>runData :=
           map_set n ((case map_get rd n of None \<Rightarrow> [] | Some tasks \<Rightarrow> tasks) @ [task]) rd\<rparr>\<rparr>\<rparr>)"

text \<open>The array for the node's runs is created before the outcome of the run is looked at.\<close>

definition ensure_run_data :: "string \<Rightarrow> 'w engine \<Rightarrow> 'w engine" where
  "ensure_run_data n eg =
     (let rd = runData (eg_result eg)
      in if map_has rd n then eg
         else eg\<lparr>eg_result := (eg_result eg)\<lparr>runData := map_set n [] rd\<rparr>\<rparr>)"

definition push_back :: "IExecuteData \<Rightarrow> 'w loop \<Rightarrow> 'w loop" where
  "push_back ed lp =
     (let exec = eg_exec (lp_engine lp)
      in set_exec (exec\<lparr>nodeExecutionStack := ed # nodeExecutionStack exec\<rparr>) lp)"

text \<open>The node of the entry and what becomes of its outputs.\<close>

definition continues_on_fail :: "INode \<Rightarrow> bool" where
  "continues_on_fail node =
     (continueOnFail node = Some True
      \<or> onError node = Some ContinueRegularOutput \<or> onError node = Some ContinueErrorOutput)"

text \<open>A node that failed but continues passes its first input on.\<close>

definition failed_output :: "IExecuteData \<Rightarrow> outputs cell \<Rightarrow> outputs cell" where
  "failed_output ed d =
     (case map_get (exec_data ed) Main of
        Some (c # cs) \<Rightarrow> (if c = Null then d else Val [c])
      | _ \<Rightarrow> d)"

definition finished_task :: "'w env \<Rightarrow> ITaskData \<Rightarrow> 'w tries \<Rightarrow> ITaskData" where
  "finished_task env started ts =
     started\<lparr>hints := ts_hints ts,
       executionTime := env_now env (eg_world (ts_engine ts)) - startTime started,
       task_metadata := exec_metadata (ts_entry ts),
       executionStatus := Some (if ts_error ts \<noteq> None then Error
         else if eg_waitTill (ts_engine ts) \<noteq> None then Waiting else Success),
       task_error := ts_error ts\<rparr>"

text \<open>The last stage: the successors are scheduled, and if none is left the waiting nodes are searched.\<close>

definition schedule_next ::
  "'w env \<Rightarrow> Workflow \<Rightarrow> string \<Rightarrow> outputs \<Rightarrow> nat \<Rightarrow> ITaskData \<Rightarrow> 'w loop \<Rightarrow> 'w outcome" where
  "schedule_next env w n outs runIndex task lp =
     (let eg = lp_engine lp
      in case add_successors w n outs runIndex (runData (eg_result eg)) (eg_exec eg) of
           Inl e \<Rightarrow> Thrown (env_error env e) lp
         | Inr ed \<Rightarrow>
             (let lp' = emit (NodeExecuteAfter n task) (set_exec ed lp)
              in case release_waiting (env_required env) (env_nodeTypes env) w ed of
                   Inl e \<Rightarrow> Thrown (env_error env e) lp'
                 | Inr ed' \<Rightarrow> Continue (set_exec ed' lp')))"

text \<open>The data of a successful run is stored; then the execution waits, ends at its destination or goes on.\<close>

definition store_result ::
  "'w env \<Rightarrow> Workflow \<Rightarrow> nat \<Rightarrow> ITaskData \<Rightarrow> bool \<Rightarrow> outputs cell \<Rightarrow> IExecuteData \<Rightarrow> 'w loop \<Rightarrow> 'w outcome" where
  "store_result env w runIndex task pinned d ed lp =
     (let node = exec_node ed; n = node_name node
      in case merge_errors d of
           Inl e \<Rightarrow> Thrown (env_error env e) lp
         | Inr outs \<Rightarrow>
             (let task' = task\<lparr>task_data := Some
                    [(case rewireOutputLogTo node of None \<Rightarrow> Main | Some ty \<Rightarrow> ty, outs)]\<rparr>;
                  eg = lp_engine lp;
                  lp1 = add_run_data n task' (lp\<lparr>lp_engine :=
                    eg\<lparr>eg_result := share_pinned pinned n (Val outs) (eg_result eg)\<rparr>\<rparr>)
              in if eg_waitTill eg \<noteq> None
                   then Stop (push_back ed (emit (NodeExecuteAfter n task') lp1))
                 else if n \<noteq> [] \<and> destinationNode (eg_start eg) = Some n
                   then Continue (emit (NodeExecuteAfter n task') lp1)
                 else schedule_next env w n outs runIndex task' lp1))"

definition finish_node ::
  "'w env \<Rightarrow> Workflow \<Rightarrow> nat \<Rightarrow> ITaskData \<Rightarrow> bool \<Rightarrow> 'w tries \<Rightarrow> 'w loop \<Rightarrow> 'w outcome" where
  "finish_node env w runIndex started pinned ts lp =
     (let ed = ts_entry ts; node = exec_node ed; n = node_name node;
          task = finished_task env started ts;
          lp1 = lp\<lparr>lp_engine := ensure_run_data n (ts_engine ts), lp_error := ts_error ts\<rparr>
      in case ts_error ts of
           None \<Rightarrow> store_result env w runIndex task pinned (ts_data ts) ed lp1
         | Some e \<Rightarrow>
             (let lp2 = emit (SendChunk n) lp1
              in if continues_on_fail node
                 then store_result env w runIndex task False (failed_output ed (ts_data ts)) ed lp2
                 else let lp3 = push_back ed (add_run_data n task lp2)
                      in Stop (if env_aborted env (eg_world (lp_engine lp3)) then lp3
                               else emit (NodeExecuteAfter n task) lp3)))"

definition execute_entry ::
  "'w env \<Rightarrow> Workflow \<Rightarrow> IExecuteData \<Rightarrow> ITaskData \<Rightarrow> nat \<Rightarrow> 'w loop \<Rightarrow> 'w outcome" where
  "execute_entry env w ed started runIndex lp =
     (let node = exec_node ed; n = node_name node; eg = lp_engine lp;
          lp1 = emit (NodeExecuteBefore n) lp;
          pinned = (case pinned_items eg node of None \<Rightarrow> False | Some its \<Rightarrow> its \<noteq> []);
          (ends, ts) = try_loop env w runIndex (max_tries node - 1)
            \<lparr>ts_entry = ed, ts_engine = eg, ts_data = Null, ts_hints = [], ts_error = None\<rparr>
      in if ends then Continue (lp1\<lparr>lp_engine := ts_engine ts, lp_error := None\<rparr>)
         else finish_node env w runIndex started pinned ts lp1)"

text \<open>The filter, the check for input data, and the check for an endless loop.\<close>

definition process_entry :: "'w env \<Rightarrow> Workflow \<Rightarrow> IExecuteData \<Rightarrow> 'w loop \<Rightarrow> 'w outcome" where
  "process_entry env w entry lp =
     (let eg0 = lp_engine lp;
          started = task_started env eg0 entry;
          ed = entry\<lparr>exec_data := update_paired_items (exec_data entry)\<rparr>;
          node = exec_node ed; n = node_name node;
          lp1 = lp\<lparr>lp_engine := eg0\<lparr>eg_index := eg_index eg0 + 1\<rparr>, lp_error := None\<rparr>;
          eg = lp_engine lp1;
          runIndex = run_index (runData (eg_result eg)) n;
          current = execution_try n runIndex
      in if current = lp_last_try lp then Thrown (env_error env endless_loop_error) lp1
         else if (case runNodeFilter (eg_start eg) of None \<Rightarrow> False | Some f \<Rightarrow> n \<notin> set f) then Continue lp1
         else case ensureInputData w node ed (eg_exec eg) of
           Inl e \<Rightarrow> Thrown (env_error env e) lp1
         | Inr (False, exec) \<Rightarrow> Continue ((set_exec exec lp1)\<lparr>lp_last_try := current\<rparr>)
         | Inr (True, exec) \<Rightarrow> execute_entry env w ed started runIndex (set_exec exec lp1))"

definition iteration :: "'w env \<Rightarrow> Workflow \<Rightarrow> 'w loop \<Rightarrow> 'w outcome" where
  "iteration env w lp =
     (let eg = lp_engine lp;
          status = (if env_expired env (eg_world eg) \<or> env_aborted env (eg_world eg) then Canceled else eg_status eg);
          lp1 = lp\<lparr>lp_engine := eg\<lparr>eg_status := status\<rparr>\<rparr>
      in if status = Canceled then Stop lp1
         else case nodeExecutionStack (eg_exec eg) of
           [] \<Rightarrow> Stop lp1
         | entry # rest \<Rightarrow>
             process_entry env w entry (set_exec ((eg_exec eg)\<lparr>nodeExecutionStack := rest\<rparr>) lp1))"

text \<open>The \<open>while\<close> loop. The result is the error it threw, if any, and the last state.\<close>

fun execution_loop :: "nat \<Rightarrow> 'w env \<Rightarrow> Workflow \<Rightarrow> 'w loop \<Rightarrow> (ExecutionError option \<times> 'w loop) option" where
  "execution_loop 0 env w lp = None"
| "execution_loop (Suc fuel) env w lp =
     (if nodeExecutionStack (eg_exec (lp_engine lp)) = [] then Some (None, lp)
      else case iteration env w lp of
        Continue lp' \<Rightarrow> execution_loop fuel env w lp'
      | Stop lp' \<Rightarrow> Some (None, lp')
      | Thrown e lp' \<Rightarrow> Some (Some e, lp'))"

end
