(* ===== verification/Execution_Respect.thy ===== *)
theory Execution_Respect
  imports Execution_Loop
begin

text \<open>
  What the tries of a node leave alone. The code of a node is not part of the engine, and it gets
  the whole state of the execution, so what holds of the state after the tries depends on what
  node code is assumed to respect. The argument is the same whatever that is: the locale
  \<open>node_relation\<close> carries a relation of states that node code keeps through \<open>runNode\<close> and the
  loop of tries, and it is interpreted on the two relations the development needs, the schedule
  and the run data.
\<close>

section \<open>Relations that node code keeps\<close>

lemma share_pinned_runData [simp]: "runData (share_pinned pinned n d res) = runData res"
  by (auto simp: share_pinned_def split: bool.splits option.splits cell.splits list.splits)

lemma assignPairedItems_runData: "assignPairedItems d ed res = Inr (d', res') \<Longrightarrow> runData res' = runData res"
  by (auto simp: assignPairedItems_def bind_res_eq_Inr split: cell.splits if_splits)

locale node_relation =
  fixes ok :: "'w env \<Rightarrow> bool"
    and S :: "'w engine \<Rightarrow> 'w engine \<Rightarrow> bool"
    and E :: "IExecuteData \<Rightarrow> IExecuteData \<Rightarrow> bool"
  assumes S_refl: "S eg eg" and S_trans: "S a b \<Longrightarrow> S b c \<Longrightarrow> S a c"
    and E_refl: "E ed ed" and E_trans: "E ed ed1 \<Longrightarrow> E ed1 ed2 \<Longrightarrow> E ed ed2"
    and S_world: "S eg eg' \<Longrightarrow> S eg (eg'\<lparr>eg_world := x\<rparr>)"
    and S_result: "S eg eg' \<Longrightarrow> runData res = runData (eg_result eg') \<Longrightarrow> S eg (eg'\<lparr>eg_result := res\<rparr>)"
    and S_run: "ok env \<Longrightarrow> env_run env code its d r ed eg = (res', ed', eg') \<Longrightarrow> S eg eg' \<and> E ed ed'"
    and S_poll: "ok env \<Longrightarrow> env_poll env node eg = (polled, eg') \<Longrightarrow> S eg eg'"
    and S_trigger: "ok env \<Longrightarrow> env_trigger env node eg = (resp, eg') \<Longrightarrow> S eg eg'"
begin

definition kept :: "'w tries \<Rightarrow> 'w tries \<Rightarrow> bool" where
  "kept ts ts' = (S (ts_engine ts) (ts_engine ts') \<and> E (ts_entry ts) (ts_entry ts'))"

lemma kept_refl: "kept ts ts"
  by (simp add: kept_def S_refl E_refl)

lemma kept_trans: "kept a b \<Longrightarrow> kept b c \<Longrightarrow> kept a c"
  unfolding kept_def by (blast intro: S_trans E_trans)

lemma kept_steps:
  "kept ts (sleep_tries env ts)" "kept ts (record_error e ts)"
  "kept ts (ts\<lparr>ts_data := d\<rparr>)" "kept ts (ts\<lparr>ts_error := x\<rparr>)"
  by (simp_all add: kept_def sleep_tries_def record_error_def Let_def S_world S_result S_refl E_refl)

lemma run_trigger_kept:
  assumes "ok env" "run_trigger env node eg = (r, eg')"
  shows "S eg eg'"
proof -
  obtain t eg1 where t: "env_trigger env node eg = (t, eg1)" by (cases "env_trigger env node eg")
  note S_trigger [OF assms(1) t]
  then show ?thesis
    using assms(2) t S_world by (auto simp: run_trigger_def Let_def split: sum.splits option.splits prod.splits)
qed

lemma run_code_kept:
  "ok env \<Longrightarrow> run_code env code its d r ed eg = (res, ed', eg') \<Longrightarrow> S eg eg' \<and> E ed ed'"
  by (auto simp: run_code_def split: prod.splits sum.splits list.splits option.splits dest!: S_run)

lemma dispatch_node_kept:
  assumes "ok env" "dispatch_node env w ty its r ed eg = (res, ed', eg')"
  shows "S eg eg' \<and> E ed ed'"
  using assms(2) unfolding dispatch_node_def Let_def
  by (auto split: option.splits if_splits prod.splits sum.splits simp: S_refl E_refl
      dest!: run_code_kept [OF assms(1)] S_poll [OF assms(1)] run_trigger_kept [OF assms(1)] S_run [OF assms(1)])

lemma runNode_kept:
  assumes "ok env" "runNode env w r ed eg = (res, ed', eg')"
  shows "S eg eg' \<and> E ed ed'"
  using assms(2) dispatch_node_kept [OF assms(1)]
  by (auto simp: runNode_def S_refl E_refl split: if_splits option.splits sum.splits cell.splits)

lemma call_node_kept: "ok env \<Longrightarrow> call_node env w r ts = (res, ts') \<Longrightarrow> kept ts ts'"
  by (auto simp: call_node_def kept_def split: prod.splits sum.splits dest!: runNode_kept)

lemma rerun_kept:
  assumes "ok env"
  shows "rerun env w r left resp ts = (res, left', ts') \<Longrightarrow> kept ts ts'"
proof (induction left arbitrary: resp ts)
  case (Suc left)
  show ?case
  proof (cases "did_continue_on_fail (ts_data ts)")
    case True
    obtain x ts1 where c: "call_node env w r (sleep_tries env ts) = (x, ts1)" by (cases "call_node env w r (sleep_tries env ts)")
    have "kept ts ts1" using call_node_kept [OF assms c] kept_steps(1) kept_trans by blast
    then show ?thesis using Suc c True by (cases x) (auto intro: kept_trans)
  qed (use Suc.prems kept_refl in auto)
qed (simp add: kept_refl)

lemma accept_response_kept: "accept_response env resp ts = (f, ts') \<Longrightarrow> kept ts ts'"
  by (auto simp: accept_response_def Let_def kept_def S_refl E_refl S_world split: sum.splits option.splits)

lemma produce_kept:
  assumes "ok env" "produce env w r left ts = (f, left', ts')"
  shows "kept ts ts'"
proof (cases "pinned_items (ts_engine ts) (exec_node (ts_entry ts))")
  case None
  obtain x ts1 where c: "call_node env w r ts = (x, ts1)" by (cases "call_node env w r ts")
  note s1 = call_node_kept [OF assms(1) c]
  show ?thesis
  proof (cases x)
    case (Inr resp)
    obtain y l ts2 where y: "rerun env w r left resp ts1 = (y, l, ts2)" by (cases "rerun env w r left resp ts1")
    have s2: "kept ts ts2" using s1 rerun_kept [OF assms(1) y] kept_trans by blast
    then show ?thesis
      using assms(2) None c Inr y
      by (cases y) (auto simp: produce_def split: prod.splits dest!: accept_response_kept intro: kept_trans)
  qed (use assms(2) None c s1 in \<open>auto simp: produce_def\<close>)
qed (use assms(2) kept_steps in \<open>auto simp: produce_def\<close>)

lemma conclude_kept: "conclude env pinned ts = (res, ts') \<Longrightarrow> kept ts ts'"
  by (auto simp: conclude_def Let_def kept_def S_refl E_refl S_result split: sum.splits prod.splits
      dest!: assignPairedItems_runData)

lemma attempt_kept:
  assumes "ok env" "attempt env w r left ts = (res, left', ts')"
  shows "kept ts ts'"
proof -
  obtain f l ts1 where p: "produce env w r left (ts\<lparr>ts_error := None\<rparr>) = (f, l, ts1)"
    by (cases "produce env w r left (ts\<lparr>ts_error := None\<rparr>)")
  have "kept ts ts1"
    using produce_kept [OF assms(1) p] kept_steps(4) kept_trans by blast
  then show ?thesis
    using assms(2) p by (auto simp: attempt_def Let_def split: option.splits prod.splits
        intro: kept_trans conclude_kept)
qed

lemma try_loop_kept:
  assumes "ok env"
  shows "try_loop env w r left ts = (ends, ts') \<Longrightarrow> kept ts ts'"
proof (induction left arbitrary: ts rule: less_induct)
  case (less left)
  obtain res l ts1 where a: "attempt env w r left ts = (res, l, ts1)" by (cases "attempt env w r left ts")
  note s1 = attempt_kept [OF assms a]
  show ?case
  proof (cases res)
    case (Inl e)
    let ?t = "record_error e ts1"
    let ?t' = "if wait_between_tries (exec_node (ts_entry ?t)) = 0 then ?t else sleep_tries env ?t"
    have s3: "kept ts ?t" using s1 kept_steps(2) kept_trans by blast
    then have "kept ts (sleep_tries env ?t)" using kept_steps(1) kept_trans by blast
    with s3 have s2: "kept ts ?t'" by simp
    show ?thesis
    proof (cases "l = 0")
      case True
      then show ?thesis using less.prems a Inl s3 by (simp add: try_loop.simps [of env w r left ts] Let_def)
    next
      case False
      then have "try_loop env w r (l - 1) ?t' = (ends, ts')"
        using less.prems a Inl by (simp add: try_loop.simps [of env w r left ts] Let_def)
      moreover have "l - 1 < left" using False attempt_left [OF a] by simp
      ultimately show ?thesis using less.IH s2 kept_trans by blast
    qed
  qed (use less.prems a s1 in \<open>simp add: try_loop.simps [of env w r left ts]\<close>)
qed

end

section \<open>The schedule\<close>

text \<open>Node code that leaves the stack, the waiting data, the start data and its own entry alone.\<close>

definition same_schedule :: "'w engine \<Rightarrow> 'w engine \<Rightarrow> bool" where
  "same_schedule eg eg' =
     (nodeExecutionStack (eg_exec eg') = nodeExecutionStack (eg_exec eg)
      \<and> waitingExecution (eg_exec eg') = waitingExecution (eg_exec eg)
      \<and> waitingExecutionSource (eg_exec eg') = waitingExecutionSource (eg_exec eg)
      \<and> eg_start eg' = eg_start eg)"

definition same_entry :: "IExecuteData \<Rightarrow> IExecuteData \<Rightarrow> bool" where
  "same_entry ed ed' = (exec_node ed' = exec_node ed \<and> exec_data ed' = exec_data ed)"

definition respectful :: "'w env \<Rightarrow> bool" where
  "respectful env =
     ((\<forall>code its d r ed eg res ed' eg'. env_run env code its d r ed eg = (res, ed', eg') \<longrightarrow>
          same_schedule eg eg' \<and> same_entry ed ed')
      \<and> (\<forall>node eg res eg'. env_poll env node eg = (res, eg') \<longrightarrow> same_schedule eg eg')
      \<and> (\<forall>node eg res eg'. env_trigger env node eg = (res, eg') \<longrightarrow> same_schedule eg eg'))"

interpretation sched: node_relation respectful same_schedule same_entry
  by unfold_locales (auto simp: same_schedule_def same_entry_def respectful_def)

lemmas try_loop_schedule = sched.try_loop_kept [unfolded sched.kept_def]

section \<open>The run data\<close>

text \<open>Node code that leaves the run data and its own node alone.\<close>

definition same_runs :: "'w engine \<Rightarrow> 'w engine \<Rightarrow> bool" where
  "same_runs eg eg' = (runData (eg_result eg') = runData (eg_result eg))"

definition same_node :: "IExecuteData \<Rightarrow> IExecuteData \<Rightarrow> bool" where
  "same_node ed ed' = (exec_node ed' = exec_node ed)"

definition keeps_runs :: "'w env \<Rightarrow> bool" where
  "keeps_runs env =
     ((\<forall>code its d r ed eg res ed' eg'. env_run env code its d r ed eg = (res, ed', eg') \<longrightarrow>
          same_runs eg eg' \<and> same_node ed ed')
      \<and> (\<forall>node eg res eg'. env_poll env node eg = (res, eg') \<longrightarrow> same_runs eg eg')
      \<and> (\<forall>node eg res eg'. env_trigger env node eg = (res, eg') \<longrightarrow> same_runs eg eg'))"

interpretation runs: node_relation keeps_runs same_runs same_node
  by unfold_locales (auto simp: same_runs_def same_node_def keeps_runs_def)

lemmas try_loop_runs_kept = runs.try_loop_kept [unfolded runs.kept_def]

end
