(* ===== verification/Execution_Progress.thy ===== *)
theory Execution_Progress
  imports Execution_Respect
begin

text \<open>
  Why the execution of a workflow without cycles ends in the order \<open>v1\<close>: every entry on the
  stack and every waiting entry carries the weight of its node, which exceeds the sum of the
  weights of the nodes behind it, and each iteration of the loop loses weight. And what each
  iteration keeps: the invariant of the waiting entries.

  The code of nodes is assumed not to touch the stack and the waiting data of the execution; the
  functions that nodes are given offer no way to do so.
\<close>

section \<open>Weight of the scheduling operations\<close>

lemma load_entry_put:
  "sum_list (map (entries_load W) (entry_put n i e m)) \<le> sum_list (map (entries_load W) m) + W n"
  "map_get (run_entries m n) i \<noteq> None \<Longrightarrow>
     sum_list (map (entries_load W) (entry_put n i e m)) = sum_list (map (entries_load W) m)"
proof -
  have len: "length (map_set i e es) = (if map_get es i = None then Suc (length es) else length es)"
    for es :: "(nat, (NodeConnectionType, 'a cell list) jsmap) jsmap"
    by (induction es) auto
  show "sum_list (map (entries_load W) (entry_put n i e m)) \<le> sum_list (map (entries_load W) m) + W n"
  proof (cases "map_get m n")
    case None
    then have "map_set n (map_set i e []) m = m @ [(n, [(i, e)])]"
      by (simp add: map_set_fresh map_of_eq_None_iff)
    with None show ?thesis by (simp add: entry_put_def run_entries_def entries_load_def)
  next
    case (Some es)
    then show ?thesis
      using sum_map_set [OF Some, of "entries_load W" "map_set i e es"]
      by (auto simp: entry_put_def run_entries_def entries_load_def len split: if_splits)
  qed
  assume "map_get (run_entries m n) i \<noteq> None"
  then obtain es where es: "map_get m n = Some es" "map_get es i \<noteq> None"
    by (auto simp: run_entries_def split: option.splits)
  then show "sum_list (map (entries_load W) (entry_put n i e m)) = sum_list (map (entries_load W) m)"
    using sum_map_set [OF es(1), of "entries_load W" "map_set i e es"]
    by (auto simp: entry_put_def run_entries_def entries_load_def len)
qed

lemma wait_load_fresh:
  "\<not> map_has m n \<Longrightarrow> sum_list (map (entries_load W) (map_set n [] m)) = sum_list (map (entries_load W) m)"
  by (simp add: map_has_iff map_set_fresh entries_load_def)

lemma set_input_load:
  assumes "set_input n i j v m = Inr m'"
  shows "sum_list (map (entries_load W) m') = sum_list (map (entries_load W) m) \<and> map_get (run_entries m' n) i \<noteq> None"
proof -
  obtain e arr where e: "map_get (run_entries m n) i = Some e" "m' = entry_put n i (map_set Main (cell_set arr j v) e) m"
    using assms by (auto simp: set_input_def split: option.splits)
  then show ?thesis by (simp add: load_entry_put(2))
qed

lemma receive_input_load:
  assumes "receive_input cd k oi parent nsd r ed = Inr (wi, ed3)"
  shows "wait_load W ed3 \<le> wait_load W ed + W (conn_node cd) \<and> nodeExecutionStack ed3 = nodeExecutionStack ed
    \<and> map_get (run_entries (waitingExecution ed3) (conn_node cd)) wi \<noteq> None"
proof -
  define n where "n = conn_node cd"
  define ed1 where "ed1 = (if map_has (waitingExecution ed) n then ed\<lparr>waitingExecutionSource := Some (sources ed)\<rparr>
                 else ed\<lparr>waitingExecution := map_set n [] (waitingExecution ed),
                         waitingExecutionSource := Some (map_set n [] (sources ed))\<rparr>)"
  obtain new where st: "store_waiting cd wi oi parent nsd r (if new then prepareWaitingToExecution n k wi ed1 else ed1) = Inr ed3"
    using assms unfolding receive_input_def Let_def n_def [symmetric] ed1_def [symmetric]
    by (auto simp: bind_res_eq_Inr)
  have 1: "wait_load W ed1 = wait_load W ed" "nodeExecutionStack ed1 = nodeExecutionStack ed"
    by (auto simp: ed1_def wait_load_def wait_load_fresh)
  let ?ed2 = "if new then prepareWaitingToExecution n k wi ed1 else ed1"
  have 2: "wait_load W ?ed2 \<le> wait_load W ed1 + W n" "nodeExecutionStack ?ed2 = nodeExecutionStack ed1"
    by (auto simp: wait_load_def prepareWaitingToExecution_def load_entry_put(1))
  obtain we where we: "set_input n wi (conn_index cd) (emitted nsd oi) (waitingExecution ?ed2) = Inr we"
    "waitingExecution ed3 = we" "nodeExecutionStack ed3 = nodeExecutionStack ?ed2"
    using st unfolding store_waiting_def n_def [symmetric] by (auto simp: bind_res_eq_Inr)
  from set_input_load [OF we(1), of W] we(2,3) 1 2 show ?thesis
    unfolding n_def [symmetric] wait_load_def by simp
qed

lemma waiting_to_stack_load:
  assumes "waiting_to_stack w n wi ed = Inr ed'" "nodes_wf w"
  shows "load W ed' \<le> load W ed"
proof -
  obtain e node src where r: "map_get (run_entries (waitingExecution ed) n) wi = Some e" "getNode w n = Some node"
    "delete_waiting n wi (enqueue_entry w \<lparr>exec_data = e, exec_metadata = None, exec_node = node, exec_source = src\<rparr> ed) = Inr ed'"
    using assms(1) by (auto simp: waiting_to_stack_def the_node_def bind_res_eq_Inr split: option.splits)
  let ?ed = "enqueue_entry w \<lparr>exec_data = e, exec_metadata = None, exec_node = node, exec_source = src\<rparr> ed"
  have "stack_load W ?ed = stack_load W ed + W n" "wait_load W ?ed = wait_load W ed"
    using getNode_name [OF assms(2) r(2)] by (simp_all add: enqueue_entry_def stack_load_def wait_load_def)
  moreover have "wait_load W ed' + W n \<le> wait_load W ?ed"
    by (rule delete_waiting_load [OF r(3)]) (simp add: r(1))
  moreover have "nodeExecutionStack ed' = nodeExecutionStack ?ed"
    using r(3) by (auto simp: delete_waiting_def split: option.splits if_splits)
  ultimately show ?thesis by (simp add: load_def stack_load_def)
qed

lemma keep_waiting_load:
  assumes "keep_waiting cd k oi nsd wi ed = Inr ed'" "map_get (run_entries (waitingExecution ed) (conn_node cd)) wi \<noteq> None"
  shows "wait_load W ed' = wait_load W ed" "nodeExecutionStack ed' = nodeExecutionStack ed"
  using assms
  by (auto simp: keep_waiting_def Let_def prepareWaitingToExecution_def wait_load_def load_entry_put(2)
      split: option.splits)

lemma force_inputs_v1_result:
  assumes "is_v1 w" "force_inputs w cd oi p nsd r rd ins ed = Inr ed'"
  shows "ed' = ed"
proof -
  have step: "t' = t" if "force_input w p oi nsd r rd out t c = Inr t'" for t t' out c
    using that assms(1)
    by (auto simp: force_input_def Let_def bind_res_eq_Inr forceInputNodeExecution_def split: if_splits)
  show ?thesis
    using assms(2) by (auto simp: force_inputs_def bind_res_eq_Inr
        elim!: fold_res_invariant [where P = "\<lambda>t. t = ed"] dest: step)
qed

lemma addNode_load:
  assumes "addNodeToBeExecuted w cd oi parent nsd r rd ed = Inr ed'" "is_v1 w" "nodes_wf w"
  shows "load W ed' \<le> load W ed + W (conn_node cd)"
proof -
  obtain ins where ins: "main_inputs w (conn_node cd) = Some ins"
    using assms(1) by (auto simp: addNodeToBeExecuted_def split: option.splits)
  show ?thesis
  proof (cases "length ins \<le> 1")
    case True
    then show ?thesis
      using assms ins getNode_name [OF assms(3)]
      by (auto simp: addNodeToBeExecuted_def add_direct_def the_node_def bind_res_eq_Inr load_def stack_load_def
          wait_load_def enqueue_entry_def split: option.splits)
  next
    case False
    then obtain wi ed3 where ri: "receive_input cd (length ins) oi parent nsd r ed = Inr (wi, ed3)"
      using assms(1) ins by (auto simp: addNodeToBeExecuted_def bind_res_eq_Inr)
    note run = assms(1) [unfolded addNodeToBeExecuted_def ins option.case if_not_P [OF False] ri bind_res_simps prod.case]
    obtain arr where arr: "entry_main (waitingExecution ed3) (conn_node cd) wi = Some arr"
      using run by (auto split: option.splits)
    note run = run [unfolded arr option.case]
    note rl = receive_input_load [OF ri, of W]
    show ?thesis
    proof (cases "Null \<in> set arr")
      case True
      then have "keep_waiting cd (length ins) oi nsd wi ed3 = Inr ed'"
        using run by (auto simp: bind_res_eq_Inr split: if_splits dest: force_inputs_v1_result [OF assms(2)])
      from keep_waiting_load(1) [OF this, of W] keep_waiting_load(2) [OF this] rl show ?thesis by (simp add: load_def stack_load_def)
    next
      case False
      then have "waiting_to_stack w (conn_node cd) wi ed3 = Inr ed'" using run by simp
      from waiting_to_stack_load [OF this assms(3), of W] rl show ?thesis by (simp add: load_def stack_load_def)
    qed
  qed
qed

lemma try_release_load:
  assumes "nodes_wf w"
  shows "try_release eval nts w ws n ed = Inr (Released ed') \<Longrightarrow> load W ed' \<le> load W ed"
    and "try_release eval nts w ws n ed = Inr (Dropped ed') \<Longrightarrow> load W ed' \<le> load W ed"
proof -
  have del: "nodeExecutionStack t' = nodeExecutionStack t" if "delete_waiting n i t = Inr t'" for i t t'
    using that by (auto simp: delete_waiting_def split: option.splits if_splits)
  show "load W ed' \<le> load W ed" if r: "try_release eval nts w ws n ed = Inr (Dropped ed')"
  proof -
    have "nodeExecutionStack ed' = nodeExecutionStack ed"
      using r by (auto simp: try_release_def Let_def bind_res_eq_Inr split: option.splits if_splits dest: del)
    with try_release_Dropped [OF r, of W] show ?thesis by (simp add: load_def stack_load_def)
  qed
  show "load W ed' \<le> load W ed" if r: "try_release eval nts w ws n ed = Inr (Released ed')"
  proof -
    have "\<exists>node i e. delete_waiting n i (ed\<lparr>nodeExecutionStack := nodeExecutionStack ed @ [e]\<rparr>) = Inr ed'
        \<and> map_get (run_entries (waitingExecution ed) n) i \<noteq> None \<and> exec_node e = node \<and> getNode w n = Some node"
      using r
      by (simp add: try_release_def Let_def bind_res_eq_Inr entry_main_def split: option.splits if_splits)
        (metis IExecuteData.select_convs(3) option.distinct(1))
    then obtain node i e where e: "getNode w n = Some node" "exec_node e = node"
      "delete_waiting n i (ed\<lparr>nodeExecutionStack := nodeExecutionStack ed @ [e]\<rparr>) = Inr ed'"
      "map_get (run_entries (waitingExecution ed) n) i \<noteq> None" by blast
    have "wait_load W ed' + W n \<le> wait_load W (ed\<lparr>nodeExecutionStack := nodeExecutionStack ed @ [e]\<rparr>)"
      by (rule delete_waiting_load [OF e(3)]) (simp add: e(4))
    then show ?thesis
      using del [OF e(3)] getNode_name [OF assms e(1)] e(2) by (simp add: load_def stack_load_def wait_load_def)
  qed
qed

lemma release_waiting_load:
  assumes "release_waiting eval nts w ed = Inr ed'" "nodes_wf w"
  shows "load W ed' \<le> load W ed"
proof -
  have loop: "release_loop eval nts w ws rest t = Inr t' \<Longrightarrow> nodes_wf w \<Longrightarrow> load W t' \<le> load W t" for ws rest t t'
  proof (induction eval nts w ws rest t rule: release_loop.induct)
    case (2 eval nts w ws n rest t)
    show ?case
    proof (cases "try_release eval nts w ws n t")
      case (Inr r)
      then show ?thesis
        using 2 try_release_load [OF "2.prems"(2), of eval nts ws n t _ W]
        by (cases r) (force simp: release_loop.simps dest: order_trans)+
    qed (use "2.prems" in \<open>simp add: release_loop.simps\<close>)
  qed (simp add: release_loop.simps)
  show ?thesis using assms by (auto simp: release_waiting_def Let_def split: if_splits dest: loop)
qed

section \<open>Entries with Main data\<close>

text \<open>Every entry on the stack has data for its Main inputs, and so has every waiting entry.\<close>

definition has_main :: "IExecuteData \<Rightarrow> bool" where
  "has_main e = (map_get (exec_data e) Main \<noteq> None)"

definition stack_main :: "ExecutionData \<Rightarrow> bool" where
  "stack_main ed = list_all has_main (nodeExecutionStack ed)"

lemma stack_main_enqueue [simp]: "stack_main (enqueue_entry w e ed) = (has_main e \<and> stack_main ed)"
  by (auto simp: stack_main_def enqueue_entry_def)

lemma delete_waiting_stack: "delete_waiting n i ed = Inr ed' \<Longrightarrow> nodeExecutionStack ed' = nodeExecutionStack ed"
  by (auto simp: delete_waiting_def split: option.splits if_splits)

lemma addNode_stack_main:
  assumes "addNodeToBeExecuted w cd oi parent nsd r rd ed = Inr ed'" "is_v1 w" "stack_main ed"
  shows "stack_main ed'"
proof -
  obtain ins where ins: "main_inputs w (conn_node cd) = Some ins"
    using assms(1) by (auto simp: addNodeToBeExecuted_def split: option.splits)
  show ?thesis
  proof (cases "length ins \<le> 1")
    case True
    then show ?thesis
      using assms ins by (auto simp: addNodeToBeExecuted_def add_direct_def bind_res_eq_Inr has_main_def)
  next
    case False
    then obtain wi ed3 where ri: "receive_input cd (length ins) oi parent nsd r ed = Inr (wi, ed3)"
      using assms(1) ins by (auto simp: addNodeToBeExecuted_def bind_res_eq_Inr)
    note run = assms(1) [unfolded addNodeToBeExecuted_def ins option.case if_not_P [OF False] ri bind_res_simps prod.case]
    obtain arr where arr: "entry_main (waitingExecution ed3) (conn_node cd) wi = Some arr"
      using run by (auto split: option.splits)
    note run = run [unfolded arr option.case] and rl = receive_input_load [OF ri]
    have ed3: "stack_main ed3" using assms(3) rl by (simp add: stack_main_def)
    show ?thesis
    proof (cases "Null \<in> set arr")
      case True
      then have "keep_waiting cd (length ins) oi nsd wi ed3 = Inr ed'"
        using run by (auto simp: bind_res_eq_Inr split: if_splits dest: force_inputs_v1_result [OF assms(2)])
      from keep_waiting_load(2) [OF this] rl ed3 show ?thesis by (simp add: stack_main_def)
    next
      case False
      then have "waiting_to_stack w (conn_node cd) wi ed3 = Inr ed'" using run by simp
      then obtain e x where e: "map_get e Main = Some arr" "delete_waiting (conn_node cd) wi (enqueue_entry w x ed3) = Inr ed'"
        "exec_data x = e"
        using arr by (force simp: waiting_to_stack_def entry_main_def bind_res_eq_Inr split: option.splits)
      have "stack_main (enqueue_entry w x ed3)" using e ed3 by (simp add: has_main_def)
      then show ?thesis using delete_waiting_stack [OF e(2)] by (simp add: stack_main_def)
    qed
  qed
qed

lemma release_waiting_stack_main:
  assumes "release_waiting eval nts w ed = Inr ed'" "stack_main ed"
  shows "stack_main ed'"
proof -
  have rel: "stack_main t'" if "try_release eval nts w ws n t = Inr (Released t')" "stack_main t" for eval nts w ws n t t'
    using that by (auto simp: try_release_def Let_def bind_res_eq_Inr stack_main_def has_main_def
        split: option.splits if_splits dest!: delete_waiting_stack)
  have drop: "stack_main t'" if "try_release eval nts w ws n t = Inr (Dropped t')" "stack_main t" for eval nts w ws n t t'
    using that by (auto simp: try_release_def Let_def bind_res_eq_Inr stack_main_def
        split: option.splits if_splits dest!: delete_waiting_stack)
  have loop: "release_loop eval nts w ws rest t = Inr t' \<Longrightarrow> stack_main t \<Longrightarrow> stack_main t'" for ws rest t t'
  proof (induction eval nts w ws rest t rule: release_loop.induct)
    case (2 eval nts w ws n rest t)
    show ?case
    proof (cases "try_release eval nts w ws n t")
      case (Inr r)
      then show ?thesis using 2 rel drop by (cases r) (auto simp: release_loop.simps)
    qed (use "2.prems" in \<open>simp add: release_loop.simps\<close>)
  qed (simp add: release_loop.simps)
  show ?thesis using assms by (auto simp: release_waiting_def Let_def split: if_splits dest: loop)
qed

section \<open>Each iteration loses weight\<close>

text \<open>A node weighs more than the nodes its outputs lead to.\<close>

definition weighted :: "Workflow \<Rightarrow> (string \<Rightarrow> nat) \<Rightarrow> bool" where
  "weighted w W = (\<forall>n. sum_list (map (\<lambda>p. W (conn_node (snd p))) (output_connections w n)) < W n)"

abbreviation lp_exec :: "'w loop \<Rightarrow> ExecutionData" where
  "lp_exec lp \<equiv> eg_exec (lp_engine lp)"

lemma lp_exec_simps [simp]:
  "lp_exec (emit e lp) = lp_exec lp" "lp_exec (set_exec ed lp) = ed" "lp_exec (add_run_data n t lp) = lp_exec lp"
  "eg_start (lp_engine (emit e lp)) = eg_start (lp_engine lp)"
  "eg_exec (ensure_run_data n eg) = eg_exec eg"
  by (simp_all add: emit_def set_exec_def add_run_data_def ensure_run_data_def Let_def)

lemma mset_insert_before [simp]: "mset (insert_before cmp x xs) = add_mset x (mset xs)"
  by (induction xs) auto

lemma mset_sort_before [simp]: "mset (sort_before cmp xs) = mset xs"
proof -
  have "mset (fold (insert_before cmp) xs ys) = mset xs + mset ys" for ys
    by (induction xs arbitrary: ys) auto
  then show ?thesis by (simp add: sort_before_def)
qed

lemma set_sort_before [simp]: "set (sort_before cmp xs) = set xs"
  by (metis mset_sort_before set_mset_mset)

lemma sum_sort_before: "sum_list (map f (sort_before cmp xs)) = (sum_list (map f xs) :: nat)"
  by (metis mset_map mset_sort_before sum_mset_sum_list)

lemma sum_filter_le: "sum_list (map f (filter P xs)) \<le> (sum_list (map f xs) :: nat)"
  by (induction xs) auto

lemma add_successors_progress:
  assumes "add_successors w n outs r rd ed = Inr ed'" "is_v1 w" "nodes_wf w" "stack_main ed"
  shows "stack_main ed' \<and> load W ed' \<le> load W ed + sum_list (map (\<lambda>p. W (conn_node (snd p))) (output_connections w n))"
proof -
  let ?xs = "sort_before compare_position (map (to_add w) (filter (gets_data w outs) (output_connections w n)))"
  have run: "fold_res (\<lambda>ed a. addNodeToBeExecuted w (na_connection a) (na_output a) n (Some outs) r rd ed) ed ?xs = Inr ed'"
    using assms(1,2) by (auto simp: add_successors_def Let_def split: if_splits)
  have "stack_main t' \<and> load W t' \<le> load W t + sum_list (map (\<lambda>a. W (conn_node (na_connection a))) xs)"
    if "fold_res (\<lambda>ed a. addNodeToBeExecuted w (na_connection a) (na_output a) n (Some outs) r rd ed) t xs = Inr t'" "stack_main t"
    for t t' xs
    using that
  proof (induction xs arbitrary: t)
    case (Cons a xs)
    then obtain t1 where t1: "addNodeToBeExecuted w (na_connection a) (na_output a) n (Some outs) r rd t = Inr t1"
      "fold_res (\<lambda>ed a. addNodeToBeExecuted w (na_connection a) (na_output a) n (Some outs) r rd ed) t1 xs = Inr t'"
      by (auto simp: bind_res_eq_Inr)
    from Cons.IH [OF t1(2) addNode_stack_main [OF t1(1) assms(2) Cons.prems(2)]] addNode_load [OF t1(1) assms(2,3), of W]
    show ?case by simp
  qed simp
  note this [OF run assms(4)]
  moreover have "sum_list (map (\<lambda>a. W (conn_node (na_connection a))) ?xs) \<le>
      sum_list (map (\<lambda>p. W (conn_node (snd p))) (output_connections w n))"
    unfolding sum_sort_before using sum_filter_le [of "\<lambda>p. W (conn_node (snd p))" "gets_data w outs" "output_connections w n"]
    by (simp add: to_add_def o_def)
  ultimately show ?thesis by linarith
qed

lemma schedule_next_progress:
  assumes "schedule_next env w n outs r task lp = Continue lp'" "is_v1 w" "nodes_wf w" "weighted w W" "stack_main (lp_exec lp)"
  shows "stack_main (lp_exec lp') \<and> load W (lp_exec lp') < load W (lp_exec lp) + W n"
proof -
  obtain ed ed' where e: "add_successors w n outs r (runData (eg_result (lp_engine lp))) (lp_exec lp) = Inr ed"
    "release_waiting (env_required env) (env_nodeTypes env) w ed = Inr ed'" "lp_exec lp' = ed'"
    using assms(1) by (auto simp: schedule_next_def Let_def split: sum.splits)
  have "stack_main ed \<and> load W ed < load W (lp_exec lp) + W n"
    using add_successors_progress [OF e(1) assms(2,3,5), of W] assms(4) unfolding weighted_def by (meson add_less_mono1 le_less_trans nat_add_left_cancel_less)
  with release_waiting_load [OF e(2) assms(3), of W] release_waiting_stack_main [OF e(2)] show ?thesis
    unfolding e(3) by (simp add: le_less_trans)
qed

lemma store_result_progress:
  assumes "store_result env w r task pinned d ed lp = Continue lp'" "is_v1 w" "nodes_wf w" "weighted w W" "stack_main (lp_exec lp)"
  shows "stack_main (lp_exec lp') \<and> load W (lp_exec lp') < load W (lp_exec lp) + W (node_name (exec_node ed))"
proof -
  have pos: "0 < W n" for n using assms(4) unfolding weighted_def by (metis gr0I less_zeroE)
  have sched: "stack_main (lp_exec lp2) \<and> load W (lp_exec lp2) < load W (lp_exec lp) + W n"
    if "schedule_next env w n outs r t lp1 = Continue lp2" "lp_exec lp1 = lp_exec lp" for n outs t lp1 lp2
    using schedule_next_progress [OF that(1) assms(2-4)] assms(5) that(2) by simp
  show ?thesis
    using assms(1,5) pos unfolding store_result_def Let_def
    by (auto split: sum.splits if_splits dest!: sched)
qed

lemma same_schedule_load:
  "same_schedule eg eg' \<Longrightarrow> load W (eg_exec eg') = load W (eg_exec eg) \<and> stack_main (eg_exec eg') = stack_main (eg_exec eg)"
  by (simp add: same_schedule_def load_def stack_load_def wait_load_def stack_main_def)

lemma finish_node_progress:
  assumes "finish_node env w r started pinned ts lp = Continue lp'" "is_v1 w" "nodes_wf w" "weighted w W"
    "stack_main (eg_exec (ts_engine ts))"
  shows "stack_main (lp_exec lp') \<and>
    load W (lp_exec lp') < load W (eg_exec (ts_engine ts)) + W (node_name (exec_node (ts_entry ts)))"
proof -
  have st: "stack_main (lp_exec lp2) \<and> load W (lp_exec lp2) < load W (eg_exec (ts_engine ts)) + W (node_name (exec_node ed))"
    if "store_result env w r t p d ed lp1 = Continue lp2" "lp_exec lp1 = eg_exec (ts_engine ts)" for t p d ed lp1 lp2
    using store_result_progress [OF that(1) assms(2-4)] that(2) assms(5) by simp
  show ?thesis
    using assms(1) unfolding finish_node_def Let_def
    by (auto split: option.splits if_splits dest!: st)
qed

lemma execute_entry_progress:
  assumes "execute_entry env w ed started r lp = Continue lp'" "respectful env" "is_v1 w" "nodes_wf w" "weighted w W"
    "stack_main (lp_exec lp)"
  shows "stack_main (lp_exec lp') \<and> load W (lp_exec lp') < load W (lp_exec lp) + W (node_name (exec_node ed))"
proof -
  let ?ts = "\<lparr>ts_entry = ed, ts_engine = lp_engine lp, ts_data = Null, ts_hints = [], ts_error = None\<rparr>"
  obtain ends ts where t: "try_loop env w r (max_tries (exec_node ed) - 1) ?ts = (ends, ts)"
    by (cases "try_loop env w r (max_tries (exec_node ed) - 1) ?ts")
  then have same: "same_schedule (lp_engine lp) (ts_engine ts)" "exec_node (ts_entry ts) = exec_node ed"
    using try_loop_schedule [OF assms(2)] by (force simp: same_entry_def)+
  have pos: "0 < W n" for n using assms(5) unfolding weighted_def by (metis gr0I less_zeroE)
  show ?thesis
  proof (cases ends)
    case True
    then have "lp_exec lp' = eg_exec (ts_engine ts)"
      using assms(1) t by (auto simp: execute_entry_def Let_def emit_def)
    then show ?thesis using same_schedule_load [OF same(1), of W] assms(6) pos by simp
  next
    case False
    then obtain pinned where f: "finish_node env w r started pinned ts (emit (NodeExecuteBefore (node_name (exec_node ed))) lp) = Continue lp'"
      using assms(1) t by (auto simp: execute_entry_def Let_def)
    show ?thesis
      using finish_node_progress [OF f assms(3-5)] same_schedule_load [OF same(1), of W] same(2) assms(6) by simp
  qed
qed

lemma ensure_inputs_v1:
  "is_v1 w \<Longrightarrow> has_main ed \<Longrightarrow> ensure_inputs w node ed exec is = Inr (b, exec') \<Longrightarrow> b \<and> exec' = exec"
  by (induction "is") (auto simp: bind_res_eq_Inr has_main_def forceInputNodeExecution_def split: if_splits)

lemma has_main_update: "has_main (e\<lparr>exec_data := update_paired_items (exec_data e)\<rparr>) = has_main e"
proof -
  have "map_get (update_paired_items d) Main \<noteq> None \<longleftrightarrow> map_get d Main \<noteq> None" for d
    by (induction d) (auto simp: update_paired_items_def)
  then show ?thesis by (simp add: has_main_def)
qed

lemma process_entry_progress:
  assumes run: "process_entry env w entry lp = Continue lp'" and "respectful env" "is_v1 w" "nodes_wf w" "weighted w W"
    "stack_main (lp_exec lp)" "has_main entry"
  shows "stack_main (lp_exec lp') \<and> load W (lp_exec lp') < load W (lp_exec lp) + W (node_name (exec_node entry))"
proof -
  let ?ed = "entry\<lparr>exec_data := update_paired_items (exec_data entry)\<rparr>"
  have main: "has_main ?ed" using assms(7) has_main_update by blast
  have pos: "0 < W n" for n using assms(5) unfolding weighted_def by (metis gr0I less_zeroE)
  have exec: "stack_main (lp_exec lp2) \<and> load W (lp_exec lp2) < load W (lp_exec lp) + W (node_name (exec_node entry))"
    if "execute_entry env w ?ed st r lp1 = Continue lp2" "lp_exec lp1 = lp_exec lp" for st r lp1 lp2
    using execute_entry_progress [OF that(1) assms(2-5)] that(2) assms(6) by simp
  have ens: "b \<and> x = lp_exec lp" if "ensureInputData w (exec_node entry) ?ed (lp_exec lp) = Inr (b, x)" for b x
    using that ensure_inputs_v1 [OF assms(3) main] unfolding ensureInputData_def Let_def by blast
  show ?thesis
    using run assms(6) pos unfolding process_entry_def Let_def
    by (auto split: if_splits sum.splits bool.splits prod.splits dest!: ens exec)
qed

lemma iteration_progress:
  assumes run: "iteration env w lp = Continue lp'" and "respectful env" "is_v1 w" "nodes_wf w" "weighted w W"
    "stack_main (lp_exec lp)"
  shows "stack_main (lp_exec lp') \<and> load W (lp_exec lp') < load W (lp_exec lp)"
proof -
  obtain entry rest lp1 where e: "nodeExecutionStack (lp_exec lp) = entry # rest"
    "process_entry env w entry (set_exec ((lp_exec lp)\<lparr>nodeExecutionStack := rest\<rparr>) lp1) = Continue lp'"
    using run by (auto simp: iteration_def Let_def split: if_splits list.splits)
  have "has_main entry" "stack_main ((lp_exec lp)\<lparr>nodeExecutionStack := rest\<rparr>)"
    using assms(6) e(1) by (simp_all add: stack_main_def)
  moreover have "load W (lp_exec lp) = load W ((lp_exec lp)\<lparr>nodeExecutionStack := rest\<rparr>) + W (node_name (exec_node entry))"
    using e(1) by (simp add: load_def stack_load_def wait_load_def)
  ultimately show ?thesis
    using process_entry_progress [OF e(2) assms(2-5)] by simp
qed

text \<open>A workflow whose Main connections have no cycle has such weights.\<close>

lemma output_connections_edge:
  "p \<in> set (output_connections w n) \<Longrightarrow> (n, conn_node (snd p)) \<in> main_edge (connectionsBySourceNode w)"
  by (force simp: output_connections_def main_edge_def main_connections_def in_set_enumerate_eq
      split: option.splits dest: nth_mem)

lemma main_connections_key: "c \<in> set (main_connections cs a) \<Longrightarrow> a \<in> set (map_keys cs)"
proof (cases "map_get cs a")
  case (Some tys)
  then show ?thesis by (force dest: map_of_SomeD)
qed (simp add: main_connections_def)

lemma acyclic_weighted:
  assumes "acyclic (main_edge (connectionsBySourceNode w))"
  shows "\<exists>W. weighted w W"
proof -
  let ?E = "main_edge (connectionsBySourceNode w)"
  have targets: "conn_node c \<in> bfs_targets cs" if "c \<in> set (main_connections cs a)" for a c cs
    using that main_connections_targets by blast
  have "?E \<subseteq> fst ` set (connectionsBySourceNode w) \<times> bfs_targets (connectionsBySourceNode w)"
    using main_connections_key targets unfolding main_edge_def by fastforce
  then have "finite ?E" by (rule finite_subset) simp
  then have wf: "wf (?E\<inverse>)" using assms by (simp add: finite_acyclic_wf_converse)
  define H where "H = (\<lambda>(f :: string \<Rightarrow> nat) n. Suc (sum_list (map (\<lambda>p. f (conn_node (snd p))) (output_connections w n))))"
  define F where "F = wfrec (?E\<inverse>) H"
  have "F n = H F n" for n
  proof -
    have "F n = H (cut F (?E\<inverse>) n) n" unfolding F_def by (rule wfrec [OF wf])
    moreover have "map (\<lambda>p. cut F (?E\<inverse>) n (conn_node (snd p))) (output_connections w n)
        = map (\<lambda>p. F (conn_node (snd p))) (output_connections w n)"
      by (rule map_cong) (auto simp: cut_apply dest: output_connections_edge)
    ultimately show ?thesis unfolding H_def by (simp only:)
  qed
  then have "weighted w F" unfolding weighted_def H_def by (metis lessI)
  then show ?thesis by blast
qed

section \<open>The waiting entries stay well formed\<close>

lemma waiting_ok_cong:
  "waitingExecution ed' = waitingExecution ed \<Longrightarrow> waitingExecutionSource ed' = waitingExecutionSource ed \<Longrightarrow>
     waiting_ok w ed' = waiting_ok w ed"
  by (simp add: waiting_ok_def sources_def)

lemma same_schedule_waiting: "same_schedule eg eg' \<Longrightarrow> waiting_ok w (eg_exec eg') = waiting_ok w (eg_exec eg)"
  by (rule waiting_ok_cong) (simp_all add: same_schedule_def)

lemma output_connections_main:
  "p \<in> set (output_connections w n) \<Longrightarrow> snd p \<in> set (main_connections (connectionsBySourceNode w) n)"
  by (force simp: output_connections_def main_connections_def in_set_enumerate_eq split: option.splits dest: nth_mem)

lemma add_successors_waiting:
  assumes "add_successors w n outs r rd ed = Inr ed'" "waiting_ok w ed" "routes_ok w"
  shows "waiting_ok w ed'"
proof -
  have add: "waiting_ok w t'"
    if a: "addNodeToBeExecuted w (snd p) (fst p) n (Some outs) r rd t = Inr t'" "waiting_ok w t"
      "p \<in> set (output_connections w n)" "gets_data w outs p" for p t t'
  proof -
    obtain its where "emitted (Some outs) (fst p) = Val its"
      using a(4) by (auto simp: gets_data_def emitted_def split: cell.splits)
    moreover have "conn_index (snd p) < length ins" if "main_inputs w (conn_node (snd p)) = Some ins" for ins
      using assms(3) output_connections_main [OF a(3)] that
      unfolding routes_ok_def by fastforce
    ultimately show ?thesis using addNode_waiting_ok [OF a(1,2)] by blast
  qed
  show ?thesis
  proof (cases "is_v1 w")
    case True
    let ?xs = "sort_before compare_position (map (to_add w) (filter (gets_data w outs) (output_connections w n)))"
    have run: "fold_res (\<lambda>ed a. addNodeToBeExecuted w (na_connection a) (na_output a) n (Some outs) r rd ed) ed ?xs = Inr ed'"
      using assms(1) True by (auto simp: add_successors_def Let_def split: if_splits)
    have mem: "set ?xs = to_add w ` {p \<in> set (output_connections w n). gets_data w outs p}"
      by simp
    show ?thesis
    proof (rule fold_res_invariant [OF run, where P = "waiting_ok w"])
      fix t a t' assume a: "a \<in> set ?xs" "waiting_ok w t"
        "addNodeToBeExecuted w (na_connection a) (na_output a) n (Some outs) r rd t = Inr t'"
      then obtain p where "a = to_add w p" "p \<in> set (output_connections w n)" "gets_data w outs p"
        unfolding mem by blast
      then show "waiting_ok w t'" using a(2,3) by (simp add: to_add_def add [of p t t'])
    qed (rule assms(2))
  next
    case False
    have run: "fold_res (\<lambda>ed p. if \<not> known_destination w p then Inl destination_error
          else if gets_data w outs p then addNodeToBeExecuted w (snd p) (fst p) n (Some outs) r rd ed else Inr ed)
        ed (output_connections w n) = Inr ed'"
      using assms(1) False by (simp add: add_successors_def Let_def)
    show ?thesis
      by (rule fold_res_invariant [OF run, where P = "waiting_ok w", OF assms(2)]) (auto split: if_splits dest: add)
  qed
qed

lemma release_waiting_waiting:
  assumes "release_waiting eval nts w ed = Inr ed'" "waiting_ok w ed" "types_known nts w"
  shows "waiting_ok w ed'"
proof (cases "nodeExecutionStack ed = []")
  case True
  with release_waiting_spec [OF assms(2,3), of eval] assms(1) show ?thesis by auto
next
  case False
  then show ?thesis using assms(1,2) by (simp add: release_waiting_def Let_def)
qed

primrec outcome_state :: "'w outcome \<Rightarrow> 'w loop" where
  "outcome_state (Continue lp) = lp"
| "outcome_state (Stop lp) = lp"
| "outcome_state (Thrown e lp) = lp"

text \<open>What an environment and a workflow have to satisfy for the loop to keep the invariant.\<close>

definition engine_ok :: "'w env \<Rightarrow> Workflow \<Rightarrow> bool" where
  "engine_ok env w = (routes_ok w \<and> types_known (env_nodeTypes env) w \<and> respectful env)"

lemma schedule_next_waiting:
  assumes "engine_ok env w" "waiting_ok w (lp_exec lp)"
  shows "waiting_ok w (lp_exec (outcome_state (schedule_next env w n outs r task lp)))"
  using assms
  by (auto simp: engine_ok_def schedule_next_def Let_def split: sum.splits
      dest: add_successors_waiting release_waiting_waiting)

lemma push_back_waiting [simp]: "waiting_ok w (lp_exec (push_back ed lp)) = waiting_ok w (lp_exec lp)"
  by (simp add: push_back_def Let_def)

lemma store_result_waiting:
  assumes "engine_ok env w" "waiting_ok w (lp_exec lp)"
  shows "waiting_ok w (lp_exec (outcome_state (store_result env w r task pinned d ed lp)))"
  using assms schedule_next_waiting [OF assms(1)]
  by (auto simp: store_result_def Let_def split: sum.splits)

lemma finish_node_waiting:
  assumes "engine_ok env w" "waiting_ok w (eg_exec (ts_engine ts))"
  shows "waiting_ok w (lp_exec (outcome_state (finish_node env w r started pinned ts lp)))"
  using assms store_result_waiting [OF assms(1)]
  by (auto simp: finish_node_def Let_def split: option.splits)

lemma execute_entry_waiting:
  assumes "engine_ok env w" "waiting_ok w (lp_exec lp)"
  shows "waiting_ok w (lp_exec (outcome_state (execute_entry env w ed started r lp)))"
proof -
  let ?ts = "\<lparr>ts_entry = ed, ts_engine = lp_engine lp, ts_data = Null, ts_hints = [], ts_error = None\<rparr>"
  obtain ends ts where t: "try_loop env w r (max_tries (exec_node ed) - 1) ?ts = (ends, ts)"
    by (cases "try_loop env w r (max_tries (exec_node ed) - 1) ?ts")
  then have "same_schedule (lp_engine lp) (ts_engine ts)"
    using assms(1) try_loop_schedule by (fastforce simp: engine_ok_def)
  then have "waiting_ok w (eg_exec (ts_engine ts))" using assms(2) same_schedule_waiting by blast
  then show ?thesis
    using t finish_node_waiting [OF assms(1)] by (auto simp: execute_entry_def Let_def)
qed

lemma ensure_inputs_waiting:
  "ensure_inputs w node ed exec is = Inr (b, exec') \<Longrightarrow> waiting_ok w exec' = waiting_ok w exec"
  by (induction "is") (auto simp: bind_res_eq_Inr split: if_splits option.splits)

lemma process_entry_waiting:
  assumes "engine_ok env w" "waiting_ok w (lp_exec lp)"
  shows "waiting_ok w (lp_exec (outcome_state (process_entry env w entry lp)))"
proof -
  have ens: "waiting_ok w x" if "ensureInputData w n ed (lp_exec lp) = Inr (b, x)" for n ed b x
    using that assms(2) ensure_inputs_waiting unfolding ensureInputData_def Let_def by blast
  show ?thesis
    using assms execute_entry_waiting [OF assms(1)] unfolding process_entry_def Let_def
    by (auto split: sum.splits prod.splits bool.splits dest: ens)
qed

lemma iteration_waiting:
  assumes "engine_ok env w" "waiting_ok w (lp_exec lp)"
  shows "waiting_ok w (lp_exec (outcome_state (iteration env w lp)))"
  using assms process_entry_waiting [OF assms(1)] by (auto simp: iteration_def Let_def split: list.splits)

end
