(* ===== verification/Execution_Start.thy ===== *)
theory Execution_Start
  imports Execution_Progress Workflow_Graph Partial_Subgraph Partial_Stack
begin

text \<open>
  How an execution starts and ends: \<open>run\<close>, \<open>runPartialWorkflow\<close>, \<open>runPartialWorkflow2\<close>,
  \<open>checkReadyForExecution\<close>, \<open>moveNodeMetadata\<close>, \<open>processSuccessExecution\<close>, \<open>getFullRunData\<close> and the
  frame of \<open>processRunExecutionData\<close> around the loop (\<open>workflow-execute.ts\<close>).

  Each way to start builds the state of the execution and hands it to
  \<open>processRunExecutionData\<close>. The issues of a node's parameters, the defaults of node parameters
  and the hook \<open>workflowExecuteBefore\<close>, whose error the code handles, are parameters.
\<close>

section \<open>Issues\<close>

type_synonym INodeIssues = "(string, json) jsmap"
type_synonym issue_check = "INodeType \<Rightarrow> INode \<Rightarrow> string list \<Rightarrow> INodeIssues option"

definition nodes_to_check :: "Workflow \<Rightarrow> string option \<Rightarrow> string option \<Rightarrow> string list" where
  "nodes_to_check w start dest =
     (case dest of Some d \<Rightarrow> getParentNodes w d (OfType Main) (-1) @ [d]
      | None \<Rightarrow> (case start of Some s \<Rightarrow> getChildNodes w s (OfType Main) (-1) @ [s] | None \<Rightarrow> []))"

definition node_issues ::
  "issue_check \<Rightarrow> INodeTypes \<Rightarrow> Workflow \<Rightarrow> string list \<Rightarrow> (string, INodeIssues) jsmap \<Rightarrow> string
     \<Rightarrow> (string, INodeIssues) jsmap result" where
  "node_issues getNodeParametersIssues nodeTypes w pins issues nodeName =
     (case map_get (wf_nodes w) nodeName of None \<Rightarrow> Inl TypeError
      | Some node \<Rightarrow>
          if disabled node = Some True then Inr issues
          else (case (case nodeTypes (node_type node) (typeVersion node) of
                        None \<Rightarrow> Some [(''typeUnknown'', JBool True)]
                      | Some ty \<Rightarrow> getNodeParametersIssues ty node pins) of
                  None \<Rightarrow> Inr issues
                | Some found \<Rightarrow> Inr (map_set (node_name node) found issues)))"

definition checkReadyForExecution ::
  "issue_check \<Rightarrow> INodeTypes \<Rightarrow> Workflow \<Rightarrow> string option \<Rightarrow> string option \<Rightarrow> string list
     \<Rightarrow> (string, INodeIssues) jsmap option result" where
  "checkReadyForExecution getNodeParametersIssues nodeTypes w start dest pins =
     bind_res (fold_res (node_issues getNodeParametersIssues nodeTypes w pins) [] (nodes_to_check w start dest))
       (\<lambda>issues. Inr (if issues = [] then None else Some issues))"

section \<open>The end of an execution\<close>

text \<open>Metadata of runs that do not exist is only reported.\<close>

definition add_metadata :: "string \<Rightarrow> nat \<Rightarrow> ITaskMetadata \<Rightarrow> IRunData \<Rightarrow> IRunData" where
  "add_metadata n i meta rd =
     (case map_get rd n of None \<Rightarrow> rd
      | Some tasks \<Rightarrow>
          if i < length tasks
          then map_set n (tasks[i := (tasks ! i)\<lparr>task_metadata :=
            Some (spread (case task_metadata (tasks ! i) of None \<Rightarrow> [] | Some m \<Rightarrow> m) meta)\<rparr>]) rd
          else rd)"

definition moveNodeMetadata :: "ExecutionData \<Rightarrow> IRunData \<Rightarrow> IRunData" where
  "moveNodeMetadata ed rd =
     fold (\<lambda>(n, metas) rd. fold (\<lambda>(i, meta) rd. add_metadata n i meta rd) (enumerate 0 metas) rd)
       (object_entries (node_metadata ed)) rd"

record IRun =
  run_execution :: IRunExecutionData
  run_finished :: "bool option"
  run_mode :: WorkflowExecuteMode
  run_waitTill :: "int option"
  startedAt :: int
  stoppedAt :: "int option"
  run_status :: ExecutionStatus

definition execution_data_of :: "'w engine \<Rightarrow> IRunExecutionData" where
  "execution_data_of eg =
     \<lparr>startData = Some (eg_start eg), resultData = eg_result eg, executionData = Some (eg_exec eg),
      waitTill = eg_waitTill eg\<rparr>"

definition getFullRunData :: "'w env \<Rightarrow> int \<Rightarrow> 'w engine \<Rightarrow> IRun" where
  "getFullRunData env started eg =
     \<lparr>run_execution = execution_data_of eg, run_finished = None, run_mode = env_mode env, run_waitTill = None,
      startedAt = started, stoppedAt = Some (env_now env (eg_world eg)), run_status = eg_status eg\<rparr>"

definition new_static_data :: "Workflow \<Rightarrow> (string, json) jsmap option" where
  "new_static_data w = (if staticDataChanged w then Some (staticData w) else None)"

text \<open>The result data is shared by the run and the engine, so the error and the metadata reach both.\<close>

definition with_error :: "ExecutionError option \<Rightarrow> 'w engine \<Rightarrow> 'w engine" where
  "with_error err eg =
     (case err of None \<Rightarrow> eg
      | Some e \<Rightarrow> eg\<lparr>eg_result := (eg_result eg)\<lparr>result_error := Some e\<rparr>\<rparr>)"

definition with_metadata :: "'w engine \<Rightarrow> 'w engine" where
  "with_metadata eg =
     eg\<lparr>eg_result := (eg_result eg)\<lparr>runData := moveNodeMetadata (eg_exec eg) (runData (eg_result eg))\<rparr>\<rparr>"

definition processSuccessExecution ::
  "'w env \<Rightarrow> int \<Rightarrow> Workflow \<Rightarrow> ExecutionError option \<Rightarrow> 'w loop \<Rightarrow> IRun \<times> 'w loop" where
  "processSuccessExecution env started w executionError lp =
     (let eg = with_metadata (with_error executionError (lp_engine lp));
          full = getFullRunData env started eg;
          full' = (case executionError of
              Some e \<Rightarrow> (if str_includes (err_message e) ''canceled'' then full\<lparr>run_status := Canceled\<rparr> else full)
            | None \<Rightarrow>
                (if eg_waitTill eg \<noteq> None then full\<lparr>run_waitTill := eg_waitTill eg, run_status := Waiting\<rparr>
                 else full\<lparr>run_finished := Some True, run_status := Success\<rparr>));
          lp' = lp\<lparr>lp_engine := eg\<rparr>
      in (full', if env_aborted env (eg_world eg) then lp'
                 else emit (WorkflowExecuteAfter (new_static_data w)) lp'))"

definition process_failed_execution ::
  "'w env \<Rightarrow> int \<Rightarrow> Workflow \<Rightarrow> ExecutionError \<Rightarrow> 'w loop \<Rightarrow> IRun \<times> 'w loop" where
  "process_failed_execution env started w err lp =
     (let eg = with_metadata (with_error (Some err) (lp_engine lp))
      in (getFullRunData env started eg,
          emit (WorkflowExecuteAfter (new_static_data w)) (lp\<lparr>lp_engine := eg\<rparr>)))"

definition cancelled_error :: ExecutionError where
  "cancelled_error = \<lparr>err_name = ''ExecutionCancelledError'', err_message = ''The execution was cancelled'',
     err_stack = None, err_description = None\<rparr>"

definition finish_execution ::
  "'w env \<Rightarrow> int \<Rightarrow> Workflow \<Rightarrow> ExecutionError option \<times> 'w loop \<Rightarrow> IRun \<times> 'w loop" where
  "finish_execution env started w r =
     (case r of
        (Some err, lp) \<Rightarrow> process_failed_execution env started w err lp
      | (None, lp) \<Rightarrow>
          if eg_status (lp_engine lp) = Canceled \<and> lp_error lp = None
          then processSuccessExecution env started w (Some cancelled_error) lp
          else processSuccessExecution env started w (lp_error lp) lp)"

section \<open>The frame of the loop\<close>

definition issues_error :: js_error where
  "issues_error = ApplicationError
     ''The workflow has issues and cannot be executed for that reason. Please fix them first.''"

text \<open>
  An execution that waited goes on at the node that waited: the node is disabled, so that its
  input passes through, and its unfinished run is removed.
\<close>

definition resume_waiting :: "ExecutionData \<times> ResultData \<Rightarrow> (ExecutionData \<times> ResultData) result" where
  "resume_waiting p =
     (case p of (ed, res) \<Rightarrow>
        (case (nodeExecutionStack ed, lastNodeExecuted res) of
           (entry # rest, Some n) \<Rightarrow>
             (case map_get (runData res) n of None \<Rightarrow> Inl TypeError
              | Some tasks \<Rightarrow>
                  Inr (ed\<lparr>nodeExecutionStack :=
                         entry\<lparr>exec_node := (exec_node entry)\<lparr>disabled := Some True\<rparr>\<rparr> # rest\<rparr>,
                       res\<lparr>runData := map_set n (butlast tasks) (runData res)\<rparr>))
         | _ \<Rightarrow> Inl TypeError))"

definition truthy_name :: "string option \<Rightarrow> string option" where
  "truthy_name s = (case s of Some [] \<Rightarrow> None | _ \<Rightarrow> s)"

text \<open>The state with which the loop starts, or the error thrown before it.\<close>

definition enter_loop ::
  "'w env \<Rightarrow> issue_check \<Rightarrow> Workflow \<Rightarrow> int \<Rightarrow> 'w \<Rightarrow> IRunExecutionData \<Rightarrow> 'w loop result" where
  "enter_loop env getNodeParametersIssues w index world red =
     (case executionData red of
        None \<Rightarrow> Inl (ApplicationError ''Failed to run workflow due to missing execution data'')
      | Some ed \<Rightarrow>
          (let start = (case startData red of None \<Rightarrow> no_start_data | Some s \<Rightarrow> s);
               startNode = (case nodeExecutionStack ed of [] \<Rightarrow> None | e # _ \<Rightarrow> Some (node_name (exec_node e)));
               pins = (case pinData (resultData red) of None \<Rightarrow> [] | Some p \<Rightarrow> object_keys p)
           in bind_res (checkReadyForExecution getNodeParametersIssues (env_nodeTypes env) w (truthy_name startNode)
                  (truthy_name (destinationNode start)) pins) (\<lambda>issues.
                if issues \<noteq> None then Inl issues_error
                else bind_res (if waitTill red \<noteq> None then resume_waiting (ed, resultData red)
                               else Inr (ed, resultData red)) (\<lambda>(ed', res).
                  Inr \<lparr>lp_engine = \<lparr>eg_start = start, eg_result = res, eg_exec = ed', eg_waitTill = None,
                         eg_status = Running, eg_index = index, eg_world = world\<rparr>,
                       lp_last_try = [], lp_error = None, lp_events = []\<rparr>))))"

text \<open>The error of the hook \<open>workflowExecuteBefore\<close> is stored with the input of the first node.\<close>

definition before_hook_failed :: "'w env \<Rightarrow> ExecutionError \<Rightarrow> 'w loop \<Rightarrow> ExecutionError \<times> 'w loop" where
  "before_hook_failed env err lp =
     (case nodeExecutionStack (lp_exec lp) of
        [] \<Rightarrow> (env_error env TypeError, lp)
      | entry # _ \<Rightarrow>
          (let n = node_name (exec_node entry);
               task = \<lparr>startTime = env_now env (eg_world (lp_engine lp)), executionIndex = Some 0, task_source = [],
                 hints = [], executionTime = 0, executionStatus = Some Error,
                 task_data = Some (case map_get (exec_data entry) Main of None \<Rightarrow> [] | Some m \<Rightarrow> [(Main, m)]),
                 inputOverride = None, task_error = None, task_metadata = None\<rparr>
           in (err, lp\<lparr>lp_error := Some err, lp_engine := (lp_engine lp)\<lparr>eg_result :=
                \<lparr>result_error = Some err, runData = [(n, [task])], pinData = None,
                 lastNodeExecuted = Some n\<rparr>\<rparr>\<rparr>)))"

definition processRunExecutionData ::
  "nat \<Rightarrow> 'w env \<Rightarrow> issue_check \<Rightarrow> ExecutionError option \<Rightarrow> bool \<Rightarrow> Workflow \<Rightarrow> int \<Rightarrow> 'w \<Rightarrow> IRunExecutionData
     \<Rightarrow> (IRun \<times> 'w loop) option result" where
  "processRunExecutionData fuel env getNodeParametersIssues beforeError isRestart w index world red =
     bind_res (enter_loop env getNodeParametersIssues w index world red) (\<lambda>lp.
       let started = env_now env world in
       Inr (if isRestart then map_option (finish_execution env started w) (execution_loop fuel env w lp)
            else (case beforeError of
                    Some err \<Rightarrow> (case before_hook_failed env err lp of (e, lp') \<Rightarrow>
                        Some (finish_execution env started w (Some e, emit WorkflowExecuteBefore lp')))
                  | None \<Rightarrow> map_option (finish_execution env started w)
                      (execution_loop fuel env w (emit WorkflowExecuteBefore lp)))))"

section \<open>Full executions\<close>

definition run_data_for :: "StartData \<Rightarrow> IRunData \<Rightarrow> IPinData option \<Rightarrow> ExecutionData \<Rightarrow> IRunExecutionData" where
  "run_data_for start rd pins ed =
     \<lparr>startData = Some start,
      resultData = \<lparr>result_error = None, runData = rd, pinData = pins, lastNodeExecuted = None\<rparr>,
      executionData = Some ed, waitTill = None\<rparr>"

definition prepare_run ::
  "INodeTypes \<Rightarrow> Workflow \<Rightarrow> INode option \<Rightarrow> string option \<Rightarrow> IPinData option \<Rightarrow> ITaskDataConnections option
     \<Rightarrow> IRunExecutionData result" where
  "prepare_run nodeTypes w startNode dest pins triggerData =
     bind_res (case startNode of Some n \<Rightarrow> Inr (Some n) | None \<Rightarrow> getStartNode nodeTypes w dest) (\<lambda>start.
       case start of
         None \<Rightarrow> Inl (ApplicationError ''No node to start the workflow from could be found'')
       | Some node \<Rightarrow>
           Inr (run_data_for
             \<lparr>destinationNode = dest, originalDestinationNode = None,
              runNodeFilter = (case truthy_name dest of None \<Rightarrow> None
                | Some d \<Rightarrow> Some (getParentNodes w d (OfType Main) (-1) @ [d]))\<rparr>
             [] pins
             (no_execution_data\<lparr>nodeExecutionStack :=
               [\<lparr>exec_data = (case triggerData of None \<Rightarrow> [(Main, [Val [json_item []]])] | Some d \<Rightarrow> d),
                 exec_metadata = None, exec_node = node, exec_source = None\<rparr>]\<rparr>)))"

section \<open>Partial executions, first version\<close>

text \<open>The data of the connections into a start node, and its sources.\<close>

definition add_incoming ::
  "Workflow \<Rightarrow> IRunData \<Rightarrow> IPinData option \<Rightarrow> ISourceData option \<Rightarrow> IConnection
     \<Rightarrow> items cell list \<times> ISourceData cell list \<Rightarrow> items cell list \<times> ISourceData cell list" where
  "add_incoming w rd pins sourceData c acc =
     (case acc of (incomingData, srcs) \<Rightarrow>
        let node = getNode w (conn_node c);
            src = Val (case sourceData of Some s \<Rightarrow> s | None \<Rightarrow>
              \<lparr>previousNode = conn_node c, previousNodeOutput = None, previousNodeRun = None\<rparr>);
            pinned = (case (node, pins) of (Some n, Some ps) \<Rightarrow> map_get ps (node_name n) | _ \<Rightarrow> None)
        in if (case node of None \<Rightarrow> False | Some n \<Rightarrow> disabled n = Some True) then acc
           else (case pinned of
                   Some its \<Rightarrow> (incomingData @ [Val its], srcs @ [src])
                 | None \<Rightarrow>
                     if \<not> map_has rd (conn_node c) then acc
                     else (case output_cell rd (conn_node c) 0 (conn_type c) (conn_index c) of
                             Val its \<Rightarrow> (incomingData @ [Val its], srcs @ [src])
                           | _ \<Rightarrow> (incomingData, srcs @ [src]))))"

definition start_entry ::
  "Workflow \<Rightarrow> IRunData \<Rightarrow> IPinData option \<Rightarrow> StartNodeData \<Rightarrow> IExecuteData result" where
  "start_entry w rd pins sn =
     bind_res (the_node w (sn_name sn)) (\<lambda>node.
       case map_get (connectionsByDestinationNode w) (sn_name sn) of
         None \<Rightarrow> Inr \<lparr>exec_data = [(Main, [Val [json_item []]])], exec_metadata = None, exec_node = node,
                       exec_source = None\<rparr>
       | Some tys \<Rightarrow>
           (case map_get tys Main of None \<Rightarrow> Inl TypeError
            | Some ins \<Rightarrow>
                (case fold (add_incoming w rd pins (sn_sourceData sn)) (concat (map cell_list ins)) ([], []) of
                   (incomingData, srcs) \<Rightarrow>
                     Inr \<lparr>exec_data = [(Main, incomingData)], exec_metadata = None, exec_node = node,
                          exec_source = Some [(Main, srcs)]\<rparr>)))"

text \<open>\<open>runData[n][0].data[type][index]\<close>, which throws where a step but the last is missing.\<close>

definition strict_output :: "IRunData \<Rightarrow> IConnection \<Rightarrow> items cell result" where
  "strict_output rd c =
     (case map_get rd (conn_node c) of None \<Rightarrow> Inl TypeError
      | Some tasks \<Rightarrow> (case arr_get tasks 0 of None \<Rightarrow> Inl TypeError
        | Some task \<Rightarrow> (case task_data task of None \<Rightarrow> Inl TypeError
          | Some d \<Rightarrow> (case map_get d (conn_type c) of None \<Rightarrow> Inl TypeError
            | Some outs \<Rightarrow> Inr (cell_get outs (conn_index c))))))"

definition push_input ::
  "string \<Rightarrow> nat \<Rightarrow> NodeConnectionType \<Rightarrow> 'v cell \<Rightarrow> 'v waiting \<Rightarrow> 'v waiting" where
  "push_input n i ty v m =
     (let e = (case map_get (run_entries m n) i of None \<Rightarrow> [] | Some e \<Rightarrow> e);
          arr = (case map_get e ty of None \<Rightarrow> [] | Some a \<Rightarrow> a)
      in entry_put n i (map_set ty (arr @ [v]) e) m)"

text \<open>One connection into the destination.\<close>

definition add_destination_input ::
  "IRunData \<Rightarrow> string \<Rightarrow> IWaitingForExecution \<times> IWaitingForExecutionSource \<Rightarrow> IConnection
     \<Rightarrow> (IWaitingForExecution \<times> IWaitingForExecutionSource) result" where
  "add_destination_input rd dest acc c =
     (case acc of (we, ws) \<Rightarrow>
        if map_has rd (conn_node c) then
          bind_res (strict_output rd c) (\<lambda>v.
            Inr (push_input dest 0 (conn_type c) v we,
                 push_input dest 0 (conn_type c) (Val (emitted_source (conn_node c) (conn_index c) 0)) ws))
        else Inr (push_input dest 0 (conn_type c) Null we, push_input dest 0 (conn_type c) Null ws))"

definition add_destination ::
  "Workflow \<Rightarrow> IRunData \<Rightarrow> string \<Rightarrow> IWaitingForExecution \<times> IWaitingForExecutionSource
     \<Rightarrow> (IWaitingForExecution \<times> IWaitingForExecutionSource) result" where
  "add_destination w rd dest acc =
     (case map_get (connectionsByDestinationNode w) dest of None \<Rightarrow> Inr acc
      | Some tys \<Rightarrow>
          (case map_get tys Main of None \<Rightarrow> Inl TypeError
           | Some ins \<Rightarrow> fold_res (add_destination_input rd dest) acc (concat (map cell_list ins))))"

definition prepare_start_node ::
  "Workflow \<Rightarrow> IRunData \<Rightarrow> IPinData option \<Rightarrow> string option
     \<Rightarrow> IExecuteData list \<times> IWaitingForExecution \<times> IWaitingForExecutionSource \<Rightarrow> StartNodeData
     \<Rightarrow> (IExecuteData list \<times> IWaitingForExecution \<times> IWaitingForExecutionSource) result" where
  "prepare_start_node w rd pins dest acc sn =
     (case acc of (stack, we, ws) \<Rightarrow>
        bind_res (start_entry w rd pins sn) (\<lambda>e.
          bind_res (case truthy_name dest of None \<Rightarrow> Inr (we, ws) | Some d \<Rightarrow> add_destination w rd d (we, ws))
            (\<lambda>(we', ws'). Inr (stack @ [e], we', ws'))))"

definition enabled_parents :: "Workflow \<Rightarrow> string \<Rightarrow> string list" where
  "enabled_parents w d =
     filter (\<lambda>p. case getNode w p of None \<Rightarrow> True | Some n \<Rightarrow> disabled n \<noteq> Some True)
       (getParentNodes w d (OfType Main) (-1))"

definition prepare_partial ::
  "Workflow \<Rightarrow> IRunData \<Rightarrow> StartNodeData list \<Rightarrow> string option \<Rightarrow> IPinData option
     \<Rightarrow> (IRunExecutionData \<times> int) result" where
  "prepare_partial w rd startNodes dest pins =
     bind_res (fold_res (prepare_start_node w rd pins dest) ([], [], []) startNodes) (\<lambda>(stack, we, ws).
       Inr (run_data_for
              \<lparr>destinationNode = dest, originalDestinationNode = None,
               runNodeFilter = (case truthy_name dest of None \<Rightarrow> None
                 | Some d \<Rightarrow> if startNodes = [] then None else Some (enabled_parents w d @ [d]))\<rparr>
              rd pins
              (no_execution_data\<lparr>nodeExecutionStack := stack, waitingExecution := we,
                waitingExecutionSource := Some ws\<rparr>),
            getNextExecutionIndex rd))"

section \<open>Partial executions, second version\<close>

text \<open>The own properties of a workflow object, as parameters of a new one.\<close>

definition workflow_parameters :: "Workflow \<Rightarrow> WorkflowParameters" where
  "workflow_parameters w =
     \<lparr>wp_id = wf_id w, wp_name = wf_name w, wp_nodes = [], wp_connections = [], wp_active = active w,
      wp_staticData = staticData w, wp_settings = settings w, wp_pinData = wf_pinData w\<rparr>"

text \<open>What the second version takes from outside: the registry of node types and the parameters of its helpers.\<close>

record partial_env =
  pe_nodeTypes :: INodeTypes
  pe_getNodeParameters :: "INodeType \<Rightarrow> INode \<Rightarrow> INodeParameters option"
  pe_localeCompare :: "string \<Rightarrow> string \<Rightarrow> int"
  pe_sort :: "(INode \<Rightarrow> INode \<Rightarrow> int) \<Rightarrow> INode list \<Rightarrow> INode list"
  pe_fresh :: nat

type_synonym agent_request = "(json option \<times> string option) option"

definition partial_state ::
  "DirectedGraph \<Rightarrow> StartData \<Rightarrow> IRunData \<Rightarrow> IPinData \<Rightarrow> RecreatedStack \<Rightarrow> IRunExecutionData" where
  "partial_state graph start rd pins st =
     run_data_for (start\<lparr>runNodeFilter := Some (map node_name (getNodes graph))\<rparr>) rd (Some pins)
       (no_execution_data\<lparr>nodeExecutionStack := rs_nodeExecutionStack st,
          waitingExecution := rs_waitingExecution st,
          waitingExecutionSource := Some (rs_waitingExecutionSource st)\<rparr>)"

text \<open>A destination without parents runs alone.\<close>

definition prepare_single ::
  "partial_env \<Rightarrow> Workflow \<Rightarrow> DirectedGraph \<Rightarrow> INode \<Rightarrow> string \<Rightarrow> IRunData \<Rightarrow> IPinData
     \<Rightarrow> (Workflow \<times> IRunExecutionData \<times> int option) result" where
  "prepare_single pe w graph destination dest rd pins =
     bind_res (filterDisabledNodes graph) (\<lambda>filtered.
     bind_res (findSubgraph filtered destination destination) (\<lambda>graph'.
     bind_res (cleanRunData rd graph' [destination]) (\<lambda>rd'.
     bind_res (recreateNodeExecutionStack (pe_localeCompare pe) graph' [destination] rd' pins) (\<lambda>st.
     bind_res (toWorkflow (pe_nodeTypes pe) (pe_getNodeParameters pe) (workflow_parameters w) graph') (\<lambda>w'.
       Inr (w', partial_state graph' (no_start_data\<lparr>destinationNode := Some dest\<rparr>) rd' pins st, None))))))"

definition first_parent_with_data :: "Workflow \<Rightarrow> string \<Rightarrow> IRunData \<Rightarrow> INode option" where
  "first_parent_with_data w dest rd =
     (case List.find (map_has rd) (getParentNodes w dest (OfType Main) (-1)) of None \<Rightarrow> None
      | Some n \<Rightarrow> getNode w n)"

definition partial_trigger :: "partial_env \<Rightarrow> Workflow \<Rightarrow> string \<Rightarrow> IRunData \<Rightarrow> INode result" where
  "partial_trigger pe w dest rd =
     bind_res (findTriggerForPartialExecution (pe_sort pe) (pe_nodeTypes pe) w dest rd) (\<lambda>trigger.
       case trigger of Some t \<Rightarrow> Inr t
       | None \<Rightarrow>
           (case first_parent_with_data w dest rd of Some t \<Rightarrow> Inr t
            | None \<Rightarrow> Inl (UserError ''Connect a trigger to run this node'')))"

text \<open>Steps 1 to 7.\<close>

definition prepare_subgraph ::
  "partial_env \<Rightarrow> Workflow \<Rightarrow> DirectedGraph \<Rightarrow> INode \<Rightarrow> string \<Rightarrow> string \<Rightarrow> IRunData \<Rightarrow> IPinData \<Rightarrow> string list
     \<Rightarrow> (Workflow \<times> IRunExecutionData \<times> int option) result" where
  "prepare_subgraph pe w graph destination dest originalDest rd pins dirtyNodeNames =
     bind_res (partial_trigger pe w dest rd) (\<lambda>trigger.
     bind_res (filterDisabledNodes graph) (\<lambda>filtered.
     bind_res (findSubgraph filtered destination trigger) (\<lambda>graph'.
     bind_res (cleanRunData rd graph' (getNodesByNames graph' dirtyNodeNames)) (\<lambda>rd1.
     bind_res (findStartNodes graph' trigger destination rd1 pins) (\<lambda>startNodes.
     bind_res (handleCycles graph' startNodes trigger) (\<lambda>startNodes'.
     bind_res (cleanRunData rd1 graph' startNodes') (\<lambda>rd2.
     bind_res (recreateNodeExecutionStack (pe_localeCompare pe) graph' startNodes' rd2 pins) (\<lambda>st.
       Inr (w, partial_state graph'
              (no_start_data\<lparr>destinationNode := Some dest, originalDestinationNode := Some originalDest\<rparr>) rd2 pins st,
            Some (getNextExecutionIndex rd2))))))))))"

definition prepare_partial2 ::
  "partial_env \<Rightarrow> Workflow \<Rightarrow> IRunData \<Rightarrow> IPinData \<Rightarrow> string list \<Rightarrow> string option \<Rightarrow> agent_request
     \<Rightarrow> (Workflow \<times> IRunExecutionData \<times> int option) result" where
  "prepare_partial2 pe w rd pins dirtyNodeNames dest agentRequest =
     (case truthy_name dest of None \<Rightarrow> Inl AssertionError
      | Some d \<Rightarrow>
          (case getNode w d of None \<Rightarrow> Inl AssertionError
           | Some destination \<Rightarrow>
               bind_res (fromWorkflow w) (\<lambda>graph.
                 case pe_nodeTypes pe (node_type destination) (typeVersion destination) of None \<Rightarrow> Inl TypeError
                 | Some ty \<Rightarrow>
                     if isTool ty (parameters destination) then
                       bind_res (rewireGraph (pe_fresh pe) destination graph agentRequest) (\<lambda>graph'.
                       bind_res (toWorkflow (pe_nodeTypes pe) (pe_getNodeParameters pe) (workflow_parameters w) graph') (\<lambda>w'.
                         case getNode w' TOOL_EXECUTOR_NODE_NAME of
                           None \<Rightarrow> Inl (OperationalError ''ToolExecutor can not be found'')
                         | Some toolExecutor \<Rightarrow>
                             prepare_subgraph pe w' graph' toolExecutor (node_name toolExecutor) d rd pins dirtyNodeNames))
                     else
                       bind_res (getDirectParentConnections graph destination) (\<lambda>parents.
                         if parents = [] then prepare_single pe w graph destination d rd pins
                         else prepare_subgraph pe w graph destination d d rd pins dirtyNodeNames))))"

section \<open>The entry points\<close>

text \<open>
  Each way to start prepares the state and processes it. What they share is the environment, the
  check for issues, the outcome of the hook before the execution, whether the execution is
  restarted, and the world.
\<close>

record 'w start_env =
  se_env :: "'w env"
  se_issues :: issue_check
  se_beforeError :: "ExecutionError option"
  se_restart :: bool
  se_index :: int
  se_world :: 'w

definition process_with ::
  "nat \<Rightarrow> 'w start_env \<Rightarrow> Workflow \<Rightarrow> int \<Rightarrow> IRunExecutionData \<Rightarrow> (IRun \<times> 'w loop) option result" where
  "process_with fuel se w index red =
     processRunExecutionData fuel (se_env se) (se_issues se) (se_beforeError se) (se_restart se) w index (se_world se) red"

definition run ::
  "nat \<Rightarrow> 'w start_env \<Rightarrow> Workflow \<Rightarrow> INode option \<Rightarrow> string option \<Rightarrow> IPinData option
     \<Rightarrow> ITaskDataConnections option \<Rightarrow> (IRun \<times> 'w loop) option result" where
  "run fuel se w startNode dest pins triggerData =
     bind_res (prepare_run (env_nodeTypes (se_env se)) w startNode dest pins triggerData)
       (process_with fuel se w (se_index se))"

definition runPartialWorkflow ::
  "nat \<Rightarrow> 'w start_env \<Rightarrow> Workflow \<Rightarrow> IRunData \<Rightarrow> StartNodeData list \<Rightarrow> string option \<Rightarrow> IPinData option
     \<Rightarrow> (IRun \<times> 'w loop) option result" where
  "runPartialWorkflow fuel se w rd startNodes dest pins =
     bind_res (prepare_partial w rd startNodes dest pins) (\<lambda>(red, index). process_with fuel se w index red)"

definition runPartialWorkflow2 ::
  "nat \<Rightarrow> 'w start_env \<Rightarrow> partial_env \<Rightarrow> Workflow \<Rightarrow> IRunData \<Rightarrow> IPinData \<Rightarrow> string list \<Rightarrow> string option
     \<Rightarrow> agent_request \<Rightarrow> (IRun \<times> 'w loop) option result" where
  "runPartialWorkflow2 fuel se pe w rd pins dirtyNodeNames dest agentRequest =
     bind_res (prepare_partial2 pe w rd pins dirtyNodeNames dest agentRequest) (\<lambda>(w', red, index).
       process_with fuel se w' (case index of None \<Rightarrow> se_index se | Some i \<Rightarrow> i) red)"

end
