(* ===== verification/Execution_Partial.thy ===== *)
theory Execution_Partial
  imports Execution_Start
begin

text \<open>
  The composition of the helpers in \<open>runPartialWorkflow2\<close>: on a graph of enabled nodes in which the
  trigger reaches the destination, the steps from the subgraph to the execution stack all
  succeed, and what one of them establishes is what the next one needs.
\<close>

lemma walk_back_path:
  "walk ((main_edges g)\<inverse>) cur xs t \<Longrightarrow>
     \<exists>path. back_path g cur path t \<and> map from_node path = xs \<and> map to_node path = butlast (cur # xs)"
proof (induction xs arbitrary: cur)
  case (Cons x xs)
  then obtain path where path: "back_path g x path t" "map from_node path = xs" "map to_node path = butlast (x # xs)"
    by auto
  from Cons.prems obtain c where "c \<in> conns g" "gc_type c = Main" "from_node c = x" "to_node c = cur"
    by (auto simp: main_edges_iff)
  with path show ?case by (intro exI [of _ "c # path"]) auto
qed simp

lemma subgraph_has_trigger:
  assumes g: "graph_wf g" "all_dash_free g" "nodeExists g d" and path: "(t, d) \<in> (main_edges g)\<^sup>+" "t \<noteq> d"
    and h: "findSubgraph g d t = Inr h"
  shows "part_of h g \<and> nodeExists h t"
proof -
  have spec: "part_of h g" "\<And>path. back_path g d path t \<Longrightarrow> distinct (map to_node path) \<Longrightarrow>
      t \<notin> to_node ` set path \<Longrightarrow> set path \<subseteq> conns h"
    using findSubgraph_spec [OF g, of t] h by auto
  from path(1) have "(d, t) \<in> ((main_edges g)\<inverse>)\<^sup>*"
    by (simp add: trancl_into_rtrancl rtrancl_converse)
  then obtain k where "(d, t) \<in> (main_edges g)\<inverse> ^^ k" using rtrancl_power by blast
  from relpow_simple_walk [OF this] obtain xs where xs: "walk ((main_edges g)\<inverse>) d xs t" "distinct (d # xs)" by blast
  obtain path where p: "back_path g d path t" "map from_node path = xs" "map to_node path = butlast (d # xs)"
    using walk_back_path [OF xs(1)] by blast
  have ne: "xs \<noteq> []" using xs(1) path(2) by auto
  have last: "walk E a ys b \<Longrightarrow> ys \<noteq> [] \<Longrightarrow> last ys = b" for E :: "(INode \<times> INode) set" and a ys b
    by (induction ys arbitrary: a) (auto split: if_splits)
  have t: "last (d # xs) = t" using last [OF xs(1) ne] ne by simp
  have "t \<notin> set (butlast (d # xs))"
    using xs(2) t by (metis append_butlast_last_id distinct_append disjoint_insert(1) empty_set list.discI list.simps(15))
  moreover have "distinct (butlast (d # xs))" using xs(2) distinct_butlast by blast
  ultimately have sub: "set path \<subseteq> conns h"
    using spec(2) [OF p(1)] unfolding p(3) [symmetric] by simp
  obtain c where "c \<in> set path" "from_node c = t"
    using ne t p(2) by (metis (no_types, lifting) imageE last_ConsR last_in_set list.set_map)
  then have "nodeExists h t" using sub conns_exist [of h c] spec(1) by (auto simp: part_of_def)
  with spec(1) show ?thesis by blast
qed

text \<open>Cleaning run data only removes data.\<close>

lemma fold_delete_subset: "set (fold (\<lambda>c rd. if P c then rd else map_delete (f c) rd) cs rd) \<subseteq> set rd"
proof (induction cs arbitrary: rd)
  case (Cons c cs)
  have "set (map_delete (f c) rd) \<subseteq> set rd" by (auto simp: map_delete_def)
  with Cons.IH show ?case by (auto split: if_splits)
qed simp

lemma cleanRunData_subset:
  assumes "cleanRunData rd g ns = Inr rd'"
  shows "set rd' \<subseteq> set rd"
proof -
  have del: "set (map_delete k m) \<subseteq> set m" for k and m :: IRunData by (auto simp: map_delete_def)
  have node: "set t' \<subseteq> set t" if c: "clean_node g t n = Inr t'" for t n t'
  proof -
    obtain cs :: "GraphConnection list" where "t' = fold (\<lambda>c rd. if gc_type c = Main then rd else map_delete (node_name (from_node c)) rd) cs
        (map_delete (node_name n) t)"
      using c unfolding clean_node_def bind_res_eq_Inr sum.inject by blast
    then show ?thesis
      using fold_delete_subset [of "\<lambda>c. gc_type c = Main" "\<lambda>c. node_name (from_node c)" cs "map_delete (node_name n) t"] del
      by blast
  qed
  have inner: "set t' \<subseteq> set t" if "fold_res (clean_node g) t ns = Inr t'" for t ns t'
    by (rule fold_res_invariant [OF that, where P = "\<lambda>x. set x \<subseteq> set t"]) (use node in blast)+
  obtain rd1 where rd1: "fold_res (\<lambda>rd n. bind_res (getChildren g n) (\<lambda>children.
      fold_res (clean_node g) (map_delete (node_name n) rd) (n # children))) rd ns = Inr rd1"
    "rd' = fold (\<lambda>nodeName rd. if hasNode g nodeName then rd else map_delete nodeName rd) (object_keys rd1) rd1"
    using assms by (auto simp: cleanRunData_def bind_res_eq_Inr)
  have "set rd1 \<subseteq> set rd"
  proof (rule fold_res_invariant [OF rd1(1), where P = "\<lambda>x. set x \<subseteq> set rd"])
    fix t n t' assume t: "set t \<subseteq> set rd" "bind_res (getChildren g n) (\<lambda>children.
        fold_res (clean_node g) (map_delete (node_name n) t) (n # children)) = Inr t'"
    then obtain children where "fold_res (clean_node g) (map_delete (node_name n) t) (n # children) = Inr t'"
      unfolding bind_res_eq_Inr by blast
    from inner [OF this] del t(1) show "set t' \<subseteq> set rd" by blast
  qed simp
  then show ?thesis unfolding rd1(2) using fold_delete_subset [of "hasNode g" "\<lambda>x. x"] by blast
qed

lemma typed_run_data_subset: "set rd' \<subseteq> set rd \<Longrightarrow> typed_run_data rd ty \<Longrightarrow> typed_run_data rd' ty"
  unfolding typed_run_data_def list_all_iff by blast

lemma getNodesByNames_exist: "graph_wf g \<Longrightarrow> n \<in> set (getNodesByNames g names) \<Longrightarrow> nodeExists g n"
proof -
  assume wf: "graph_wf g"
  have "\<forall>m \<in> set (fold (\<lambda>nm nodes. case map_get (g_nodes g) nm of None \<Rightarrow> nodes | Some n \<Rightarrow> set_add n nodes) names acc).
      m \<in> set acc \<or> nodeExists g m" for acc
  proof (induction names arbitrary: acc)
    case (Cons nm names)
    show ?case
    proof (cases "map_get (g_nodes g) nm")
      case (Some x)
      then have "node_name x = nm" using wf unfolding graph_wf_def by (auto dest!: map_of_SomeD)
      with Some have "nodeExists g x" by (simp add: nodeExists_def)
      with Some Cons.IH [of "set_add x acc"] show ?thesis by auto
    qed (use Cons.IH in auto)
  qed simp
  moreover assume "n \<in> set (getNodesByNames g names)"
  ultimately show ?thesis unfolding getNodesByNames_def by fastforce
qed

text \<open>What the prepared state of a partial execution looks like.\<close>

definition prepared_ok ::
  "DirectedGraph \<Rightarrow> INode \<Rightarrow> string \<Rightarrow> IRunData \<Rightarrow> DirectedGraph \<Rightarrow> IRunExecutionData \<Rightarrow> int \<Rightarrow> bool" where
  "prepared_ok g t dest rd h red i =
     (part_of h g
      \<and> (\<exists>start ed. startData red = Some start \<and> executionData red = Some ed
           \<and> destinationNode start = Some dest
           \<and> runNodeFilter start = Some (map node_name (getNodes h))
           \<and> (\<forall>e \<in> set (nodeExecutionStack ed). nodeExists h (exec_node e) \<and> (t, exec_node e) \<in> (graph_edges h)\<^sup>*
                \<and> map_get (runData (resultData red)) (node_name (exec_node e)) = None)
           \<and> set (map_keys (waitingExecution ed)) \<subseteq> set (map node_name (getNodes h)))
      \<and> (\<forall>k ts. map_get (runData (resultData red)) k = Some ts \<longrightarrow> map_get rd k = Some ts \<and> hasNode h k)
      \<and> (\<forall>k ts x j. (k, ts) \<in> set (runData (resultData red)) \<longrightarrow> x \<in> set ts \<longrightarrow> executionIndex x = Some j \<longrightarrow> j < i))"

lemma cleaned_none:
  assumes "graph_wf h" "\<forall>n \<in> set ns. nodeExists h n" "cleanRunData rd h ns = Inr rd'"
  shows "n \<in> set ns \<Longrightarrow> map_get rd' (node_name n) = None"
    and "map_get rd' k = Some ts \<Longrightarrow> map_get rd k = Some ts \<and> hasNode h k"
proof -
  have spec: "map_get rd' k = (if hasNode h k \<and> k \<notin> \<Union> (cleaned_by h ` ((graph_edges h)\<^sup>* `` set ns))
      then map_get rd k else None)" for k
    using cleanRunData_spec [OF assms(1,2), of rd] assms(3) by simp
  show "map_get rd' k = Some ts \<Longrightarrow> map_get rd k = Some ts \<and> hasNode h k"
    using spec [of k] by (simp split: if_splits)
  show "map_get rd' (node_name n) = None" if "n \<in> set ns"
  proof -
    have "node_name n \<in> cleaned_by h n" by (simp add: cleaned_by_def)
    then have "node_name n \<in> \<Union> (cleaned_by h ` ((graph_edges h)\<^sup>* `` set ns))" using that by blast
    then show ?thesis by (simp add: spec)
  qed
qed

lemma prepare_subgraph_spec:
  assumes fg: "filterDisabledNodes graph = Inr g" "graph_wf g" "all_dash_free g"
      "\<forall>n \<in> set (getNodes g). disabled n \<noteq> Some True"
    and typed: "\<forall>c \<in> conns g. typed_run_data rd (gc_type c)" "typed_run_data rd Main"
    and d: "nodeExists g d" and t: "partial_trigger pe w dest rd = Inr t" "(t, d) \<in> (main_edges g)\<^sup>+" "t \<noteq> d"
  shows "\<exists>h red i. prepare_subgraph pe w graph d dest orig rd pins dirty = Inr (w, red, Some i)
    \<and> prepared_ok g t dest rd h red i"
proof -
  obtain h where h: "findSubgraph g d t = Inr h" using findSubgraph_spec [OF fg(2,3) d, of t] by blast
  have sub: "part_of h g" "nodeExists h t" using subgraph_has_trigger [OF fg(2,3) d t(2,3) h] by auto
  then have wf: "graph_wf h" and conns: "conns h \<subseteq> conns g" by (auto simp: part_of_def)
  let ?dirty = "getNodesByNames h dirty"
  have dirty: "\<forall>n \<in> set ?dirty. nodeExists h n" using getNodesByNames_exist [OF wf] by blast
  obtain rd1 where rd1: "cleanRunData rd h ?dirty = Inr rd1" using cleanRunData_spec [OF wf dirty, of rd] by blast
  have typed1: "\<forall>c \<in> conns h. typed_run_data rd1 (gc_type c)" "typed_run_data rd1 Main"
    using typed_run_data_subset [OF cleanRunData_subset [OF rd1]] typed conns by blast+
  obtain starts where st: "findStartNodes h t d rd1 pins = Inr starts"
    using findStartNodesRecursive_total [OF wf typed1 sub(2)] unfolding findStartNodes_def by blast
  have reach: "\<forall>s \<in> set starts. (t, s) \<in> (graph_edges h)\<^sup>*"
    using findStartNodesRecursive_sound [of h t d rd1 pins "[]" "[]" starts] st unfolding findStartNodes_def by auto
  obtain starts' where st': "handleCycles h starts t = Inr starts'" "represents h t starts starts'"
    using handleCycles_spec [OF wf sub(2) reach] by blast
  have reach': "\<forall>s \<in> set starts'. (t, s) \<in> (graph_edges h)\<^sup>*" using st'(2) by (auto simp: represents_def)
  then have ex': "\<forall>s \<in> set starts'. nodeExists h s" using graph_edges_rtrancl_exist [OF wf] sub(2) by blast
  obtain rd2 where rd2: "cleanRunData rd1 h starts' = Inr rd2" using cleanRunData_spec [OF wf ex', of rd1] by blast
  have typed2: "\<forall>c \<in> conns h. typed_run_data rd2 (gc_type c)"
    using typed_run_data_subset [OF cleanRunData_subset [OF rd2]] typed1 by blast
  have enabled: "\<forall>n \<in> set (getNodes h). disabled n \<noteq> Some True"
    using fg(4) sub(1) nodeExists_iff [OF wf] nodeExists_iff [OF fg(2)] unfolding part_of_def by blast
  obtain rs where rs: "recreateNodeExecutionStack (pe_localeCompare pe) h starts' rd2 pins = Inr rs"
    "stack_nodes rs = concat (map (stack_share (pe_localeCompare pe) h rd2 pins) starts')"
    "set (map_keys (rs_waitingExecution rs)) \<subseteq> node_name ` set starts'"
    using recreateNodeExecutionStack_spec [OF wf ex' enabled typed2] by blast
  have stack: "exec_node e \<in> set starts'" if "e \<in> set (rs_nodeExecutionStack rs)" for e
  proof -
    have "exec_node e \<in> set (stack_nodes rs)" using that by (simp add: stack_nodes_def)
    then show ?thesis unfolding rs(2) by (auto simp: stack_share_def split: if_splits)
  qed
  define red where "red = partial_state h (no_start_data\<lparr>destinationNode := Some dest, originalDestinationNode := Some orig\<rparr>) rd2 pins rs"
  have run: "prepare_subgraph pe w graph d dest orig rd pins dirty = Inr (w, red, Some (getNextExecutionIndex rd2))"
    by (simp add: prepare_subgraph_def t(1) fg(1) h rd1 st st'(1) rd2 rs(1) red_def)
  have red: "runData (resultData red) = rd2" "startData red = Some (no_start_data\<lparr>destinationNode := Some dest,
      originalDestinationNode := Some orig, runNodeFilter := Some (map node_name (getNodes h))\<rparr>)"
    "executionData red = Some (no_execution_data\<lparr>nodeExecutionStack := rs_nodeExecutionStack rs,
      waitingExecution := rs_waitingExecution rs, waitingExecutionSource := Some (rs_waitingExecutionSource rs)\<rparr>)"
    by (simp_all add: red_def partial_state_def run_data_for_def)
  have names: "node_name ` set starts' \<subseteq> set (map node_name (getNodes h))"
    using ex' nodeExists_iff [OF wf] by auto
  have kept: "map_get rd k = Some ts \<and> hasNode h k" if "map_get rd2 k = Some ts" for k ts
    using cleaned_none(2) [OF wf ex' rd2 that] cleaned_none(2) [OF wf dirty rd1] by blast
  have "prepared_ok g t dest rd h red (getNextExecutionIndex rd2)"
    unfolding prepared_ok_def red
    using sub(1) stack reach' ex' cleaned_none(1) [OF wf ex' rd2] rs(3) names kept getNextExecutionIndex_fresh
    by (auto simp del: set_map)
  with run show ?thesis by blast
qed

end
