(* ===== verification/Execution_Limits.thy ===== *)
theory Execution_Limits
  imports Execution_Progress
begin

text \<open>
  Bounds and order in the execution loop: how often a failing node is run, in which order the
  successors of a node come onto the stack, and what happens to data of a waiting node whose
  run indexes have a gap.
\<close>

section \<open>The number of runs of a node\<close>

text \<open>A measure of the world that no run of the node raises by more than one, and nothing else raises.\<close>

definition counts_runs :: "'w env \<Rightarrow> Workflow \<Rightarrow> ('w \<Rightarrow> nat) \<Rightarrow> bool" where
  "counts_runs env w c =
     ((\<forall>r ed eg res ed' eg'. runNode env w r ed eg = (res, ed', eg') \<longrightarrow>
         c (eg_world eg') \<le> c (eg_world eg) + 1
         \<and> (\<forall>resp f x. res = Inr resp \<longrightarrow> resp_close resp = Some f \<longrightarrow> c (f x) = c x))
      \<and> (\<forall>t x. c (env_sleep env t x) = c x))"

abbreviation runs_of :: "('w \<Rightarrow> nat) \<Rightarrow> 'w tries \<Rightarrow> nat" where
  "runs_of c ts \<equiv> c (eg_world (ts_engine ts))"

definition close_quiet :: "('w \<Rightarrow> nat) \<Rightarrow> 'w IRunNodeResponse \<Rightarrow> bool" where
  "close_quiet c resp = (\<forall>f x. resp_close resp = Some f \<longrightarrow> c (f x) = c x)"

lemma sleep_tries_runs [simp]: "counts_runs env w c \<Longrightarrow> runs_of c (sleep_tries env ts) = runs_of c ts"
  by (simp add: counts_runs_def sleep_tries_def Let_def)

lemma call_node_runs:
  assumes "counts_runs env w c" "call_node env w r ts = (res, ts')"
  shows "runs_of c ts' \<le> runs_of c ts + 1" "res = Inr resp \<Longrightarrow> close_quiet c resp"
proof -
  obtain x ed eg where x: "runNode env w r (ts_entry ts) (ts_engine ts) = (x, ed, eg)"
    by (cases "runNode env w r (ts_entry ts) (ts_engine ts)")
  then have "c (eg_world eg) \<le> c (eg_world (ts_engine ts)) + 1"
    "\<forall>resp f y. x = Inr resp \<longrightarrow> resp_close resp = Some f \<longrightarrow> c (f y) = c y"
    using assms(1) unfolding counts_runs_def by blast+
  with x assms(2) show "runs_of c ts' \<le> runs_of c ts + 1" "res = Inr resp \<Longrightarrow> close_quiet c resp"
    by (auto simp: call_node_def close_quiet_def split: sum.splits)
qed

lemma rerun_runs:
  assumes "counts_runs env w c"
  shows "rerun env w r left resp ts = (res, left', ts') \<Longrightarrow> close_quiet c resp \<Longrightarrow>
    (case res of Inr resp' \<Rightarrow> runs_of c ts' + left' \<le> runs_of c ts + left \<and> close_quiet c resp'
     | Inl e \<Rightarrow> 0 < left' \<and> runs_of c ts' + left' \<le> runs_of c ts + left + 1)"
proof (induction left arbitrary: resp ts)
  case (Suc left)
  show ?case
  proof (cases "did_continue_on_fail (ts_data ts)")
    case True
    obtain x ts1 where x: "call_node env w r (sleep_tries env ts) = (x, ts1)"
      by (cases "call_node env w r (sleep_tries env ts)")
    have le: "runs_of c ts1 \<le> runs_of c ts + 1" using call_node_runs(1) [OF assms x] assms by simp
    show ?thesis
    proof (cases x)
      case (Inl e)
      then show ?thesis using Suc.prems x le True by auto
    next
      case (Inr resp1)
      have "close_quiet c resp1" using call_node_runs(2) [OF assms x Inr] .
      with Suc.IH [of resp1 ts1] Suc.prems(1) x Inr True le show ?thesis by (auto split: sum.splits)
    qed
  qed (use Suc.prems in auto)
qed auto

lemma accept_response_runs:
  "accept_response env resp ts = (f, ts') \<Longrightarrow> close_quiet c resp \<Longrightarrow> runs_of c ts' = runs_of c ts"
  by (auto simp: accept_response_def Let_def close_quiet_def split: sum.splits option.splits)

lemma produce_runs:
  assumes c: "counts_runs env w c" and run: "produce env w r left ts = (f, left', ts')"
  shows "runs_of c ts' + left' \<le> runs_of c ts + left + 2 \<and> (left' = 0 \<longrightarrow> runs_of c ts' \<le> runs_of c ts + left + 1)"
proof (cases "pinned_items (ts_engine ts) (exec_node (ts_entry ts))")
  case None
  obtain x ts1 where x: "call_node env w r ts = (x, ts1)" by (cases "call_node env w r ts")
  have le: "runs_of c ts1 \<le> runs_of c ts + 1" by (rule call_node_runs(1) [OF c x])
  show ?thesis
  proof (cases x)
    case (Inl e)
    then show ?thesis using run None x le by (auto simp: produce_def)
  next
    case (Inr resp)
    obtain y l ts2 where y: "rerun env w r left resp ts1 = (y, l, ts2)" by (cases "rerun env w r left resp ts1")
    note rr = rerun_runs [OF c y call_node_runs(2) [OF c x Inr]]
    show ?thesis
    proof (cases y)
      case (Inl e)
      then show ?thesis using run None x Inr y rr le by (auto simp: produce_def)
    next
      case (Inr resp')
      obtain g ts3 where g: "accept_response env resp' ts2 = (g, ts3)" by (cases "accept_response env resp' ts2")
      have "runs_of c ts3 = runs_of c ts2" using accept_response_runs [OF g] rr Inr by simp
      then show ?thesis using run None x \<open>x = Inr resp\<close> y Inr g rr le by (auto simp: produce_def)
    qed
  qed
qed (use run in \<open>auto simp: produce_def\<close>)

lemma conclude_runs: "conclude env pinned ts = (res, ts') \<Longrightarrow> runs_of c ts' = runs_of c ts"
  by (auto simp: conclude_def Let_def split: sum.splits prod.splits)

lemma attempt_runs:
  assumes c: "counts_runs env w c" and run: "attempt env w r left ts = (res, left', ts')"
  shows "runs_of c ts' + left' \<le> runs_of c ts + left + 2 \<and> (left' = 0 \<longrightarrow> runs_of c ts' \<le> runs_of c ts + left + 1)"
proof -
  obtain f l ts1 where p: "produce env w r left (ts\<lparr>ts_error := None\<rparr>) = (f, l, ts1)"
    by (cases "produce env w r left (ts\<lparr>ts_error := None\<rparr>)")
  let ?pinned = "pinned_items (ts_engine ts) (exec_node (ts_entry ts)) \<noteq> None"
  obtain x ts2 where x: "conclude env ?pinned ts1 = (x, ts2)" by (cases "conclude env ?pinned ts1")
  have "l = left' \<and> (ts' = ts1 \<or> ts' = ts2)"
    using run p x by (auto simp: attempt_def Let_def split: option.splits)
  then have "l = left'" "runs_of c ts' = runs_of c ts1" using conclude_runs [OF x, of c] by auto
  with produce_runs [OF c p] show ?thesis by simp
qed

lemma try_loop_runs:
  assumes c: "counts_runs env w c"
  shows "try_loop env w r left ts = (ends, ts') \<Longrightarrow> runs_of c ts' \<le> runs_of c ts + 2 * left + 1"
proof (induction left arbitrary: ts rule: less_induct)
  case (less left)
  obtain res l ts1 where a: "attempt env w r left ts = (res, l, ts1)" by (cases "attempt env w r left ts")
  note ar = attempt_runs [OF c a] and al = attempt_left [OF a]
  have final: "runs_of c ts1 \<le> runs_of c ts + 2 * left + 1" using ar al by (cases "l = 0") auto
  show ?case
  proof (cases res)
    case (Inr b)
    then show ?thesis using less.prems a final by (simp add: try_loop.simps [of env w r left ts])
  next
    case (Inl e)
    let ?t = "record_error e ts1"
    let ?t' = "if wait_between_tries (exec_node (ts_entry ?t)) = 0 then ?t else sleep_tries env ?t"
    have t: "runs_of c ?t = runs_of c ts1" by (simp add: record_error_def Let_def)
    then have t': "runs_of c ?t' = runs_of c ts1" using c by simp
    show ?thesis
    proof (cases "l = 0")
      case True
      then show ?thesis using less.prems a Inl final t by (simp add: try_loop.simps [of env w r left ts] Let_def)
    next
      case False
      then have "try_loop env w r (l - 1) ?t' = (ends, ts')"
        using less.prems a Inl by (simp add: try_loop.simps [of env w r left ts] Let_def)
      moreover have "l - 1 < left" using False al by simp
      ultimately have "runs_of c ts' \<le> runs_of c ?t' + 2 * (l - 1) + 1" by (intro less.IH)
      then have "runs_of c ts' \<le> runs_of c ts1 + 2 * (l - 1) + 1" unfolding t' .
      with ar al False show ?thesis by (cases l) auto
    qed
  qed
qed

lemma max_tries_bounds: "1 \<le> max_tries node \<and> max_tries node \<le> 5"
  by (auto simp: max_tries_def)

section \<open>The order of the successors\<close>

definition top_left :: "int \<times> int \<Rightarrow> int \<times> int \<Rightarrow> bool" where
  "top_left p q = (snd p < snd q \<or> (snd p = snd q \<and> fst p \<le> fst q))"

definition later_first :: "node_to_add \<Rightarrow> node_to_add \<Rightarrow> bool" where
  "later_first a b = top_left (na_position b) (na_position a)"

lemma later_first_simps:
  "\<not> later_first a b \<Longrightarrow> later_first b a" "later_first a b \<Longrightarrow> later_first b c \<Longrightarrow> later_first a c"
  by (auto simp: later_first_def top_left_def)

lemma compare_position_neg: "compare_position a b < 0 \<longleftrightarrow> \<not> later_first b a"
  by (auto simp: compare_position_def later_first_def top_left_def)

lemma insert_before_sorted:
  "sorted_wrt later_first xs \<Longrightarrow> sorted_wrt later_first (insert_before compare_position x xs)"
proof (induction xs)
  case (Cons y ys)
  have set: "set (insert_before compare_position x ys) = insert x (set ys)"
    by (metis mset_insert_before set_mset_add_mset_insert set_mset_mset)
  show ?case
  proof (cases "compare_position x y < 0")
    case True
    then have "later_first x y" using compare_position_neg later_first_simps(1) by blast
    with True Cons.prems show ?thesis by (auto intro: later_first_simps(2))
  next
    case False
    then have "later_first y x" by (simp add: compare_position_neg)
    with False Cons set show ?thesis by auto
  qed
qed simp

lemma sort_before_sorted: "sorted_wrt later_first (sort_before compare_position xs)"
proof -
  have "sorted_wrt later_first ys \<Longrightarrow> sorted_wrt later_first (fold (insert_before compare_position) xs ys)" for ys
    by (induction xs arbitrary: ys) (auto simp: insert_before_sorted)
  then show ?thesis by (simp add: sort_before_def)
qed

text \<open>The entry of a successor with one input.\<close>

definition direct_entry :: "Workflow \<Rightarrow> string \<Rightarrow> nat \<Rightarrow> outputs \<Rightarrow> node_to_add \<Rightarrow> IExecuteData" where
  "direct_entry w n r outs a =
     \<lparr>exec_data = [(Main, replicate (conn_index (na_connection a)) Null @ [cell_get outs (na_output a)])],
      exec_metadata = None, exec_node = (case getNode w (conn_node (na_connection a)) of Some x \<Rightarrow> x | None \<Rightarrow> new_INode 0 [] []),
      exec_source = Some [(Main, [Val (emitted_source n (na_output a) r)])]\<rparr>"

lemma add_direct_fold:
  assumes "is_v1 w" "\<forall>a \<in> set xs. \<exists>ins. main_inputs w (conn_node (na_connection a)) = Some ins \<and> length ins \<le> 1"
    "\<forall>a \<in> set xs. getNode w (conn_node (na_connection a)) \<noteq> None"
  shows "fold_res (\<lambda>ed a. addNodeToBeExecuted w (na_connection a) (na_output a) n (Some outs) r rd ed) ed xs =
    Inr (ed\<lparr>nodeExecutionStack := rev (map (direct_entry w n r outs) xs) @ nodeExecutionStack ed\<rparr>)"
  using assms(2,3)
proof (induction xs arbitrary: ed)
  case (Cons a xs)
  then obtain ins node where "main_inputs w (conn_node (na_connection a)) = Some ins" "length ins \<le> 1"
    "getNode w (conn_node (na_connection a)) = Some node" by auto
  from addNode_single [OF this] have "addNodeToBeExecuted w (na_connection a) (na_output a) n (Some outs) r rd ed
      = Inr (enqueue_entry w (direct_entry w n r outs a) ed)"
    using \<open>getNode w (conn_node (na_connection a)) = Some node\<close> by (simp add: direct_entry_def emitted_def)
  with Cons assms(1) show ?case by (simp add: enqueue_entry_def)
qed simp

lemma successors_top_left:
  assumes v1: "is_v1 w" and routes: "routes_ok w"
    and single: "\<forall>p \<in> set (output_connections w n). \<forall>ins. main_inputs w (conn_node (snd p)) = Some ins \<longrightarrow> length ins \<le> 1"
  shows "\<exists>adds. add_successors w n outs r rd ed =
      Inr (ed\<lparr>nodeExecutionStack := map (direct_entry w n r outs) adds @ nodeExecutionStack ed\<rparr>)
    \<and> mset adds = mset (map (to_add w) (filter (gets_data w outs) (output_connections w n)))
    \<and> sorted_wrt (\<lambda>a b. top_left (na_position a) (na_position b)) adds"
proof -
  let ?cs = "output_connections w n"
  let ?xs = "sort_before compare_position (map (to_add w) (filter (gets_data w outs) ?cs))"
  have ok: "getNode w (conn_node (snd p)) \<noteq> None \<and> (\<exists>ins. main_inputs w (conn_node (snd p)) = Some ins)"
    if "p \<in> set ?cs" for p
    using routes output_connections_main [OF that] unfolding routes_ok_def by blast
  have known: "list_all (known_destination w) ?cs"
    using ok by (simp add: list_all_iff known_destination_def map_has_def getNode_def)
  have mem: "\<exists>p \<in> set ?cs. na_connection a = snd p" if "a \<in> set ?xs" for a
    using that by (force simp: to_add_def)
  have "fold_res (\<lambda>ed a. addNodeToBeExecuted w (na_connection a) (na_output a) n (Some outs) r rd ed) ed ?xs =
    Inr (ed\<lparr>nodeExecutionStack := rev (map (direct_entry w n r outs) ?xs) @ nodeExecutionStack ed\<rparr>)"
    by (rule add_direct_fold [OF v1]) (use mem ok single in \<open>metis (no_types)\<close>)+
  then have "add_successors w n outs r rd ed =
      Inr (ed\<lparr>nodeExecutionStack := map (direct_entry w n r outs) (rev ?xs) @ nodeExecutionStack ed\<rparr>)"
    using v1 known by (simp add: add_successors_def Let_def rev_map)
  moreover have "sorted_wrt (\<lambda>a b. top_left (na_position a) (na_position b)) (rev ?xs)"
    using sort_before_sorted [of "map (to_add w) (filter (gets_data w outs) ?cs)"]
    by (simp add: sorted_wrt_rev later_first_def [abs_def])
  ultimately show ?thesis by (intro exI [of _ "rev ?xs"]) simp
qed

section \<open>Run indexes with a gap\<close>

text \<open>
  When every waiting entry of a node already has data for the input, the data goes to a new entry
  whose index is the number of entries, even if there is an entry with that index.
\<close>

lemma new_entry_at_length:
  assumes ok: "waiting_ok w ed" and ins: "main_inputs w n = Some ins" "1 < length ins"
    and cd: "conn_node cd = n" "conn_index cd < length ins" and node: "getNode w n = Some node"
    and out: "emitted nsd oi = Val its" "nsd \<noteq> None"
    and v1: "is_v1 w" "routes_ok w" "outputs_present rd" "map_get (connectionsBySourceNode w) parent \<noteq> None"
    and full: "\<forall>i a s. pending ed n i = Some (a, s) \<longrightarrow> a ! conn_index cd \<noteq> Null"
  shows "\<exists>ed'. addNodeToBeExecuted w cd oi parent nsd r rd ed = Inr ed'
    \<and> nodeExecutionStack ed' = nodeExecutionStack ed
    \<and> pending ed' n (length (run_entries (waitingExecution ed) n)) =
        Some ((replicate (length ins) Null)[conn_index cd := Val its],
              (replicate (length ins) Null)[conn_index cd := Val (emitted_source parent oi r)])"
proof (rule addNode_multi [OF ok ins cd node out v1])
  fix ed' wi new a s
  assume run: "addNodeToBeExecuted w cd oi parent nsd r rd ed = Inr ed'"
    and target: "target_entry (length ins) (conn_index cd) ed n wi new"
    and a: "a = (fst (base_entry (length ins) ed n wi new))[conn_index cd := Val its]"
    and s: "s = (snd (base_entry (length ins) ed n wi new))[conn_index cd := Val (emitted_source parent oi r)]"
    and stack: "nodeExecutionStack ed' =
      (if Null \<in> set a then nodeExecutionStack ed else full_entry node (a, s) # nodeExecutionStack ed)"
    and pend: "\<And>m i. pending ed' m i =
      (if m = n \<and> i = wi then if Null \<in> set a then Some (a, s) else None else pending ed m i)"
  have new: "new" using target full unfolding target_entry_def by (cases new) auto
  then have wi: "wi = length (run_entries (waitingExecution ed) n)" using target by (simp add: target_entry_def)
  have a': "a = (replicate (length ins) Null)[conn_index cd := Val its]"
    "s = (replicate (length ins) Null)[conn_index cd := Val (emitted_source parent oi r)]"
    using a s new by (simp_all add: base_entry_def)
  obtain j where "j < length ins" "j \<noteq> conn_index cd" using ins(2) by (metis less_trans nat_neq_iff zero_less_one)
  then have "a ! j = Null" "j < length a" unfolding a' by simp_all
  then have "Null \<in> set a" by (metis nth_mem)
  with run stack pend [of n wi] wi a' show ?thesis by auto
qed

section \<open>Errors of nodes that continue\<close>

lemma store_result_error:
  "store_result env w r task pinned d ed lp = Continue lp' \<Longrightarrow> lp_error lp' = lp_error lp"
  by (auto simp: store_result_def schedule_next_def Let_def emit_def set_exec_def add_run_data_def
      split: sum.splits if_splits)

lemma finish_node_error:
  "finish_node env w r started pinned ts lp = Continue lp' \<Longrightarrow> lp_error lp' = ts_error ts"
  by (auto simp: finish_node_def Let_def emit_def split: option.splits if_splits dest!: store_result_error)

end
