(* ===== verification/Execution_Delivery.thy ===== *)
theory Execution_Delivery
  imports Execution_Scheduling
begin

text \<open>
  What \<open>addNodeToBeExecuted\<close> promises for a node with several inputs, as an operation on an
  abstract schedule: a map from nodes and run indexes to the data received so far, and the stack.
  Data is delivered to the least run that still lacks it, otherwise to a new run; a run that lacks
  nothing leaves the map for the stack.
\<close>

type_synonym schedule =
  "(string \<times> nat \<rightharpoonup> items cell list \<times> ISourceData cell list) \<times> IExecuteData list"

definition abs_schedule :: "ExecutionData \<Rightarrow> schedule" where
  "abs_schedule ed = (\<lambda>p. pending ed (fst p) (snd p), nodeExecutionStack ed)"

definition lacking :: "schedule \<Rightarrow> string \<Rightarrow> nat \<Rightarrow> nat \<Rightarrow> bool" where
  "lacking S n ci i = (\<exists>a s. fst S (n, i) = Some (a, s) \<and> a ! ci = Null)"

definition delivery_run :: "schedule \<Rightarrow> string \<Rightarrow> nat \<Rightarrow> nat" where
  "delivery_run S n ci =
     (if \<exists>i. lacking S n ci i then (LEAST i. lacking S n ci i) else card {i. fst S (n, i) \<noteq> None})"

definition deliver ::
  "string \<Rightarrow> INode \<Rightarrow> nat \<Rightarrow> nat \<Rightarrow> items \<Rightarrow> ISourceData \<Rightarrow> schedule \<Rightarrow> schedule" where
  "deliver n node k ci its src S =
     (let i = delivery_run S n ci;
          (a, s) = (if lacking S n ci i then the (fst S (n, i)) else (replicate k Null, replicate k Null));
          p = (a[ci := Val its], s[ci := Val src])
      in if Null \<in> set (fst p) then ((fst S)((n, i) \<mapsto> p), snd S)
         else ((fst S)((n, i) := None), full_entry node p # snd S))"

lemma lacking_abs: "lacking (abs_schedule ed) n ci i \<longleftrightarrow> (\<exists>a s. pending ed n i = Some (a, s) \<and> a ! ci = Null)"
  by (simp add: lacking_def abs_schedule_def)

lemma pending_runs:
  assumes "waiting_ok w ed" "main_inputs w n = Some ins"
  shows "{i. fst (abs_schedule ed) (n, i) \<noteq> None} = set (map_keys (run_entries (waitingExecution ed) n))"
    "card (set (map_keys (run_entries (waitingExecution ed) n))) = length (run_entries (waitingExecution ed) n)"
proof -
  let ?es = "run_entries (waitingExecution ed) n"
  note ok = waiting_ok_entries [OF assms]
  have "pending ed n i \<noteq> None \<longleftrightarrow> map_get ?es i \<noteq> None" for i
  proof -
    have "map_get ?es i \<noteq> None \<Longrightarrow> \<exists>a s. map_get ?es i = Some [(Main, a)] \<and> map_get (run_entries (sources ed) n) i = Some [(Main, s)]"
      using ok unfolding node_waiting_ok_def by blast
    then show ?thesis using pending_entry [OF ok, of i] by fastforce
  qed
  then show "{i. fst (abs_schedule ed) (n, i) \<noteq> None} = set (map_keys ?es)"
    by (auto simp: abs_schedule_def map_of_eq_None_iff)
  have "map_wf ?es" using ok by (simp add: node_waiting_ok_def)
  then show "card (set (map_keys ?es)) = length ?es" by (metis distinct_card length_map map_wf_def)
qed

lemma target_run:
  assumes ok: "waiting_ok w ed" "main_inputs w n = Some ins" and t: "target_entry k ci ed n wi new"
  shows "delivery_run (abs_schedule ed) n ci = wi" "lacking (abs_schedule ed) n ci wi \<longleftrightarrow> \<not> new"
proof -
  have none: "\<not> lacking (abs_schedule ed) n ci i" if "new" for i
    using t that by (auto simp: target_entry_def lacking_abs)
  have some: "lacking (abs_schedule ed) n ci wi" "\<And>i. lacking (abs_schedule ed) n ci i \<Longrightarrow> wi \<le> i" if "\<not> new"
    using t that by (auto simp: target_entry_def lacking_abs) (meson not_le_imp_less)
  show "lacking (abs_schedule ed) n ci wi \<longleftrightarrow> \<not> new" using none some by blast
  show "delivery_run (abs_schedule ed) n ci = wi"
  proof (cases new)
    case True
    then have "wi = length (run_entries (waitingExecution ed) n)" using t by (simp add: target_entry_def)
    with none [OF True] show ?thesis using pending_runs [OF ok] by (simp add: delivery_run_def)
  next
    case False
    with some have "(LEAST i. lacking (abs_schedule ed) n ci i) = wi" by (intro Least_equality) auto
    with some(1) [OF False] show ?thesis by (auto simp: delivery_run_def)
  qed
qed

lemma addNode_delivers:
  assumes ok: "waiting_ok w ed" and ins: "main_inputs w n = Some ins" "1 < length ins"
    and cd: "conn_node cd = n" "conn_index cd < length ins" and node: "getNode w n = Some node"
    and out: "emitted nsd oi = Val its" "nsd \<noteq> None"
    and v1: "is_v1 w" "routes_ok w" "outputs_present rd" "map_get (connectionsBySourceNode w) parent \<noteq> None"
  shows "\<exists>ed'. addNodeToBeExecuted w cd oi parent nsd r rd ed = Inr ed' \<and> waiting_ok w ed'
    \<and> abs_schedule ed' =
        deliver n node (length ins) (conn_index cd) its (emitted_source parent oi r) (abs_schedule ed)"
proof (rule addNode_multi [OF ok ins cd node out v1])
  fix ed' wi new a s
  assume run: "addNodeToBeExecuted w cd oi parent nsd r rd ed = Inr ed'" "waiting_ok w ed'"
    and target: "target_entry (length ins) (conn_index cd) ed n wi new"
    and a: "a = (fst (base_entry (length ins) ed n wi new))[conn_index cd := Val its]"
    and s: "s = (snd (base_entry (length ins) ed n wi new))[conn_index cd := Val (emitted_source parent oi r)]"
    and stack: "nodeExecutionStack ed' =
      (if Null \<in> set a then nodeExecutionStack ed else full_entry node (a, s) # nodeExecutionStack ed)"
    and pend: "\<And>m i. pending ed' m i =
      (if m = n \<and> i = wi then if Null \<in> set a then Some (a, s) else None else pending ed m i)"
  note t = target_run [OF ok ins(1) target]
  have base: "(if lacking (abs_schedule ed) n (conn_index cd) wi then the (fst (abs_schedule ed) (n, wi))
      else (replicate (length ins) Null, replicate (length ins) Null)) = base_entry (length ins) ed n wi new"
    using t(2) target by (auto simp: base_entry_def abs_schedule_def target_entry_def)
  obtain b c where bc: "base_entry (length ins) ed n wi new = (b, c)" by (rule prod.exhaust)
  have "abs_schedule ed' = deliver n node (length ins) (conn_index cd) its (emitted_source parent oi r) (abs_schedule ed)"
    unfolding deliver_def Let_def t(1) base bc using a s stack pend
    by (auto simp: abs_schedule_def bc fun_eq_iff)
  with run show ?thesis by blast
qed

end
