(* ===== verification/Execution_Runs.thy ===== *)
theory Execution_Runs
  imports Execution_Partial Execution_Limits Execution_Delivery
begin

text \<open>
  Whole executions. The execution loop is a machine that takes one step per iteration: the locale
  \<open>machine\<close> carries an invariant along its steps, and \<open>bounded_machine\<close> adds a load that every
  step lowers and bounds the number of steps. Both are interpreted on the loop: the invariant of
  the waiting entries, the type of the run data, and the load of the entries of a workflow
  without cycles.
\<close>

section \<open>Machines\<close>

locale machine =
  fixes step :: "'s \<Rightarrow> 's option" and inv :: "'s \<Rightarrow> bool"
  assumes inv_step: "inv s \<Longrightarrow> step s = Some s' \<Longrightarrow> inv s'"
begin

text \<open>\<open>steps k s\<close> is the state after \<open>k\<close> steps, if the machine takes that many.\<close>

primrec steps :: "nat \<Rightarrow> 's \<Rightarrow> 's option" where
  "steps 0 s = Some s"
| "steps (Suc k) s = (case step s of None \<Rightarrow> None | Some s' \<Rightarrow> steps k s')"

lemma steps_inv: "steps k s = Some s' \<Longrightarrow> inv s \<Longrightarrow> inv s'"
  by (induction k arbitrary: s) (auto split: option.splits dest: inv_step)

end

locale bounded_machine = machine step inv for step :: "'s \<Rightarrow> 's option" and inv :: "'s \<Rightarrow> bool" +
  fixes weight :: "'s \<Rightarrow> nat"
  assumes weight_step: "inv s \<Longrightarrow> step s = Some s' \<Longrightarrow> weight s' < weight s"
begin

lemma steps_weight: "steps k s = Some s' \<Longrightarrow> inv s \<Longrightarrow> weight s' + k \<le> weight s"
proof (induction k arbitrary: s)
  case (Suc k)
  then obtain t where t: "step s = Some t" "steps k t = Some s'" by (auto split: option.splits)
  from Suc.IH [OF t(2) inv_step [OF Suc.prems(2) t(1)]] weight_step [OF Suc.prems(2) t(1)] show ?case by simp
qed simp

corollary steps_end: "inv s \<Longrightarrow> weight s < k \<Longrightarrow> steps k s = None"
  using steps_weight by (cases "steps k s") fastforce+

end

section \<open>The engine as a machine\<close>

type_synonym 'w machine_state = "'w env \<times> Workflow \<times> 'w loop"

text \<open>An iteration after which the loop goes on.\<close>

definition engine_step :: "'w machine_state \<Rightarrow> 'w machine_state option" where
  "engine_step s =
     (case s of (env, w, lp) \<Rightarrow>
        if nodeExecutionStack (lp_exec lp) = [] then None
        else (case iteration env w lp of Continue lp' \<Rightarrow> Some (env, w, lp') | _ \<Rightarrow> None))"

lemma engine_stepE:
  assumes "engine_step (env, w, lp) = Some s'"
  obtains lp' where "s' = (env, w, lp')" "iteration env w lp = Continue lp'"
  using assms by (auto simp: engine_step_def split: if_splits outcome.splits)

subsection \<open>Waiting entries\<close>

definition waiting_inv :: "'w machine_state \<Rightarrow> bool" where
  "waiting_inv s = (case s of (env, w, lp) \<Rightarrow> engine_ok env w \<and> waiting_ok w (lp_exec lp))"

interpretation wait: machine engine_step waiting_inv
proof
  fix s s' :: "'w machine_state"
  assume "waiting_inv s" "engine_step s = Some s'"
  then show "waiting_inv s'"
    by (cases s) (auto simp: waiting_inv_def dest: iteration_waiting elim!: engine_stepE)
qed

subsection \<open>Load\<close>

definition load_inv :: "(string \<Rightarrow> nat) \<Rightarrow> 'w machine_state \<Rightarrow> bool" where
  "load_inv W s =
     (case s of (env, w, lp) \<Rightarrow>
        respectful env \<and> is_v1 w \<and> nodes_wf w \<and> weighted w W \<and> stack_main (lp_exec lp))"

definition engine_load :: "(string \<Rightarrow> nat) \<Rightarrow> 'w machine_state \<Rightarrow> nat" where
  "engine_load W s = (case s of (env, w, lp) \<Rightarrow> load W (lp_exec lp))"

interpretation prog: bounded_machine engine_step "load_inv W" "engine_load W" for W
proof
  fix s s' :: "'w machine_state"
  assume "load_inv W s" "engine_step s = Some s'"
  then show "load_inv W s'" "engine_load W s' < engine_load W s"
    by (cases s; force simp: load_inv_def engine_load_def dest: iteration_progress elim!: engine_stepE)+
qed

lemmas steps_simps = wait.steps.simps

text \<open>The loop with fuel follows the machine: it runs out of fuel only if the machine takes as many steps.\<close>

abbreviation engine_steps :: "nat \<Rightarrow> 'w machine_state \<Rightarrow> 'w machine_state option" where
  "engine_steps \<equiv> machine.steps engine_step"

lemma execution_loop_None: "execution_loop k env w lp = None \<longleftrightarrow> engine_steps k (env, w, lp) \<noteq> None"
  by (induction k arbitrary: lp) (auto simp: engine_step_def split: outcome.splits)

definition loop_ends_at :: "'w env \<Rightarrow> Workflow \<Rightarrow> 'w loop \<Rightarrow> ExecutionError option \<Rightarrow> 'w loop \<Rightarrow> bool" where
  "loop_ends_at env w lp e lp' =
     (if nodeExecutionStack (lp_exec lp) = [] then e = None \<and> lp' = lp
      else (case iteration env w lp of Continue _ \<Rightarrow> False
            | Stop x \<Rightarrow> e = None \<and> lp' = x | Thrown err x \<Rightarrow> e = Some err \<and> lp' = x))"

lemma execution_loop_steps:
  "execution_loop k env w lp = Some (e, lp') \<Longrightarrow>
     \<exists>j lp1. j < k \<and> engine_steps j (env, w, lp) = Some (env, w, lp1) \<and> loop_ends_at env w lp1 e lp'"
proof (induction k arbitrary: lp)
  case (Suc k)
  show ?case
  proof (cases "engine_step (env, w, lp)")
    case None
    with Suc.prems have "loop_ends_at env w lp e lp'"
      by (auto simp: engine_step_def loop_ends_at_def split: if_splits outcome.splits)
    then show ?thesis by (intro exI [of _ 0]) simp
  next
    case (Some s)
    then obtain lp2 where s: "s = (env, w, lp2)" "iteration env w lp = Continue lp2" by (rule engine_stepE)
    with Suc.prems Some have "execution_loop k env w lp2 = Some (e, lp')"
      by (auto simp: engine_step_def split: if_splits)
    from Suc.IH [OF this] obtain j lp1 where "j < k" "engine_steps j (env, w, lp2) = Some (env, w, lp1)"
      "loop_ends_at env w lp1 e lp'" by blast
    with Some s show ?thesis by (intro exI [of _ "Suc j"] exI [of _ lp1]) simp
  qed
qed simp

subsection \<open>The type of the run data\<close>

text \<open>
  A stored run has data for one connection type, an array of items for each output and never
  \<open>null\<close>, or it has none and reports an error; and it has the status of an error exactly if it
  reports one.
\<close>

definition run_typed :: "ITaskData \<Rightarrow> bool" where
  "run_typed t =
     ((case task_data t of None \<Rightarrow> task_error t \<noteq> None
       | Some d \<Rightarrow> (case d of [(ty, outs)] \<Rightarrow> list_all (\<lambda>c. cell_val c \<noteq> None) outs | _ \<Rightarrow> False))
      \<and> (executionStatus t = Some Error \<longleftrightarrow> task_error t \<noteq> None))"

definition runs_typed :: "IRunData \<Rightarrow> bool" where
  "runs_typed rd = list_all (\<lambda>(n, tasks). list_all run_typed tasks) rd"

lemma run_typedD:
  assumes "task_data t = Some d" "run_typed t"
  obtains ty outs where "d = [(ty, outs)]" "list_all (\<lambda>c. cell_val c \<noteq> None) outs"
proof (cases d)
  case (Cons p ps)
  with assms that show ?thesis by (cases p; cases ps) (auto simp: run_typed_def)
qed (use assms in \<open>simp add: run_typed_def\<close>)

abbreviation lp_runs :: "'w loop \<Rightarrow> IRunData" where
  "lp_runs lp \<equiv> runData (eg_result (lp_engine lp))"

lemma merge_errors_arrays: "merge_errors d = Inr outs \<Longrightarrow> list_all (\<lambda>c. cell_val c \<noteq> None) outs"
proof -
  have "merge_output c = Inr c' \<Longrightarrow> cell_val c' \<noteq> None" for c c'
    by (cases c) (auto simp: bind_res_eq_Inr)
  then have "map_res merge_output cs = Inr outs \<Longrightarrow> list_all (\<lambda>c. cell_val c \<noteq> None) outs" for cs
    by (induction cs arbitrary: outs) (auto simp: bind_res_eq_Inr)
  then show "merge_errors d = Inr outs \<Longrightarrow> list_all (\<lambda>c. cell_val c \<noteq> None) outs"
    by (auto simp: merge_errors_def split: cell.splits)
qed

lemma runs_typed_set: "runs_typed rd \<Longrightarrow> list_all run_typed ts \<Longrightarrow> runs_typed (map_set n ts rd)"
  unfolding runs_typed_def by (induction rd) auto

lemma runs_typed_get: "runs_typed rd \<Longrightarrow> map_get rd n = Some ts \<Longrightarrow> list_all run_typed ts"
  unfolding runs_typed_def by (induction rd) (auto split: if_splits)

lemma add_run_data_typed: "runs_typed (lp_runs lp) \<Longrightarrow> run_typed t \<Longrightarrow> runs_typed (lp_runs (add_run_data n t lp))"
  by (auto simp: add_run_data_def Let_def split: option.split intro!: runs_typed_set dest: runs_typed_get)

lemma ensure_run_data_typed: "runs_typed (runData (eg_result eg)) \<Longrightarrow> runs_typed (runData (eg_result (ensure_run_data n eg)))"
  by (simp add: ensure_run_data_def Let_def runs_typed_set)

lemma lp_runs_simps [simp]:
  "lp_runs (emit e lp) = lp_runs lp" "lp_runs (set_exec ed lp) = lp_runs lp" "lp_runs (push_back x lp) = lp_runs lp"
  by (simp_all add: emit_def set_exec_def push_back_def Let_def)

lemma schedule_next_runs [simp]: "lp_runs (outcome_state (schedule_next env w n outs r task lp)) = lp_runs lp"
  by (auto simp: schedule_next_def Let_def split: sum.splits)

lemma store_result_typed:
  assumes "runs_typed (lp_runs lp)" "executionStatus task = Some Error \<longleftrightarrow> task_error task \<noteq> None"
  shows "runs_typed (lp_runs (outcome_state (store_result env w r task pinned d ed lp)))"
proof (cases "merge_errors d")
  case (Inr outs)
  let ?task = "task\<lparr>task_data := Some [(case rewireOutputLogTo (exec_node ed) of None \<Rightarrow> Main | Some ty \<Rightarrow> ty, outs)]\<rparr>"
  have "run_typed ?task" using merge_errors_arrays [OF Inr] assms(2) by (simp add: run_typed_def)
  then have "runs_typed (lp_runs (add_run_data n ?task (lp\<lparr>lp_engine := (lp_engine lp)\<lparr>eg_result :=
      share_pinned pinned n (Val outs) (eg_result (lp_engine lp))\<rparr>\<rparr>)))" for n
    by (intro add_run_data_typed) (simp_all add: assms(1))
  then show ?thesis using Inr by (simp add: store_result_def Let_def)
qed (use assms(1) in \<open>simp add: store_result_def\<close>)

lemma finish_node_typed:
  assumes "runs_typed (runData (eg_result (ts_engine ts)))" "task_data started = None"
  shows "runs_typed (lp_runs (outcome_state (finish_node env w r started pinned ts lp)))"
proof -
  define n where "n = node_name (exec_node (ts_entry ts))"
  define lp1 where "lp1 = lp\<lparr>lp_engine := ensure_run_data n (ts_engine ts), lp_error := ts_error ts\<rparr>"
  have lp1: "runs_typed (lp_runs lp1)" unfolding lp1_def by (simp add: ensure_run_data_typed assms)
  let ?task = "finished_task env started ts"
  have status: "executionStatus ?task = Some Error \<longleftrightarrow> task_error ?task \<noteq> None" by (simp add: finished_task_def)
  show ?thesis
  proof (cases "ts_error ts")
    case None
    then show ?thesis
      using store_result_typed [OF lp1 status] by (simp add: finish_node_def Let_def lp1_def n_def)
  next
    case (Some e)
    have "runs_typed (lp_runs (emit (SendChunk n) lp1))" using lp1 by simp
    note st = store_result_typed [OF this status]
    have "runs_typed (lp_runs (add_run_data n ?task (emit (SendChunk n) lp1)))"
    proof (rule add_run_data_typed)
      show "runs_typed (lp_runs (emit (SendChunk n) lp1))" using lp1 by simp
      show "run_typed ?task" using Some assms(2) by (simp add: run_typed_def finished_task_def)
    qed
    with Some st show ?thesis by (simp add: finish_node_def Let_def lp1_def n_def)
  qed
qed

lemma execute_entry_typed:
  assumes "keeps_runs env" "runs_typed (lp_runs lp)" "task_data started = None"
  shows "runs_typed (lp_runs (outcome_state (execute_entry env w ed started r lp)))"
proof -
  let ?ts = "\<lparr>ts_entry = ed, ts_engine = lp_engine lp, ts_data = Null, ts_hints = [], ts_error = None\<rparr>"
  obtain ends ts where t: "try_loop env w r (max_tries (exec_node ed) - 1) ?ts = (ends, ts)"
    by (cases "try_loop env w r (max_tries (exec_node ed) - 1) ?ts")
  then have "runs_typed (runData (eg_result (ts_engine ts)))"
    using try_loop_runs_kept [OF assms(1) t] assms(2) by (simp add: same_runs_def)
  with finish_node_typed [OF this assms(3)] t show ?thesis by (simp add: execute_entry_def Let_def)
qed

lemma process_entry_typed:
  assumes "keeps_runs env" "runs_typed (lp_runs lp)"
  shows "runs_typed (lp_runs (outcome_state (process_entry env w entry lp)))"
proof -
  have "task_data (task_started env eg e) = None" for eg e by (simp add: task_started_def)
  note ex = execute_entry_typed [OF assms(1) _ this]
  show ?thesis
    unfolding process_entry_def Let_def
    using assms(2) by (auto split: sum.splits prod.splits bool.splits simp: set_exec_def intro!: ex)
qed

definition typed_inv :: "'w machine_state \<Rightarrow> bool" where
  "typed_inv s = (case s of (env, w, lp) \<Rightarrow> keeps_runs env \<and> runs_typed (lp_runs lp))"

lemma iteration_typed:
  assumes "keeps_runs env" "runs_typed (lp_runs lp)"
  shows "runs_typed (lp_runs (outcome_state (iteration env w lp)))"
  using assms process_entry_typed [OF assms(1)] by (auto simp: iteration_def Let_def set_exec_def split: list.splits)

interpretation rdt: machine engine_step typed_inv
proof
  fix s s' :: "'w machine_state"
  assume a: "typed_inv s" "engine_step s = Some s'"
  obtain env w lp where s: "s = (env, w, lp)" by (cases s)
  from a(2) [unfolded s] obtain lp' where "s' = (env, w, lp')" "iteration env w lp = Continue lp'" by (rule engine_stepE)
  with a(1) iteration_typed [of env lp w] show "typed_inv s'" by (simp add: typed_inv_def s)
qed

text \<open>The run data of a typed execution has no \<open>null\<close> outputs.\<close>

lemma runs_typed_present: "runs_typed rd \<Longrightarrow> outputs_present rd"
proof -
  assume rd: "runs_typed rd"
  have cell: "cell_get outs i \<noteq> Null" if "list_all (\<lambda>c. cell_val c \<noteq> None) outs" for outs :: outputs and i
    using that by (auto simp: cell_get_def list_all_length split: if_splits)
  have "cell_get outs i \<noteq> Null"
    if "map_get rd n = Some ts" "t \<in> set ts" "task_data t = Some d" "map_get d Main = Some outs" for n ts t d outs i
  proof -
    have "run_typed t" using runs_typed_get [OF rd that(1)] that(2) by (simp add: list_all_iff)
    with that(3) obtain ty os where "d = [(ty, os)]" "list_all (\<lambda>c. cell_val c \<noteq> None) os" by (rule run_typedD)
    with that(4) show ?thesis by (auto simp: cell split: if_splits)
  qed
  then show ?thesis
    unfolding outputs_present_def output_cell_def
    by (auto simp: arr_get_def split: option.splits if_splits) (use nth_mem in blast)
qed

section \<open>Executions that end\<close>

lemma resume_waiting_main:
  "resume_waiting (ed, res) = Inr (ed', res') \<Longrightarrow> stack_main ed' = stack_main ed"
  by (auto simp: resume_waiting_def stack_main_def has_main_def split: list.splits option.splits)

lemma enter_loop_main:
  assumes "enter_loop env issues w index world red = Inr lp" "\<forall>ed. executionData red = Some ed \<longrightarrow> stack_main ed"
  shows "stack_main (lp_exec lp)"
  using assms by (auto simp: enter_loop_def Let_def bind_res_eq_Inr resume_waiting_main split: option.splits if_splits)

definition terminating :: "'w env \<Rightarrow> Workflow \<Rightarrow> bool" where
  "terminating env w =
     (respectful env \<and> is_v1 w \<and> nodes_wf w \<and> acyclic (main_edge (connectionsBySourceNode w)))"

lemma processRun_ends:
  assumes "terminating env w" "\<forall>ed. executionData red = Some ed \<longrightarrow> stack_main ed"
  shows "\<exists>bound. \<forall>fuel>bound. processRunExecutionData fuel env issues before restart w index world red \<noteq> Inr None"
proof (cases "enter_loop env issues w index world red")
  case (Inl e)
  then show ?thesis by (simp add: processRunExecutionData_def)
next
  case (Inr lp)
  obtain W where W: "weighted w W" using acyclic_weighted assms(1) unfolding terminating_def by blast
  have main: "stack_main (lp_exec lp)" using enter_loop_main [OF Inr assms(2)] .
  have "execution_loop fuel env w lp' \<noteq> None" if "lp_exec lp' = lp_exec lp" "load W (lp_exec lp) < fuel" for lp' fuel
  proof -
    have "load_inv W (env, w, lp')" using assms(1) W main that(1) by (simp add: load_inv_def terminating_def)
    then have "engine_steps fuel (env, w, lp') = None"
      using that by (intro prog.steps_end) (simp_all add: engine_load_def)
    then show ?thesis using execution_loop_None by blast
  qed
  from this [of lp] this [of "emit WorkflowExecuteBefore lp"]
  have "\<forall>fuel>load W (lp_exec lp). processRunExecutionData fuel env issues before restart w index world red \<noteq> Inr None"
    using Inr by (simp add: processRunExecutionData_def Let_def del: not_None_eq split: option.split prod.split)
  then show ?thesis by blast
qed

lemma prepare_run_main:
  assumes "prepare_run nts w start dest pins trig = Inr red" "\<forall>d. trig = Some d \<longrightarrow> map_get d Main \<noteq> None"
  shows "\<forall>ed. executionData red = Some ed \<longrightarrow> stack_main ed"
  using assms
  by (auto simp: prepare_run_def bind_res_eq_Inr run_data_for_def stack_main_def has_main_def split: option.splits)

lemma start_entry_main:
  assumes "start_entry w rd pins sn = Inr e"
  shows "has_main e"
proof (cases "map_get (connectionsByDestinationNode w) (sn_name sn)")
  case None
  then show ?thesis using assms by (auto simp: start_entry_def bind_res_eq_Inr has_main_def)
next
  case (Some tys)
  then obtain ins where ins: "map_get tys Main = Some ins"
    using assms by (cases "map_get tys Main") (auto simp: start_entry_def bind_res_eq_Inr)
  obtain a b where "fold (add_incoming w rd pins (sn_sourceData sn)) (concat (map cell_list ins)) ([], []) = (a, b)"
    by (rule prod.exhaust)
  with Some ins show ?thesis using assms by (auto simp: start_entry_def bind_res_eq_Inr has_main_def)
qed

lemma prepare_partial_main:
  assumes "prepare_partial w rd startNodes dest pins = Inr (red, index)"
  shows "\<forall>ed. executionData red = Some ed \<longrightarrow> stack_main ed"
proof -
  obtain stack we ws where r: "fold_res (prepare_start_node w rd pins dest) ([], [], []) startNodes = Inr (stack, we, ws)"
    "executionData red = Some (no_execution_data\<lparr>nodeExecutionStack := stack, waitingExecution := we,
       waitingExecutionSource := Some ws\<rparr>)"
    using assms by (auto simp: prepare_partial_def bind_res_eq_Inr run_data_for_def)
  have "list_all has_main (fst (stack, we, ws))"
    by (rule fold_res_invariant [OF r(1), where P = "\<lambda>x. list_all has_main (fst x)"])
      (auto simp: prepare_start_node_def bind_res_eq_Inr dest!: start_entry_main)
  then show ?thesis using r(2) by (simp add: stack_main_def)
qed

lemma run_ends_bound:
  assumes "terminating (se_env se) w" "\<forall>d. trig = Some d \<longrightarrow> map_get d Main \<noteq> None"
  shows "\<exists>bound. \<forall>fuel>bound. run fuel se w start dest pins trig \<noteq> Inr None"
proof (cases "prepare_run (env_nodeTypes (se_env se)) w start dest pins trig")
  case (Inr red)
  with processRun_ends [OF assms(1) prepare_run_main [OF Inr assms(2)]] show ?thesis
    by (simp add: run_def process_with_def)
qed (simp add: run_def)

lemma runPartialWorkflow_ends_bound:
  assumes "terminating (se_env se) w"
  shows "\<exists>bound. \<forall>fuel>bound. runPartialWorkflow fuel se w rd startNodes dest pins \<noteq> Inr None"
proof (cases "prepare_partial w rd startNodes dest pins")
  case (Inr p)
  then obtain red index where "prepare_partial w rd startNodes dest pins = Inr (red, index)" by (cases p) auto
  with processRun_ends [OF assms prepare_partial_main [OF this]] show ?thesis
    by (simp add: runPartialWorkflow_def process_with_def)
qed (simp add: runPartialWorkflow_def)

section \<open>What holds at the end of an execution\<close>

lemma loop_ends_inv:
  assumes "loop_ends_at env w lp e lp'" "P lp" "P (outcome_state (iteration env w lp))"
  shows "P lp'"
  using assms by (auto simp: loop_ends_at_def split: if_splits outcome.splits)

lemma execution_loop_waiting:
  assumes "engine_ok env w" "waiting_ok w (lp_exec lp)" "execution_loop fuel env w lp = Some (e, lp')"
  shows "waiting_ok w (lp_exec lp')"
proof -
  obtain j lp1 where j: "engine_steps j (env, w, lp) = Some (env, w, lp1)" "loop_ends_at env w lp1 e lp'"
    using execution_loop_steps [OF assms(3)] by blast
  have "waiting_ok w (lp_exec lp1)"
    using wait.steps_inv [OF j(1)] assms(1,2) by (simp add: waiting_inv_def)
  with loop_ends_inv [OF j(2), of "\<lambda>l. waiting_ok w (lp_exec l)"] iteration_waiting [OF assms(1)] show ?thesis by blast
qed

lemma execution_loop_typed:
  assumes "keeps_runs env" "runs_typed (lp_runs lp)" "execution_loop fuel env w lp = Some (e, lp')"
  shows "runs_typed (lp_runs lp')"
proof -
  obtain j lp1 where j: "engine_steps j (env, w, lp) = Some (env, w, lp1)" "loop_ends_at env w lp1 e lp'"
    using execution_loop_steps [OF assms(3)] by blast
  have "runs_typed (lp_runs lp1)"
    using rdt.steps_inv [OF j(1)] assms(1,2) by (simp add: typed_inv_def)
  with loop_ends_inv [OF j(2), of "\<lambda>l. runs_typed (lp_runs l)"] iteration_typed [OF assms(1)] show ?thesis by blast
qed

end
