(* ===== verification/Task_Broker.thy ===== *)
theory Task_Broker
  imports Workflow_Types
begin

text \<open>
  The task broker of \<open>packages/cli/src/task-runners/task-broker/task-broker.service.ts\<close>, which matches
  task requests with the offers of runners and relays messages between requesters and runners
  (message types of \<open>packages/@n8n/task-runner/src/message-types.ts\<close>).

  The class is a state machine over events: messages of runners and requesters, registrations, and
  timers. An asynchronous method runs up to its next \<open>await\<close> of something that an event decides; the
  two promises inside \<open>acceptOffer\<close> are such points, and the calls suspended there are part of the
  state (\<open>tb_accepting\<close>). Sending a message does not suspend: the callbacks only send. What the
  broker sends is recorded in order in \<open>tb_outputs\<close>. A task request is an object that the list of
  requests and a suspended call share, so requests carry an identity and \<open>acceptInProgress\<close> is set in
  all places at once.

  Identifiers (\<open>nanoid\<close>) and the clock are parameters; log messages are left out.
\<close>

section \<open>Data\<close>

record TaskRunner =
  runner_id :: string
  runner_name :: "string option"
  runner_taskTypes :: "string list"
  runner_lastSeen :: int

record Task =
  task_id :: string
  task_runnerId :: string
  task_requesterId :: string
  task_taskType :: string
  task_timeout :: bool

record TaskOffer =
  offer_id :: string
  offer_runnerId :: string
  offer_taskType :: string
  offer_validFor :: int
  offer_validUntil :: int

record TaskRequest =
  request_object :: nat
  request_id :: string
  request_requesterId :: string
  request_taskType :: string
  request_acceptInProgress :: bool

datatype rpc_status = RpcSuccess | RpcError

text \<open>An error that a message carries: data of any form, or an error object.\<close>

datatype error_value = ErrorData json | ErrorObject ExecutionError

datatype ToRunner =
    InfoRequest
  | RunnerRegistered
  | TaskOfferAccept string string
  | TaskCancel string string
  | TaskSettings string json
  | RPCResponse string string rpc_status json
  | TaskDataResponse string string json
  | NodeTypes string string json

datatype ToRequester =
    TaskReady string string
  | TaskDone string json
  | TaskError string error_value
  | TaskDataRequest string string json
  | NodeTypesRequest string string json
  | RPC string string string "json list"

datatype FromRunner =
    RunnerInfo string "string list"
  | RunnerTaskAccepted string
  | RunnerTaskRejected string string
  | RunnerTaskDeferred string
  | RunnerTaskDone string json
  | RunnerTaskError string json
  | RunnerTaskOffer string string int
  | RunnerTaskDataRequest string string json
  | RunnerNodeTypesRequest string string json
  | RunnerRPC string string string "json list"

datatype FromRequester =
    RequesterTaskSettings string json
  | RequesterTaskCancel string string
  | RequesterTaskDataResponse string string json
  | RequesterNodeTypesResponse string string json
  | RequesterRPCResponse string string rpc_status json
  | RequesterTaskRequest string string

datatype runner_mode = Internal | External

text \<open>The settings that the broker reads; \<open>cfg_selfHosted\<close> says that the deployment is not the cloud.\<close>

record TaskRunnersConfig =
  cfg_taskTimeout :: int
  cfg_mode :: runner_mode
  cfg_selfHosted :: bool

datatype broker_output =
    SendRunner string ToRunner
  | SendRequester string ToRequester
  | TimedOutDuringTask
  | UnhandledRejection

text \<open>A suspended call of \<open>acceptOffer\<close>: it waits for the runner or, with the task created, for the requester.\<close>

datatype accept_call = AwaitRunner TaskOffer TaskRequest | AwaitRequester TaskRequest

datatype refusal = Rejected string | Deferred | AcceptTimeout

record TaskBroker =
  tb_knownRunners :: "(string, TaskRunner) jsmap"
  tb_requesters :: "string list"
  tb_tasks :: "(string, Task) jsmap"
  tb_runnerAcceptRejects :: "string list"
  tb_requesterAcceptRejects :: "string list"
  tb_pendingTaskOffers :: "TaskOffer list"
  tb_pendingTaskRequests :: "TaskRequest list"
  tb_accepting :: "(string, accept_call) jsmap"
  tb_ids :: nat
  tb_objects :: nat
  tb_outputs :: "broker_output list"

definition new_TaskBroker :: "TaskRunnersConfig \<Rightarrow> TaskBroker result" where
  "new_TaskBroker config =
     (if cfg_taskTimeout config \<le> 0 then Inl (UserError ''Task timeout must be greater than 0'')
      else Inr \<lparr>tb_knownRunners = [], tb_requesters = [], tb_tasks = [], tb_runnerAcceptRejects = [],
        tb_requesterAcceptRejects = [], tb_pendingTaskOffers = [], tb_pendingTaskRequests = [],
        tb_accepting = [], tb_ids = 0, tb_objects = 0, tb_outputs = []\<rparr>)"

section \<open>Arrays\<close>

text \<open>\<open>splice(i, 1)\<close>, the loop that splices from the end, and \<open>findIndex\<close>.\<close>

definition splice :: "nat \<Rightarrow> 'a list \<Rightarrow> 'a list" where
  "splice i xs = take i xs @ drop (Suc i) xs"

definition splice_where :: "('a \<Rightarrow> bool) \<Rightarrow> 'a list \<Rightarrow> 'a list" where
  "splice_where P xs = fold (\<lambda>i ys. if P (ys ! i) then splice i ys else ys) (rev [0..<length xs]) xs"

fun find_index :: "('a \<Rightarrow> bool) \<Rightarrow> 'a list \<Rightarrow> nat option" where
  "find_index P [] = None"
| "find_index P (x # xs) = (if P x then Some 0 else map_option Suc (find_index P xs))"

lemma splice_where_filter: "splice_where P xs = filter (\<lambda>x. \<not> P x) xs"
proof -
  have "fold (\<lambda>i ys. if P (ys ! i) then splice i ys else ys) (rev [0..<n]) (us @ vs) = filter (\<lambda>x. \<not> P x) us @ vs"
    if "n = length us" for n us vs
    using that
  proof (induction us arbitrary: n vs rule: rev_induct)
    case (snoc u us)
    then have n: "n = Suc (length us)" by simp
    show ?case
    proof (cases "P u")
      case True
      then have "fold (\<lambda>i ys. if P (ys ! i) then splice i ys else ys) (rev [0..<n]) ((us @ [u]) @ vs) =
          fold (\<lambda>i ys. if P (ys ! i) then splice i ys else ys) (rev [0..<length us]) (us @ vs)"
        by (simp add: n splice_def nth_append)
      with snoc.IH [OF refl, of vs] True show ?thesis by simp
    next
      case False
      then have "fold (\<lambda>i ys. if P (ys ! i) then splice i ys else ys) (rev [0..<n]) ((us @ [u]) @ vs) =
          fold (\<lambda>i ys. if P (ys ! i) then splice i ys else ys) (rev [0..<length us]) (us @ u # vs)"
        by (simp add: n nth_append)
      with snoc.IH [OF refl, of "u # vs"] False show ?thesis by simp
    qed
  qed simp
  from this [of "length xs" xs "[]"] show ?thesis by (simp add: splice_where_def)
qed

lemma find_index_Some: "find_index P xs = Some i \<Longrightarrow> i < length xs \<and> P (xs ! i)"
  by (induction xs arbitrary: i) (auto split: if_splits)

lemma find_index_None: "find_index P xs = None \<longleftrightarrow> (\<forall>x \<in> set xs. \<not> P x)"
  by (induction xs) auto

lemma set_splice: "x \<in> set (splice i xs) \<Longrightarrow> x \<in> set xs"
  by (auto simp: splice_def dest: in_set_takeD in_set_dropD)

lemma splice_other: "x \<in> set xs \<Longrightarrow> x \<noteq> xs ! i \<Longrightarrow> x \<in> set (splice i xs)"
  by (cases "i < length xs") (auto simp: splice_def dest: id_take_nth_drop [THEN arg_cong, of _ _ set])

section \<open>Registration and messages\<close>

definition messageRunner :: "string \<Rightarrow> ToRunner \<Rightarrow> TaskBroker \<Rightarrow> TaskBroker" where
  "messageRunner runnerId message b =
     (if map_has (tb_knownRunners b) runnerId then b\<lparr>tb_outputs := tb_outputs b @ [SendRunner runnerId message]\<rparr> else b)"

definition messageRequester :: "string \<Rightarrow> ToRequester \<Rightarrow> TaskBroker \<Rightarrow> TaskBroker" where
  "messageRequester requesterId message b =
     (if requesterId \<in> set (tb_requesters b) then b\<lparr>tb_outputs := tb_outputs b @ [SendRequester requesterId message]\<rparr> else b)"

definition expireTasks :: "int \<Rightarrow> TaskBroker \<Rightarrow> TaskBroker" where
  "expireTasks now b =
     b\<lparr>tb_pendingTaskOffers :=
       splice_where (\<lambda>offer. offer_validFor offer \<noteq> -1 \<and> offer_validUntil offer < now) (tb_pendingTaskOffers b)\<rparr>"

definition registerRunner :: "TaskRunner \<Rightarrow> TaskBroker \<Rightarrow> TaskBroker" where
  "registerRunner runner b =
     messageRunner (runner_id runner) RunnerRegistered
       (b\<lparr>tb_knownRunners := map_set (runner_id runner) runner (tb_knownRunners b)\<rparr>)"

definition registerRequester :: "string \<Rightarrow> TaskBroker \<Rightarrow> TaskBroker" where
  "registerRequester requesterId b = b\<lparr>tb_requesters := set_add requesterId (tb_requesters b)\<rparr>"

definition deregisterRequester :: "string \<Rightarrow> TaskBroker \<Rightarrow> TaskBroker" where
  "deregisterRequester requesterId b = b\<lparr>tb_requesters := set_delete requesterId (tb_requesters b)\<rparr>"

section \<open>The end of a task\<close>

definition cancelTask :: "string \<Rightarrow> string \<Rightarrow> TaskBroker \<Rightarrow> TaskBroker" where
  "cancelTask taskId reason b =
     (case map_get (tb_tasks b) taskId of None \<Rightarrow> b
      | Some task \<Rightarrow>
          messageRunner (task_runnerId task) (TaskCancel taskId reason)
            (b\<lparr>tb_tasks := map_delete taskId (tb_tasks b)\<rparr>))"

definition failTask :: "string \<Rightarrow> ExecutionError \<Rightarrow> TaskBroker \<Rightarrow> TaskBroker" where
  "failTask taskId error b =
     (case map_get (tb_tasks b) taskId of None \<Rightarrow> b
      | Some task \<Rightarrow>
          messageRequester (task_requesterId task) (TaskError taskId (ErrorObject error))
            (b\<lparr>tb_tasks := map_delete taskId (tb_tasks b)\<rparr>))"

definition taskDoneHandler :: "string \<Rightarrow> json \<Rightarrow> TaskBroker \<Rightarrow> TaskBroker" where
  "taskDoneHandler taskId data b =
     (case map_get (tb_tasks b) taskId of None \<Rightarrow> b
      | Some task \<Rightarrow>
          (messageRequester (task_requesterId task) (TaskDone (task_id task) data) b)
            \<lparr>tb_tasks := map_delete (task_id task) (tb_tasks b)\<rparr>)"

definition taskErrorHandler :: "string \<Rightarrow> error_value \<Rightarrow> TaskBroker \<Rightarrow> TaskBroker" where
  "taskErrorHandler taskId error b =
     (case map_get (tb_tasks b) taskId of None \<Rightarrow> b
      | Some task \<Rightarrow>
          (messageRequester (task_requesterId task) (TaskError (task_id task) error) b)
            \<lparr>tb_tasks := map_delete (task_id task) (tb_tasks b)\<rparr>)"

definition unexpected_error :: "string \<Rightarrow> ExecutionError" where
  "unexpected_error message = \<lparr>err_name = ''Error'', err_message = message, err_stack = None, err_description = None\<rparr>"

text \<open>The runner of a task, or the error thrown; a task whose runner is gone fails.\<close>

definition getRunnerOrFailTask :: "string \<Rightarrow> TaskBroker \<Rightarrow> (ExecutionError + TaskRunner) \<times> TaskBroker" where
  "getRunnerOrFailTask taskId b =
     (case map_get (tb_tasks b) taskId of
        None \<Rightarrow> (Inl (unexpected_error (''Cannot find runner, failed to find task ('' @ taskId @ '')'')), b)
      | Some task \<Rightarrow>
          (case map_get (tb_knownRunners b) (task_runnerId task) of
             None \<Rightarrow>
               (let error = unexpected_error (''Cannot find runner, failed to find runner ('' @ task_runnerId task @ '')'')
                in (Inl error, failTask taskId error b))
           | Some runner \<Rightarrow> (Inr runner, b)))"

text \<open>The timer of a task fired.\<close>

definition execution_timeout_error :: "TaskRunnersConfig \<Rightarrow> ExecutionError" where
  "execution_timeout_error config =
     (let t = cfg_taskTimeout config;
          timeout = show_nat (nat t) @ '' '' @ (if t = 1 then ''second'' else ''seconds'');
          subtitle = (if cfg_mode config = Internal
            then ''The task runner was taking too long on this task, so it was suspected of being unresponsive and restarted, and the task was aborted.''
            else ''The task runner was taking too long on this task, so the task was aborted.'');
          suggestions =
            [''1. Optimize your script to prevent long-running tasks, e.g. by processing data in smaller batches.'',
             ''2. Ensure that all paths in your script are able to terminate, i.e. no infinite loops.''] @
            (if cfg_selfHosted config
             then [''3. If your task can reasonably take more than '' @ timeout @
               '', increase the timeout using the N8N_RUNNERS_TASK_TIMEOUT environment variable.''] else [])
      in \<lparr>err_name = ''Error'', err_message = ''Task execution timed out after '' @ timeout, err_stack = None,
           err_description = Some (subtitle @ '' You can try the following:<br/><br/>'' @
             concat (hd suggestions # map (\<lambda>s. ''<br/>'' @ s) (tl suggestions)))\<rparr>)"

definition handleTaskTimeout :: "TaskRunnersConfig \<Rightarrow> string \<Rightarrow> TaskBroker \<Rightarrow> TaskBroker" where
  "handleTaskTimeout config taskId b =
     (case map_get (tb_tasks b) taskId of None \<Rightarrow> b
      | Some task \<Rightarrow>
          taskErrorHandler taskId (ErrorObject (execution_timeout_error config))
            (case cfg_mode config of
               Internal \<Rightarrow> b\<lparr>tb_outputs := tb_outputs b @ [TimedOutDuringTask]\<rparr>
             | External \<Rightarrow> messageRunner (task_runnerId task) (TaskCancel taskId ''Task execution timed out'') b))"

section \<open>Accepting an offer\<close>

definition set_progress :: "nat \<Rightarrow> bool \<Rightarrow> TaskBroker \<Rightarrow> TaskBroker" where
  "set_progress ob v b =
     b\<lparr>tb_pendingTaskRequests :=
       map (\<lambda>r. if request_object r = ob then r\<lparr>request_acceptInProgress := v\<rparr> else r) (tb_pendingTaskRequests b)\<rparr>"

text \<open>The first part of \<open>acceptOffer\<close>, up to the promise of the runner.\<close>

definition acceptOffer :: "(nat \<Rightarrow> string) \<Rightarrow> TaskOffer \<Rightarrow> TaskRequest \<Rightarrow> TaskBroker \<Rightarrow> TaskBroker" where
  "acceptOffer nanoid offer request b =
     (let taskId = nanoid (tb_ids b)
      in messageRunner (offer_runnerId offer) (TaskOfferAccept taskId (offer_id offer))
           (b\<lparr>tb_ids := Suc (tb_ids b), tb_runnerAcceptRejects := set_add taskId (tb_runnerAcceptRejects b),
              tb_accepting := map_set taskId (AwaitRunner offer request) (tb_accepting b)\<rparr>))"

text \<open>The promise of the runner is rejected.\<close>

definition runner_refused :: "string \<Rightarrow> refusal \<Rightarrow> TaskBroker \<Rightarrow> TaskBroker" where
  "runner_refused taskId reason b =
     (case map_get (tb_accepting b) taskId of
        Some (AwaitRunner offer request) \<Rightarrow>
          (let b' = set_progress (request_object request) False (b\<lparr>tb_accepting := map_delete taskId (tb_accepting b)\<rparr>)
           in if reason = Deferred
              then b'\<lparr>tb_pendingTaskRequests := tb_pendingTaskRequests b' @ [request\<lparr>request_acceptInProgress := False\<rparr>]\<rparr>
              else b')
      | _ \<Rightarrow> b)"

text \<open>
  The promise of the runner is fulfilled: the task exists, its request is no longer pending, and the
  call waits for the requester. A request that is not found ends the call.
\<close>

definition runner_accepted :: "string \<Rightarrow> TaskBroker \<Rightarrow> TaskBroker" where
  "runner_accepted taskId b =
     (case map_get (tb_accepting b) taskId of
        Some (AwaitRunner offer request) \<Rightarrow>
          (let task = \<lparr>task_id = taskId, task_runnerId = offer_runnerId offer, task_requesterId = request_requesterId request,
                 task_taskType = offer_taskType offer, task_timeout = False\<rparr>;
               b1 = b\<lparr>tb_tasks := map_set taskId task (tb_tasks b)\<rparr>
           in case find_index (\<lambda>r. request_id r = request_id request) (tb_pendingTaskRequests b) of
                None \<Rightarrow> b1\<lparr>tb_accepting := map_delete taskId (tb_accepting b)\<rparr>
              | Some i \<Rightarrow>
                  messageRequester (request_requesterId request) (TaskReady (request_id request) taskId)
                    (b1\<lparr>tb_pendingTaskRequests := splice i (tb_pendingTaskRequests b),
                        tb_requesterAcceptRejects := set_add taskId (tb_requesterAcceptRejects b),
                        tb_accepting := map_set taskId (AwaitRequester request) (tb_accepting b)\<rparr>))
      | _ \<Rightarrow> b)"

definition handleRunnerAccept :: "string \<Rightarrow> TaskBroker \<Rightarrow> TaskBroker" where
  "handleRunnerAccept taskId b =
     (if taskId \<in> set (tb_runnerAcceptRejects b)
      then runner_accepted taskId (b\<lparr>tb_runnerAcceptRejects := set_delete taskId (tb_runnerAcceptRejects b)\<rparr>) else b)"

definition handleRunnerReject :: "string \<Rightarrow> string \<Rightarrow> TaskBroker \<Rightarrow> TaskBroker" where
  "handleRunnerReject taskId reason b =
     (if taskId \<in> set (tb_runnerAcceptRejects b)
      then runner_refused taskId (Rejected reason) (b\<lparr>tb_runnerAcceptRejects := set_delete taskId (tb_runnerAcceptRejects b)\<rparr>)
      else b)"

definition handleRunnerDeferred :: "string \<Rightarrow> TaskBroker \<Rightarrow> TaskBroker" where
  "handleRunnerDeferred taskId b =
     (if taskId \<in> set (tb_runnerAcceptRejects b)
      then runner_refused taskId Deferred (b\<lparr>tb_runnerAcceptRejects := set_delete taskId (tb_runnerAcceptRejects b)\<rparr>)
      else b)"

text \<open>The timer of the first promise leaves the entry of the task where it is.\<close>

definition runner_accept_timeout :: "string \<Rightarrow> TaskBroker \<Rightarrow> TaskBroker" where
  "runner_accept_timeout taskId b = runner_refused taskId AcceptTimeout b"

definition sendTaskSettings :: "string \<Rightarrow> json \<Rightarrow> TaskBroker \<Rightarrow> (ExecutionError + unit) \<times> TaskBroker" where
  "sendTaskSettings taskId settings b =
     (case getRunnerOrFailTask taskId b of
        (Inl e, b') \<Rightarrow> (Inl e, b')
      | (Inr runner, b') \<Rightarrow>
          (case map_get (tb_tasks b') taskId of None \<Rightarrow> (Inr (), b')
           | Some task \<Rightarrow>
               (Inr (), messageRunner (runner_id runner) (TaskSettings taskId settings)
                  (b'\<lparr>tb_tasks := map_set taskId (task\<lparr>task_timeout := True\<rparr>) (tb_tasks b')\<rparr>))))"

text \<open>
  The promise of the requester is rejected: the task is cancelled, and unless the requester
  rejected it the error leaves the call, which nobody awaits.
\<close>

definition requester_refused :: "string \<Rightarrow> string option \<Rightarrow> TaskBroker \<Rightarrow> TaskBroker" where
  "requester_refused taskId reason b =
     (let b' = b\<lparr>tb_accepting := map_delete taskId (tb_accepting b)\<rparr>
      in case reason of Some r \<Rightarrow> cancelTask taskId r b'
         | None \<Rightarrow> (let b'' = cancelTask taskId ''Unknown reason'' b'
                   in b''\<lparr>tb_outputs := tb_outputs b'' @ [UnhandledRejection]\<rparr>))"

definition requester_accepted :: "string \<Rightarrow> json \<Rightarrow> TaskBroker \<Rightarrow> TaskBroker" where
  "requester_accepted taskId settings b =
     (case sendTaskSettings taskId settings b of
        (Inr _, b') \<Rightarrow> b'\<lparr>tb_accepting := map_delete taskId (tb_accepting b')\<rparr>
      | (Inl e, b') \<Rightarrow> requester_refused taskId None b')"

definition awaits_requester :: "TaskBroker \<Rightarrow> string \<Rightarrow> bool" where
  "awaits_requester b taskId = (case map_get (tb_accepting b) taskId of Some (AwaitRequester _) \<Rightarrow> True | _ \<Rightarrow> False)"

definition handleRequesterAccept :: "string \<Rightarrow> json \<Rightarrow> TaskBroker \<Rightarrow> TaskBroker" where
  "handleRequesterAccept taskId settings b =
     (if taskId \<in> set (tb_requesterAcceptRejects b) then
        (let b' = b\<lparr>tb_requesterAcceptRejects := set_delete taskId (tb_requesterAcceptRejects b)\<rparr>
         in if awaits_requester b taskId then requester_accepted taskId settings b' else b')
      else b)"

definition handleRequesterReject :: "string \<Rightarrow> string \<Rightarrow> TaskBroker \<Rightarrow> TaskBroker" where
  "handleRequesterReject taskId reason b =
     (if taskId \<in> set (tb_requesterAcceptRejects b) then
        (let b' = b\<lparr>tb_requesterAcceptRejects := set_delete taskId (tb_requesterAcceptRejects b)\<rparr>
         in if awaits_requester b taskId then requester_refused taskId (Some reason) b' else b')
      else b)"

definition requester_accept_timeout :: "string \<Rightarrow> TaskBroker \<Rightarrow> TaskBroker" where
  "requester_accept_timeout taskId b = (if awaits_requester b taskId then requester_refused taskId None b else b)"

section \<open>Matching\<close>

definition settle_request :: "(nat \<Rightarrow> string) \<Rightarrow> nat \<Rightarrow> TaskBroker \<Rightarrow> TaskBroker" where
  "settle_request nanoid i b =
     (let request = tb_pendingTaskRequests b ! i
      in if request_acceptInProgress request then b
         else case find_index (\<lambda>offer. offer_taskType offer = request_taskType request) (tb_pendingTaskOffers b) of
           None \<Rightarrow> b
         | Some j \<Rightarrow>
             acceptOffer nanoid (tb_pendingTaskOffers b ! j) (request\<lparr>request_acceptInProgress := True\<rparr>)
               ((set_progress (request_object request) True b)\<lparr>tb_pendingTaskOffers := splice j (tb_pendingTaskOffers b)\<rparr>))"

definition settleTasks :: "(nat \<Rightarrow> string) \<Rightarrow> int \<Rightarrow> TaskBroker \<Rightarrow> TaskBroker" where
  "settleTasks nanoid now b =
     (let b' = expireTasks now b in fold (settle_request nanoid) [0..<length (tb_pendingTaskRequests b')] b')"

definition taskRequested :: "(nat \<Rightarrow> string) \<Rightarrow> int \<Rightarrow> string \<Rightarrow> string \<Rightarrow> string \<Rightarrow> TaskBroker \<Rightarrow> TaskBroker" where
  "taskRequested nanoid now taskType requestId requesterId b =
     settleTasks nanoid now (b\<lparr>tb_objects := Suc (tb_objects b), tb_pendingTaskRequests := tb_pendingTaskRequests b @
       [\<lparr>request_object = tb_objects b, request_id = requestId, request_requesterId = requesterId,
         request_taskType = taskType, request_acceptInProgress = False\<rparr>]\<rparr>)"

definition taskOffered :: "(nat \<Rightarrow> string) \<Rightarrow> int \<Rightarrow> TaskOffer \<Rightarrow> TaskBroker \<Rightarrow> TaskBroker" where
  "taskOffered nanoid now offer b =
     settleTasks nanoid now (b\<lparr>tb_pendingTaskOffers := tb_pendingTaskOffers b @ [offer]\<rparr>)"

section \<open>Disconnecting a runner\<close>

definition disconnect_task :: "string \<Rightarrow> ExecutionError \<Rightarrow> Task \<Rightarrow> TaskBroker \<Rightarrow> TaskBroker" where
  "disconnect_task runnerId error task b =
     (if task_runnerId task = runnerId
      then handleRunnerReject (task_id task)
        (''The Task Runner ('' @ runnerId @ '') has disconnected: '' @ err_message error) (failTask (task_id task) error b)
      else b)"

definition deregisterRunner :: "string \<Rightarrow> ExecutionError \<Rightarrow> TaskBroker \<Rightarrow> TaskBroker" where
  "deregisterRunner runnerId error b =
     (let b' = b\<lparr>tb_knownRunners := map_delete runnerId (tb_knownRunners b),
                tb_pendingTaskOffers := splice_where (\<lambda>offer. offer_runnerId offer = runnerId) (tb_pendingTaskOffers b)\<rparr>
      in fold (disconnect_task runnerId error) (map_values (tb_tasks b')) b')"

section \<open>Relaying\<close>

definition relay_to_requester :: "string \<Rightarrow> ToRequester \<Rightarrow> TaskBroker \<Rightarrow> TaskBroker" where
  "relay_to_requester taskId message b =
     (case map_get (tb_tasks b) taskId of None \<Rightarrow> b | Some task \<Rightarrow> messageRequester (task_requesterId task) message b)"

definition handleRpcRequest :: "string \<Rightarrow> string \<Rightarrow> string \<Rightarrow> json list \<Rightarrow> TaskBroker \<Rightarrow> TaskBroker" where
  "handleRpcRequest taskId callId name params = relay_to_requester taskId (RPC taskId callId name params)"

definition handleDataRequest :: "string \<Rightarrow> string \<Rightarrow> json \<Rightarrow> TaskBroker \<Rightarrow> TaskBroker" where
  "handleDataRequest taskId requestId requestParams = relay_to_requester taskId (TaskDataRequest taskId requestId requestParams)"

definition handleNodeTypesRequest :: "string \<Rightarrow> string \<Rightarrow> json \<Rightarrow> TaskBroker \<Rightarrow> TaskBroker" where
  "handleNodeTypesRequest taskId requestId requestParams =
     relay_to_requester taskId (NodeTypesRequest taskId requestId requestParams)"

text \<open>This one addresses a runner by the identifier of the requester.\<close>

definition handleResponse :: "string \<Rightarrow> string \<Rightarrow> json \<Rightarrow> TaskBroker \<Rightarrow> TaskBroker" where
  "handleResponse taskId requestId data b =
     (case map_get (tb_tasks b) taskId of None \<Rightarrow> b
      | Some task \<Rightarrow> messageRunner (task_requesterId task) (TaskDataResponse taskId requestId data) b)"

definition relay_to_runner :: "string \<Rightarrow> ToRunner \<Rightarrow> TaskBroker \<Rightarrow> (ExecutionError + unit) \<times> TaskBroker" where
  "relay_to_runner taskId message b =
     (case getRunnerOrFailTask taskId b of
        (Inl e, b') \<Rightarrow> (Inl e, b') | (Inr runner, b') \<Rightarrow> (Inr (), messageRunner (runner_id runner) message b'))"

definition handleRequesterRpcResponse ::
  "string \<Rightarrow> string \<Rightarrow> rpc_status \<Rightarrow> json \<Rightarrow> TaskBroker \<Rightarrow> (ExecutionError + unit) \<times> TaskBroker" where
  "handleRequesterRpcResponse taskId callId status data = relay_to_runner taskId (RPCResponse taskId callId status data)"

definition handleRequesterDataResponse ::
  "string \<Rightarrow> string \<Rightarrow> json \<Rightarrow> TaskBroker \<Rightarrow> (ExecutionError + unit) \<times> TaskBroker" where
  "handleRequesterDataResponse taskId requestId data = relay_to_runner taskId (TaskDataResponse taskId requestId data)"

definition handleRequesterNodeTypesResponse ::
  "string \<Rightarrow> string \<Rightarrow> json \<Rightarrow> TaskBroker \<Rightarrow> (ExecutionError + unit) \<times> TaskBroker" where
  "handleRequesterNodeTypesResponse taskId requestId nodeTypes =
     relay_to_runner taskId (NodeTypes taskId requestId nodeTypes)"

section \<open>Dispatch\<close>

fun onRunnerMessage :: "(nat \<Rightarrow> string) \<Rightarrow> int \<Rightarrow> string \<Rightarrow> FromRunner \<Rightarrow> TaskBroker \<Rightarrow> TaskBroker" where
  "onRunnerMessage nanoid now runnerId message b =
     (if \<not> map_has (tb_knownRunners b) runnerId then b
      else case message of
        RunnerTaskAccepted taskId \<Rightarrow> handleRunnerAccept taskId b
      | RunnerTaskRejected taskId reason \<Rightarrow> handleRunnerReject taskId reason b
      | RunnerTaskDeferred taskId \<Rightarrow> handleRunnerDeferred taskId b
      | RunnerTaskOffer offerId taskType validFor \<Rightarrow>
          taskOffered nanoid now \<lparr>offer_id = offerId, offer_runnerId = runnerId, offer_taskType = taskType,
            offer_validFor = validFor, offer_validUntil = (if validFor = -1 then 0 else now + validFor * 1000000)\<rparr> b
      | RunnerTaskDone taskId data \<Rightarrow> taskDoneHandler taskId data b
      | RunnerTaskError taskId error \<Rightarrow> taskErrorHandler taskId (ErrorData error) b
      | RunnerTaskDataRequest taskId requestId params \<Rightarrow> handleDataRequest taskId requestId params b
      | RunnerNodeTypesRequest taskId requestId params \<Rightarrow> handleNodeTypesRequest taskId requestId params b
      | RunnerRPC taskId callId name params \<Rightarrow> handleRpcRequest taskId callId name params b
      | RunnerInfo name types \<Rightarrow> b)"

fun onRequesterMessage ::
  "(nat \<Rightarrow> string) \<Rightarrow> int \<Rightarrow> string \<Rightarrow> FromRequester \<Rightarrow> TaskBroker \<Rightarrow> (ExecutionError + unit) \<times> TaskBroker" where
  "onRequesterMessage nanoid now requesterId message b =
     (case message of
        RequesterTaskSettings taskId settings \<Rightarrow> (Inr (), handleRequesterAccept taskId settings b)
      | RequesterTaskCancel taskId reason \<Rightarrow> (Inr (), cancelTask taskId reason b)
      | RequesterTaskRequest requestId taskType \<Rightarrow> (Inr (), taskRequested nanoid now taskType requestId requesterId b)
      | RequesterTaskDataResponse taskId requestId data \<Rightarrow> handleRequesterDataResponse taskId requestId data b
      | RequesterNodeTypesResponse taskId requestId nodeTypes \<Rightarrow> handleRequesterNodeTypesResponse taskId requestId nodeTypes b
      | RequesterRPCResponse taskId callId status data \<Rightarrow> handleRequesterRpcResponse taskId callId status data b)"

text \<open>Everything that can happen to the broker.\<close>

datatype broker_event =
    RegisterRunner TaskRunner
  | DeregisterRunner string ExecutionError
  | RegisterRequester string
  | DeregisterRequester string
  | RunnerMessage int string FromRunner
  | RequesterMessage int string FromRequester
  | RunnerAcceptTimeout string
  | RequesterAcceptTimeout string
  | TaskTimeout string

fun handle_event :: "(nat \<Rightarrow> string) \<Rightarrow> TaskRunnersConfig \<Rightarrow> broker_event \<Rightarrow> TaskBroker \<Rightarrow> TaskBroker" where
  "handle_event nanoid config (RegisterRunner runner) b = registerRunner runner b"
| "handle_event nanoid config (DeregisterRunner runnerId error) b = deregisterRunner runnerId error b"
| "handle_event nanoid config (RegisterRequester requesterId) b = registerRequester requesterId b"
| "handle_event nanoid config (DeregisterRequester requesterId) b = deregisterRequester requesterId b"
| "handle_event nanoid config (RunnerMessage now runnerId message) b = onRunnerMessage nanoid now runnerId message b"
| "handle_event nanoid config (RequesterMessage now requesterId message) b = snd (onRequesterMessage nanoid now requesterId message b)"
| "handle_event nanoid config (RunnerAcceptTimeout taskId) b = runner_accept_timeout taskId b"
| "handle_event nanoid config (RequesterAcceptTimeout taskId) b = requester_accept_timeout taskId b"
| "handle_event nanoid config (TaskTimeout taskId) b = handleTaskTimeout config taskId b"

declare onRunnerMessage.simps [simp del] onRequesterMessage.simps [simp del]

end
