(* ===== verification/Task_Broker_Events.thy ===== *)
theory Task_Broker_Events
  imports Task_Broker
begin

text \<open>
  Invariants of the task broker. Everything that the handlers of \<^const>\<open>handle_event\<close> do is one of a
  few steps: a message that neither announces nor ends a task, the end of a task, and the moves of a
  call of \<open>acceptOffer\<close>. A property that these steps keep (the locale \<open>broker_invariant\<close>) is kept by
  every event and so by every history.
\<close>

lemma map_has_get: "map_has m k \<longleftrightarrow> (\<exists>v. map_get m k = Some v)"
  by (auto simp: map_has_def)

lemma map_has_simps [simp]:
  "map_has (map_set k v m) k' = (k' = k \<or> map_has m k')" "map_has (map_delete k m) k' = (k' \<noteq> k \<and> map_has m k')"
  by (auto simp: map_has_def)

section \<open>Steps\<close>

text \<open>The messages that end a task for its requester, and those that neither begin nor end a task.\<close>

fun final_for :: "string \<Rightarrow> broker_output \<Rightarrow> bool" where
  "final_for tid (SendRequester q (TaskDone t data)) = (t = tid)"
| "final_for tid (SendRequester q (TaskError t e)) = (t = tid)"
| "final_for tid _ = False"

fun quiet :: "broker_output \<Rightarrow> bool" where
  "quiet (SendRequester q (TaskDone t data)) = False"
| "quiet (SendRequester q (TaskError t e)) = False"
| "quiet (SendRequester q (TaskReady r t)) = False"
| "quiet (SendRunner r (TaskOfferAccept t x)) = False"
| "quiet (SendRunner r (TaskSettings t x)) = False"
| "quiet _ = True"

definition same_calls :: "TaskBroker \<Rightarrow> TaskBroker \<Rightarrow> bool" where
  "same_calls b b' =
     (tb_ids b' = tb_ids b \<and> tb_runnerAcceptRejects b' = tb_runnerAcceptRejects b
      \<and> tb_pendingTaskRequests b' = tb_pendingTaskRequests b \<and> tb_objects b' = tb_objects b)"

definition sent :: "(broker_output \<Rightarrow> bool) \<Rightarrow> TaskBroker \<Rightarrow> TaskBroker \<Rightarrow> bool" where
  "sent P b b' = (\<exists>outs. tb_outputs b' = tb_outputs b @ outs \<and> length outs \<le> 1 \<and> list_all P outs)"

definition quiet_step :: "TaskBroker \<Rightarrow> TaskBroker \<Rightarrow> bool" where
  "quiet_step b b' =
     (same_calls b b' \<and> tb_tasks b' = tb_tasks b \<and> tb_accepting b' = tb_accepting b \<and> sent quiet b b')"

text \<open>The handlers of results look a task up by the name in the message and delete it by the name it has.\<close>

definition end_step :: "string \<Rightarrow> Task \<Rightarrow> string \<Rightarrow> TaskBroker \<Rightarrow> TaskBroker \<Rightarrow> bool" where
  "end_step tid task k b b' =
     (same_calls b b' \<and> map_get (tb_tasks b) tid = Some task \<and> k \<in> {tid, task_id task} \<and> tb_tasks b' = map_delete k (tb_tasks b)
      \<and> tb_accepting b' = tb_accepting b \<and> sent (\<lambda>x. quiet x \<or> final_for k x) b b')"

lemmas step_defs = quiet_step_def end_step_def same_calls_def sent_def

lemma sentI: "tb_outputs b' = tb_outputs b \<Longrightarrow> sent P b b'" "tb_outputs b' = tb_outputs b @ [x] \<Longrightarrow> P x \<Longrightarrow> sent P b b'"
  by (auto simp: sent_def)

lemma messageRunner_fields [simp]:
  "tb_tasks (messageRunner r m b) = tb_tasks b" "tb_accepting (messageRunner r m b) = tb_accepting b"
  "tb_ids (messageRunner r m b) = tb_ids b" "tb_runnerAcceptRejects (messageRunner r m b) = tb_runnerAcceptRejects b"
  "tb_pendingTaskRequests (messageRunner r m b) = tb_pendingTaskRequests b"
  "tb_pendingTaskOffers (messageRunner r m b) = tb_pendingTaskOffers b" "tb_objects (messageRunner r m b) = tb_objects b"
  "tb_knownRunners (messageRunner r m b) = tb_knownRunners b" "tb_requesters (messageRunner r m b) = tb_requesters b"
  by (simp_all add: messageRunner_def)

lemma messageRequester_fields [simp]:
  "tb_tasks (messageRequester r q b) = tb_tasks b" "tb_accepting (messageRequester r q b) = tb_accepting b"
  "tb_ids (messageRequester r q b) = tb_ids b" "tb_runnerAcceptRejects (messageRequester r q b) = tb_runnerAcceptRejects b"
  "tb_pendingTaskRequests (messageRequester r q b) = tb_pendingTaskRequests b"
  "tb_pendingTaskOffers (messageRequester r q b) = tb_pendingTaskOffers b" "tb_objects (messageRequester r q b) = tb_objects b"
  "tb_knownRunners (messageRequester r q b) = tb_knownRunners b" "tb_requesters (messageRequester r q b) = tb_requesters b"
  by (simp_all add: messageRequester_def)

lemma sent_messageRunner: "tb_outputs b' = tb_outputs b \<Longrightarrow> P (SendRunner r m) \<Longrightarrow> sent P b (messageRunner r m b')"
  by (auto simp: messageRunner_def intro: sentI)

lemma sent_messageRequester: "tb_outputs b' = tb_outputs b \<Longrightarrow> P (SendRequester r m) \<Longrightarrow> sent P b (messageRequester r m b')"
  by (auto simp: messageRequester_def intro: sentI)

lemma sent_update [simp]: "sent P b (b'\<lparr>tb_tasks := ts\<rparr>) = sent P b b'"
  by (simp add: sent_def)

lemma quiet_messageRunner: "quiet (SendRunner r m) \<Longrightarrow> quiet_step b (messageRunner r m b)"
  by (simp add: quiet_step_def same_calls_def sent_messageRunner)

lemma quiet_messageRequester: "quiet (SendRequester q m) \<Longrightarrow> quiet_step b (messageRequester q m b)"
  by (simp add: quiet_step_def same_calls_def sent_messageRequester)

lemma runner_refused_fields [simp]:
  "tb_runnerAcceptRejects (runner_refused tid why b) = tb_runnerAcceptRejects b" "tb_tasks (runner_refused tid why b) = tb_tasks b"
  "tb_outputs (runner_refused tid why b) = tb_outputs b" "tb_pendingTaskOffers (runner_refused tid why b) = tb_pendingTaskOffers b"
  by (simp_all add: runner_refused_def set_progress_def Let_def split: option.split accept_call.split)

lemma runner_refused_forget:
  "(runner_refused tid why b)\<lparr>tb_runnerAcceptRejects := R\<rparr> = runner_refused tid why (b\<lparr>tb_runnerAcceptRejects := R\<rparr>)"
  by (simp add: runner_refused_def set_progress_def Let_def split: option.split accept_call.split)

definition awaits_runner :: "TaskBroker \<Rightarrow> string \<Rightarrow> bool" where
  "awaits_runner b tid = (case map_get (tb_accepting b) tid of Some (AwaitRunner _ _) \<Rightarrow> True | _ \<Rightarrow> False)"

lemma runner_refused_awaits [simp]: "\<not> awaits_runner (runner_refused tid why b) tid"
  by (simp add: runner_refused_def set_progress_def Let_def awaits_runner_def split: option.split accept_call.split)

lemma settle_request_length [simp]:
  "length (tb_pendingTaskRequests (settle_request nanoid i b)) = length (tb_pendingTaskRequests b)"
  by (simp add: settle_request_def set_progress_def acceptOffer_def Let_def split: option.split)

text \<open>A task request is a message that names a new request.\<close>

definition push_request :: "string \<Rightarrow> string \<Rightarrow> string \<Rightarrow> TaskBroker \<Rightarrow> TaskBroker" where
  "push_request taskType requestId requesterId b =
     b\<lparr>tb_objects := Suc (tb_objects b), tb_pendingTaskRequests := tb_pendingTaskRequests b @
       [\<lparr>request_object = tb_objects b, request_id = requestId, request_requesterId = requesterId,
         request_taskType = taskType, request_acceptInProgress = False\<rparr>]\<rparr>"

fun requested_ids :: "broker_event \<Rightarrow> string list" where
  "requested_ids (RequesterMessage now requesterId (RequesterTaskRequest requestId taskType)) = [requestId]"
| "requested_ids _ = []"

section \<open>Properties kept by every event\<close>

locale broker_invariant =
  fixes nanoid :: "nat \<Rightarrow> string" and I :: "TaskBroker \<Rightarrow> bool" and fresh :: "string \<Rightarrow> TaskBroker \<Rightarrow> bool"
  assumes quiet_kept: "I b \<Longrightarrow> quiet_step b b' \<Longrightarrow> I b'"
    and end_kept: "I b \<Longrightarrow> end_step tid task k b b' \<Longrightarrow> I b'"
    and settings_kept: "I b \<Longrightarrow> awaits_requester b tid \<Longrightarrow> map_get (tb_tasks b) tid = Some task \<Longrightarrow>
      I ((messageRunner runnerId (TaskSettings tid settings) (b\<lparr>tb_tasks := map_set tid (task\<lparr>task_timeout := True\<rparr>) (tb_tasks b)\<rparr>))
        \<lparr>tb_accepting := map_delete tid (tb_accepting b)\<rparr>)"
    and call_ended: "I b \<Longrightarrow> I (b\<lparr>tb_accepting := map_delete tid (tb_accepting b)\<rparr>)"
    and refused_kept: "I b \<Longrightarrow> I (runner_refused tid why b)"
    and forgotten_kept: "I b \<Longrightarrow> \<not> awaits_runner b tid \<Longrightarrow>
      I (b\<lparr>tb_runnerAcceptRejects := set_delete tid (tb_runnerAcceptRejects b)\<rparr>)"
    and accepted_kept: "I b \<Longrightarrow> I (handleRunnerAccept tid b)"
    and settle_kept: "I b \<Longrightarrow> i < length (tb_pendingTaskRequests b) \<Longrightarrow> I (settle_request nanoid i b)"
    and pushed_kept: "I b \<Longrightarrow> fresh requestId b \<Longrightarrow> I (push_request taskType requestId requesterId b)"
begin

lemma cancelTask_kept: "I b \<Longrightarrow> I (cancelTask tid reason b)"
  by (auto simp: cancelTask_def end_step_def same_calls_def sent_messageRunner split: option.split
      intro: end_kept [of b tid _ tid])

lemma failTask_kept: "I b \<Longrightarrow> I (failTask tid e b)"
  by (auto simp: failTask_def end_step_def same_calls_def sent_messageRequester split: option.split
      intro: end_kept [of b tid _ tid])

lemma result_kept:
  assumes "I b" "map_get (tb_tasks b) tid = Some task" "\<And>q. final_for (task_id task) (SendRequester q m)"
  shows "I ((messageRequester q m b)\<lparr>tb_tasks := map_delete (task_id task) (tb_tasks b)\<rparr>)"
  by (rule end_kept [OF assms(1), of tid task "task_id task"])
    (simp add: end_step_def same_calls_def sent_messageRequester assms)

lemma taskDoneHandler_kept: "I b \<Longrightarrow> I (taskDoneHandler tid data b)"
  by (simp add: taskDoneHandler_def result_kept split: option.split)

lemma taskErrorHandler_kept: "I b \<Longrightarrow> I (taskErrorHandler tid e b)"
  by (simp add: taskErrorHandler_def result_kept split: option.split)

lemma messageRunner_kept: "I b \<Longrightarrow> quiet (SendRunner r m) \<Longrightarrow> I (messageRunner r m b)"
  by (rule quiet_kept [OF _ quiet_messageRunner])

lemma messageRequester_kept: "I b \<Longrightarrow> quiet (SendRequester q m) \<Longrightarrow> I (messageRequester q m b)"
  by (rule quiet_kept [OF _ quiet_messageRequester])

lemma output_kept: "I b \<Longrightarrow> quiet x \<Longrightarrow> I (b\<lparr>tb_outputs := tb_outputs b @ [x]\<rparr>)"
  by (erule quiet_kept) (simp add: quiet_step_def same_calls_def sentI(2))

lemma registry_kept:
  assumes "I b"
  shows "I (b\<lparr>tb_knownRunners := rs\<rparr>)" "I (b\<lparr>tb_requesters := qs\<rparr>)" "I (b\<lparr>tb_pendingTaskOffers := offers\<rparr>)"
    "I (b\<lparr>tb_requesterAcceptRejects := accepts\<rparr>)" "I (b\<lparr>tb_knownRunners := rs, tb_pendingTaskOffers := offers\<rparr>)"
  by (rule quiet_kept [OF assms]; simp add: quiet_step_def same_calls_def sentI(1))+

lemma getRunnerOrFailTask_kept: "I b \<Longrightarrow> I (snd (getRunnerOrFailTask tid b))"
  by (auto simp: getRunnerOrFailTask_def Let_def failTask_kept split: option.split)

lemma handleTaskTimeout_kept: "I b \<Longrightarrow> I (handleTaskTimeout config tid b)"
  by (auto simp: handleTaskTimeout_def split: option.split runner_mode.split
      intro!: taskErrorHandler_kept messageRunner_kept output_kept)

lemma refusal_kept:
  assumes "I b"
  shows "I (runner_refused tid why (b\<lparr>tb_runnerAcceptRejects := set_delete tid (tb_runnerAcceptRejects b)\<rparr>))"
  using forgotten_kept [OF refused_kept [OF assms], of tid why tid] by (simp add: runner_refused_forget)

lemma handleRunnerReject_kept: "I b \<Longrightarrow> I (handleRunnerReject tid reason b)"
  by (simp add: handleRunnerReject_def refusal_kept)

lemma handleRunnerDeferred_kept: "I b \<Longrightarrow> I (handleRunnerDeferred tid b)"
  by (simp add: handleRunnerDeferred_def refusal_kept)

lemma requester_refused_kept: "I b \<Longrightarrow> I (requester_refused tid reason b)"
  by (auto simp: requester_refused_def Let_def split: option.split intro!: cancelTask_kept call_ended output_kept)

lemma requester_accepted_kept:
  assumes "I b" "awaits_requester b tid"
  shows "I (requester_accepted tid settings b)"
  using assms settings_kept [OF assms]
  by (auto simp: requester_accepted_def sendTaskSettings_def getRunnerOrFailTask_def Let_def failTask_kept split: option.split
      intro!: requester_refused_kept)

lemma handleRequesterAccept_kept: "I b \<Longrightarrow> I (handleRequesterAccept tid settings b)"
  by (auto simp: handleRequesterAccept_def Let_def awaits_requester_def intro!: requester_accepted_kept registry_kept)

lemma requester_accept_timeout_kept: "I b \<Longrightarrow> I (requester_accept_timeout tid b)"
  by (simp add: requester_accept_timeout_def requester_refused_kept)

lemma settle_fold_kept:
  assumes "I b" "\<forall>i \<in> set is. i < length (tb_pendingTaskRequests b)"
  shows "I (fold (settle_request nanoid) is b)"
  using assms by (induction "is" arbitrary: b) (simp_all add: settle_kept)

lemma settleTasks_kept: "I b \<Longrightarrow> I (settleTasks nanoid now b)"
  by (auto simp: settleTasks_def expireTasks_def Let_def intro!: settle_fold_kept registry_kept)

lemma disconnect_fold_kept: "I b \<Longrightarrow> I (fold (disconnect_task runnerId e) tasks b)"
  by (induction tasks arbitrary: b) (simp_all add: disconnect_task_def failTask_kept handleRunnerReject_kept)

lemma deregisterRunner_kept: "I b \<Longrightarrow> I (deregisterRunner runnerId e b)"
  by (simp add: deregisterRunner_def Let_def disconnect_fold_kept registry_kept)

lemma relay_kept:
  assumes "I b"
  shows "quiet (SendRequester [] m) \<Longrightarrow> I (relay_to_requester tid m b)"
    "quiet (SendRunner [] m') \<Longrightarrow> I (snd (relay_to_runner tid m' b))"
proof -
  assume "quiet (SendRequester [] m)"
  then have "quiet (SendRequester q m)" for q by (cases m) simp_all
  with assms show "I (relay_to_requester tid m b)"
    by (simp add: relay_to_requester_def messageRequester_kept split: option.split)
next
  assume "quiet (SendRunner [] m')"
  then have "quiet (SendRunner r m')" for r by (cases m') simp_all
  then show "I (snd (relay_to_runner tid m' b))"
    using getRunnerOrFailTask_kept [OF assms, of tid]
    by (auto simp: relay_to_runner_def split: prod.split sum.split intro!: messageRunner_kept)
qed

lemma onRunnerMessage_kept: "I b \<Longrightarrow> I (onRunnerMessage nanoid now runnerId message b)"
  by (auto simp: onRunnerMessage.simps handleDataRequest_def handleNodeTypesRequest_def handleRpcRequest_def taskOffered_def
      split: FromRunner.split intro!: accepted_kept handleRunnerReject_kept handleRunnerDeferred_kept settleTasks_kept
      registry_kept taskDoneHandler_kept taskErrorHandler_kept relay_kept)

lemma onRequesterMessage_kept:
  assumes "I b" "\<And>requestId taskType. message = RequesterTaskRequest requestId taskType \<Longrightarrow> fresh requestId b"
  shows "I (snd (onRequesterMessage nanoid now requesterId message b))"
  using assms pushed_kept [OF assms(1)]
  by (cases message) (auto simp: onRequesterMessage.simps handleRequesterDataResponse_def handleRequesterNodeTypesResponse_def
      handleRequesterRpcResponse_def taskRequested_def push_request_def [symmetric]
      intro!: handleRequesterAccept_kept cancelTask_kept settleTasks_kept relay_kept)

theorem event_kept:
  assumes "I b" "\<forall>requestId \<in> set (requested_ids e). fresh requestId b"
  shows "I (handle_event nanoid config e b)"
proof (cases e)
  case (RequesterMessage now requesterId message)
  with assms show ?thesis by (auto intro!: onRequesterMessage_kept)
qed (use assms(1) in \<open>auto simp: registerRunner_def registerRequester_def deregisterRequester_def runner_accept_timeout_def
  intro: messageRunner_kept registry_kept deregisterRunner_kept onRunnerMessage_kept refused_kept
    requester_accept_timeout_kept handleTaskTimeout_kept\<close>)

end

text \<open>The history of a broker.\<close>

definition broker_history :: "(nat \<Rightarrow> string) \<Rightarrow> TaskRunnersConfig \<Rightarrow> broker_event list \<Rightarrow> TaskBroker \<Rightarrow> TaskBroker" where
  "broker_history nanoid config es b = fold (handle_event nanoid config) es b"

end
