(* ===== verification/Task_Broker_Safety.thy ===== *)
theory Task_Broker_Safety
  imports Task_Broker_Events
begin

text \<open>
  What the task broker guarantees whatever its runners and requesters send, and in whatever order
  messages and timers arrive: the requester of a task gets at most one result or error for it, and
  a request leads to at most one announcement of a task.
\<close>

section \<open>Tasks\<close>

definition finals :: "string \<Rightarrow> broker_output list \<Rightarrow> nat" where
  "finals tid outs = length (filter (final_for tid) outs)"

lemma finals_simps [simp]:
  "finals tid [] = 0" "finals tid (outs @ outs') = finals tid outs + finals tid outs'"
  "finals tid [x] = (if final_for tid x then 1 else 0)"
  by (simp_all add: finals_def)

definition known_id :: "TaskBroker \<Rightarrow> string \<Rightarrow> bool" where
  "known_id b tid =
     (map_has (tb_tasks b) tid \<or> map_has (tb_accepting b) tid \<or> tid \<in> set (tb_runnerAcceptRejects b)
      \<or> 0 < finals tid (tb_outputs b))"

definition tasks_inv :: "(nat \<Rightarrow> string) \<Rightarrow> TaskBroker \<Rightarrow> bool" where
  "tasks_inv nanoid b =
     (map_wf (tb_tasks b) \<and> (\<forall>tid t. map_get (tb_tasks b) tid = Some t \<longrightarrow> task_id t = tid)
      \<and> (\<forall>tid. known_id b tid \<longrightarrow> tid \<in> nanoid ` {..<tb_ids b})
      \<and> (\<forall>tid. map_has (tb_tasks b) tid \<longrightarrow> tid \<notin> set (tb_runnerAcceptRejects b))
      \<and> (\<forall>tid. awaits_runner b tid \<longrightarrow> tid \<in> set (tb_runnerAcceptRejects b))
      \<and> (\<forall>tid. finals tid (tb_outputs b) \<le> 1)
      \<and> (\<forall>tid. map_has (tb_tasks b) tid \<or> awaits_runner b tid \<longrightarrow> finals tid (tb_outputs b) = 0))"

lemmas tasks_inv_defs = tasks_inv_def known_id_def awaits_runner_def

lemma finals_sent:
  assumes "sent P b b'"
  shows "finals t (tb_outputs b') \<le> finals t (tb_outputs b) + 1" "finals t (tb_outputs b) \<le> finals t (tb_outputs b')"
    "(\<And>x. P x \<Longrightarrow> \<not> final_for t x) \<Longrightarrow> finals t (tb_outputs b') = finals t (tb_outputs b)"
proof -
  from assms obtain outs where outs: "tb_outputs b' = tb_outputs b @ outs" "length outs \<le> 1" "list_all P outs"
    by (auto simp: sent_def)
  have "finals t outs \<le> length outs" by (simp add: finals_def)
  with outs show "finals t (tb_outputs b') \<le> finals t (tb_outputs b) + 1" "finals t (tb_outputs b) \<le> finals t (tb_outputs b')"
    by simp_all
  show "finals t (tb_outputs b') = finals t (tb_outputs b)" if "\<And>x. P x \<Longrightarrow> \<not> final_for t x"
    using outs that by (auto simp: finals_def list_all_iff)
qed

lemma quiet_not_final: "quiet x \<Longrightarrow> \<not> final_for t x"
  by (cases x rule: quiet.cases) auto

lemma tasks_inv_quiet: "tasks_inv nanoid b \<Longrightarrow> quiet_step b b' \<Longrightarrow> tasks_inv nanoid b'"
  using finals_sent(3) [of quiet b b', OF _ quiet_not_final]
  by (simp add: quiet_step_def same_calls_def tasks_inv_defs)

text \<open>A task ends, with at most one final message for it.\<close>

lemma tasks_inv_end:
  assumes inv: "tasks_inv nanoid b" and "end_step tid task k b b'"
  shows "tasks_inv nanoid b'"
proof -
  have k: "k = tid" "map_has (tb_tasks b) k"
    using assms by (auto simp: end_step_def tasks_inv_def map_has_get)
  have b': "tb_tasks b' = map_delete k (tb_tasks b)" "tb_accepting b' = tb_accepting b" "tb_ids b' = tb_ids b"
    "tb_runnerAcceptRejects b' = tb_runnerAcceptRejects b" and sent: "sent (\<lambda>x. quiet x \<or> final_for k x) b b'"
    using assms(2) k by (auto simp: end_step_def same_calls_def)
  have other: "\<not> final_for t x" if "quiet x \<or> final_for k x" "t \<noteq> k" for t x
    using that by (cases x rule: quiet.cases) auto
  have eq: "finals t (tb_outputs b') = finals t (tb_outputs b)" if "t \<noteq> k" for t
    using finals_sent(3) [OF sent] other that by blast
  have fk: "finals k (tb_outputs b) = 0" "\<not> awaits_runner b k" "known_id b k"
    using inv k by (auto simp: tasks_inv_def known_id_def)
  have le: "finals k (tb_outputs b') \<le> 1" using finals_sent(1) [OF sent, of k] fk(1) by simp
  have aw: "awaits_runner b' t = awaits_runner b t" for t by (simp add: awaits_runner_def b')
  have kn: "known_id b' t \<Longrightarrow> known_id b t" for t
    using eq fk(3) b' by (cases "t = k") (auto simp: known_id_def)
  show ?thesis
    using inv eq le aw kn fk(2) unfolding tasks_inv_def b'
    by (auto simp: tasks_inv_def) (metis)+
qed

lemma settle_request_inv:
  assumes inv: "tasks_inv nanoid b" and "inj nanoid"
  shows "tasks_inv nanoid (settle_request nanoid i b)"
proof -
  let ?n = "nanoid (tb_ids b)"
  have new: "\<not> known_id b ?n"
    using inv \<open>inj nanoid\<close> by (auto simp: tasks_inv_def dest: injD)
  have sub: "nanoid ` {..<Suc (tb_ids b)} = insert ?n (nanoid ` {..<tb_ids b})" by (auto simp: lessThan_Suc)
  have "tasks_inv nanoid (acceptOffer nanoid offer request (b\<lparr>tb_pendingTaskRequests := rs, tb_pendingTaskOffers := os\<rparr>))"
    for offer request rs os
    using inv new by (simp add: acceptOffer_def messageRunner_def Let_def tasks_inv_defs sub) blast
  with inv show ?thesis by (simp add: settle_request_def set_progress_def Let_def split: option.split)
qed

lemma runner_refused_inv: "tasks_inv nanoid b \<Longrightarrow> tasks_inv nanoid (runner_refused tid why b)"
  by (auto simp: runner_refused_def tasks_inv_defs set_progress_def Let_def split: option.splits accept_call.splits)

lemma forget_runner_inv:
  assumes "tasks_inv nanoid b" "\<not> awaits_runner b tid"
  shows "tasks_inv nanoid (b\<lparr>tb_runnerAcceptRejects := set_delete tid (tb_runnerAcceptRejects b)\<rparr>)"
  using assms by (auto simp: tasks_inv_defs)

text \<open>What an accepted offer leaves, whether or not its request is still pending.\<close>

lemma accepted_inv:
  assumes inv: "tasks_inv nanoid b" and tid: "awaits_runner b tid" and "task_id task = tid"
    and "tb_tasks b' = map_set tid task (tb_tasks b)" "\<And>t. t \<noteq> tid \<Longrightarrow> map_get (tb_accepting b') t = map_get (tb_accepting b) t"
    "\<not> awaits_runner b' tid" "tb_ids b' = tb_ids b" "tb_runnerAcceptRejects b' = set_delete tid (tb_runnerAcceptRejects b)"
    "\<And>t. finals t (tb_outputs b') = finals t (tb_outputs b)"
  shows "tasks_inv nanoid b'"
proof -
  have aw: "awaits_runner b' t \<longleftrightarrow> t \<noteq> tid \<and> awaits_runner b t" for t
    using assms(5) [of t] assms(6) by (cases "t = tid") (simp_all add: awaits_runner_def)
  have tid': "tid \<in> set (tb_runnerAcceptRejects b)" "finals tid (tb_outputs b) = 0" "known_id b tid"
    using inv tid by (auto simp: tasks_inv_def known_id_def)
  have kn: "known_id b' t \<Longrightarrow> known_id b t" for t
    using tid'(3) assms(5) [of t] by (cases "t = tid") (auto simp: known_id_def map_has_def assms)
  have tk: "map_get (tb_tasks b') t = Some x \<Longrightarrow> task_id x = t" for t x
    using inv \<open>task_id task = tid\<close> by (cases "t = tid") (auto simp: assms(4) tasks_inv_def)
  from inv have old: "\<And>t. known_id b t \<Longrightarrow> t \<in> nanoid ` {..<tb_ids b}"
    "\<And>t. map_has (tb_tasks b) t \<Longrightarrow> t \<notin> set (tb_runnerAcceptRejects b)" "\<And>t. finals t (tb_outputs b) \<le> 1"
    "\<And>t. awaits_runner b t \<Longrightarrow> t \<in> set (tb_runnerAcceptRejects b)"
    "\<And>t. map_has (tb_tasks b) t \<or> awaits_runner b t \<Longrightarrow> finals t (tb_outputs b) = 0" "map_wf (tb_tasks b)"
    unfolding tasks_inv_def by blast+
  show ?thesis
    unfolding tasks_inv_def
  proof (intro conjI allI impI)
    fix t
    show "finals t (tb_outputs b') = 0" if "map_has (tb_tasks b') t \<or> awaits_runner b' t"
      using that tid'(2) old(5) [of t] by (auto simp: assms(4,9) aw)
  qed (use tk kn old aw in \<open>auto simp: assms(4,7,8,9)\<close>)
qed

lemma handleRunnerAccept_inv: "tasks_inv nanoid b \<Longrightarrow> tasks_inv nanoid (handleRunnerAccept tid b)"
proof (cases "awaits_runner b tid")
  case False
  moreover assume "tasks_inv nanoid b"
  ultimately show ?thesis
    by (auto simp: handleRunnerAccept_def runner_accepted_def awaits_runner_def split: option.splits accept_call.splits
        intro!: forget_runner_inv)
next
  case True
  moreover assume inv: "tasks_inv nanoid b"
  ultimately have mem: "tid \<in> set (tb_runnerAcceptRejects b)" by (simp add: tasks_inv_def)
  from True obtain offer request where aw: "map_get (tb_accepting b) tid = Some (AwaitRunner offer request)"
    by (auto simp: awaits_runner_def split: option.splits accept_call.splits)
  let ?task = "\<lparr>task_id = tid, task_runnerId = offer_runnerId offer, task_requesterId = request_requesterId request,
    task_taskType = offer_taskType offer, task_timeout = False\<rparr>"
  show ?thesis
    by (rule accepted_inv [OF inv True, where task = ?task])
      (simp_all add: handleRunnerAccept_def runner_accepted_def awaits_runner_def aw mem messageRequester_def Let_def
        split: option.split)
qed

interpretation tasks: broker_invariant nanoid "\<lambda>b. inj nanoid \<and> tasks_inv nanoid b" "\<lambda>_ _. True" for nanoid
proof
  fix b tid and task :: Task and runnerId settings
  assume "inj nanoid \<and> tasks_inv nanoid b" "map_get (tb_tasks b) tid = Some task"
  then show "inj nanoid \<and> tasks_inv nanoid ((messageRunner runnerId (TaskSettings tid settings)
      (b\<lparr>tb_tasks := map_set tid (task\<lparr>task_timeout := True\<rparr>) (tb_tasks b)\<rparr>))\<lparr>tb_accepting := map_delete tid (tb_accepting b)\<rparr>)"
    by (auto simp: tasks_inv_defs map_has_get messageRunner_def)
next
  fix b tid
  assume "inj nanoid \<and> tasks_inv nanoid b"
  then show "inj nanoid \<and> tasks_inv nanoid (b\<lparr>tb_accepting := map_delete tid (tb_accepting b)\<rparr>)"
    by (auto simp: tasks_inv_defs split: option.splits)
next
  fix b requestId taskType requesterId
  assume "inj nanoid \<and> tasks_inv nanoid b"
  then show "inj nanoid \<and> tasks_inv nanoid (push_request taskType requestId requesterId b)"
    by (simp add: push_request_def tasks_inv_defs)
qed (auto intro: tasks_inv_quiet tasks_inv_end runner_refused_inv forget_runner_inv handleRunnerAccept_inv settle_request_inv)

lemma new_TaskBroker_inv: "new_TaskBroker config = Inr b \<Longrightarrow> tasks_inv nanoid b"
  by (auto simp: new_TaskBroker_def tasks_inv_defs map_has_def split: if_splits)

lemma history_tasks_inv:
  assumes "inj nanoid" "tasks_inv nanoid b"
  shows "tasks_inv nanoid (broker_history nanoid config es b)"
  using assms(2) unfolding broker_history_def
  by (induction es arbitrary: b) (use assms(1) tasks.event_kept in auto)

end
