(* ===== verification/Task_Broker_Requests.thy ===== *)
theory Task_Broker_Requests
  imports Task_Broker_Events
begin

text \<open>
  A task request leads to at most one task: while a call of \<open>acceptOffer\<close> waits for a runner, the
  flag \<open>acceptInProgress\<close> of its request keeps \<open>settleTasks\<close> from starting a second one, although a
  deferred request stays in the list twice.
\<close>

definition awaited :: "TaskBroker \<Rightarrow> string \<Rightarrow> TaskRequest option" where
  "awaited b tid = (case map_get (tb_accepting b) tid of Some (AwaitRunner _ request) \<Rightarrow> Some request | _ \<Rightarrow> None)"

definition known_request :: "TaskBroker \<Rightarrow> TaskRequest \<Rightarrow> bool" where
  "known_request b r = (r \<in> set (tb_pendingTaskRequests b) \<or> (\<exists>tid. awaited b tid = Some r))"

fun ready_for :: "string \<Rightarrow> broker_output \<Rightarrow> bool" where
  "ready_for rid (SendRequester q (TaskReady r t)) = (r = rid)"
| "ready_for rid _ = False"

definition readies :: "string \<Rightarrow> broker_output list \<Rightarrow> nat" where
  "readies rid outs = length (filter (ready_for rid) outs)"

lemma readies_simps [simp]:
  "readies rid [] = 0" "readies rid (outs @ outs') = readies rid outs + readies rid outs'"
  "readies rid [x] = (if ready_for rid x then 1 else 0)"
  by (simp_all add: readies_def)

text \<open>Requests are told apart by their names as by their identity.\<close>

definition requests_named :: "string set \<Rightarrow> TaskBroker \<Rightarrow> bool" where
  "requests_named S b =
     ((\<forall>r r'. known_request b r \<and> known_request b r' \<longrightarrow> (request_id r = request_id r') = (request_object r = request_object r'))
      \<and> (\<forall>r. known_request b r \<longrightarrow> request_object r < tb_objects b \<and> request_id r \<in> S)
      \<and> (\<forall>rid. 0 < readies rid (tb_outputs b) \<longrightarrow> rid \<in> S))"

definition requests_once :: "TaskBroker \<Rightarrow> bool" where
  "requests_once b =
     ((\<forall>t t' r r'. awaited b t = Some r \<and> awaited b t' = Some r' \<and> request_id r = request_id r' \<longrightarrow> t = t')
      \<and> (\<forall>t r. awaited b t = Some r \<longrightarrow> readies (request_id r) (tb_outputs b) = 0
           \<and> request_id r \<in> request_id ` set (tb_pendingTaskRequests b)
           \<and> (\<forall>p \<in> set (tb_pendingTaskRequests b). request_id p = request_id r \<longrightarrow> request_acceptInProgress p))
      \<and> (\<forall>p \<in> set (tb_pendingTaskRequests b). \<not> request_acceptInProgress p \<longrightarrow> readies (request_id p) (tb_outputs b) = 0)
      \<and> (\<forall>rid. readies rid (tb_outputs b) \<le> 1))"

definition requests_inv :: "string set \<Rightarrow> TaskBroker \<Rightarrow> bool" where
  "requests_inv S b = (requests_named S b \<and> requests_once b)"

definition fresh_request :: "string set \<Rightarrow> string \<Rightarrow> TaskBroker \<Rightarrow> bool" where
  "fresh_request S rid b =
     (rid \<in> S \<and> (\<forall>r. known_request b r \<longrightarrow> request_id r \<noteq> rid) \<and> readies rid (tb_outputs b) = 0)"

text \<open>Names stay told apart when every request comes from one with the same name and identity.\<close>

lemma requests_named_step:
  assumes "requests_named S b" "tb_objects b' = tb_objects b"
    "\<And>r. known_request b' r \<Longrightarrow> \<exists>r0. known_request b r0 \<and> request_id r0 = request_id r \<and> request_object r0 = request_object r"
    "\<And>rid. 0 < readies rid (tb_outputs b') \<Longrightarrow> 0 < readies rid (tb_outputs b) \<or> (\<exists>r. known_request b r \<and> request_id r = rid)"
  shows "requests_named S b'"
proof -
  from assms(1) have old: "\<And>r r'. known_request b r \<Longrightarrow> known_request b r' \<Longrightarrow>
      (request_id r = request_id r') = (request_object r = request_object r')"
    "\<And>r. known_request b r \<Longrightarrow> request_object r < tb_objects b \<and> request_id r \<in> S"
    "\<And>rid. 0 < readies rid (tb_outputs b) \<Longrightarrow> rid \<in> S"
    unfolding requests_named_def by blast+
  have "(request_id r = request_id r') = (request_object r = request_object r')"
    if "known_request b' r" "known_request b' r'" for r r'
    using assms(3) [OF that(1)] assms(3) [OF that(2)] old(1) by metis
  moreover have "request_object r < tb_objects b' \<and> request_id r \<in> S" if "known_request b' r" for r
    using assms(3) [OF that] old(2) by (metis assms(2))
  moreover have "rid \<in> S" if "0 < readies rid (tb_outputs b')" for rid
    using assms(4) [OF that] old(2,3) by blast
  ultimately show ?thesis by (simp add: requests_named_def)
qed

lemma quiet_not_ready: "quiet x \<or> final_for t x \<Longrightarrow> \<not> ready_for rid x"
  by (cases x rule: quiet.cases) auto

lemma readies_sent:
  assumes "sent P b b'" "\<And>x. P x \<Longrightarrow> \<not> ready_for rid x"
  shows "readies rid (tb_outputs b') = readies rid (tb_outputs b)"
  using assms by (auto simp: sent_def readies_def list_all_iff)

lemma requests_inv_cong:
  assumes "tb_pendingTaskRequests b' = tb_pendingTaskRequests b" "tb_objects b' = tb_objects b"
    "\<And>tid. awaited b' tid = awaited b tid \<or> awaited b' tid = None"
    "\<And>rid. readies rid (tb_outputs b') = readies rid (tb_outputs b)" "requests_inv S b"
  shows "requests_inv S b'"
proof -
  have aw: "awaited b' tid = Some r \<Longrightarrow> awaited b tid = Some r" for tid r using assms(3) [of tid] by auto
  have kn: "known_request b' r \<Longrightarrow> known_request b r" for r using aw assms(1) by (auto simp: known_request_def)
  have "requests_named S b'"
    by (rule requests_named_step [of S b]) (use kn assms in \<open>auto simp: requests_inv_def\<close>)
  moreover have "requests_once b'"
    using assms(5) aw unfolding requests_inv_def requests_once_def assms(1,4) by blast
  ultimately show ?thesis by (simp add: requests_inv_def)
qed

lemma requests_invD:
  assumes "requests_inv S b"
  shows "\<And>r r'. known_request b r \<Longrightarrow> known_request b r' \<Longrightarrow> (request_id r = request_id r') = (request_object r = request_object r')"
    "\<And>t t' r r'. awaited b t = Some r \<Longrightarrow> awaited b t' = Some r' \<Longrightarrow> request_id r = request_id r' \<Longrightarrow> t = t'"
    "\<And>t r. awaited b t = Some r \<Longrightarrow> readies (request_id r) (tb_outputs b) = 0"
    "\<And>t r p. awaited b t = Some r \<Longrightarrow> p \<in> set (tb_pendingTaskRequests b) \<Longrightarrow> request_id p = request_id r \<Longrightarrow>
      request_acceptInProgress p"
    "\<And>p. p \<in> set (tb_pendingTaskRequests b) \<Longrightarrow> \<not> request_acceptInProgress p \<Longrightarrow> readies (request_id p) (tb_outputs b) = 0"
    "\<And>rid. readies rid (tb_outputs b) \<le> 1"
    "\<And>t r. awaited b t = Some r \<Longrightarrow> request_id r \<in> request_id ` set (tb_pendingTaskRequests b)"
  using assms unfolding requests_inv_def requests_named_def requests_once_def by blast+

lemma known_requestI:
  "r \<in> set (tb_pendingTaskRequests b) \<Longrightarrow> known_request b r" "awaited b t = Some r \<Longrightarrow> known_request b r"
  by (auto simp: known_request_def)

lemma runner_refused_awaited: "awaited (runner_refused tid why b) t = (if t = tid then None else awaited b t)"
  by (simp add: runner_refused_def awaited_def set_progress_def Let_def split: option.split accept_call.split)

lemma runner_refused_objects [simp]: "tb_objects (runner_refused tid why b) = tb_objects b"
  by (simp add: runner_refused_def set_progress_def Let_def split: option.split accept_call.split)

lemma set_progress_ids [simp]:
  "request_id ` set (tb_pendingTaskRequests (set_progress ob v b)) = request_id ` set (tb_pendingTaskRequests b)"
proof -
  have "map request_id (tb_pendingTaskRequests (set_progress ob v b)) = map request_id (tb_pendingTaskRequests b)"
    by (simp add: set_progress_def)
  then show ?thesis by (metis set_map)
qed

lemma runner_refused_ids:
  "request_id ` set (tb_pendingTaskRequests b) \<subseteq> request_id ` set (tb_pendingTaskRequests (runner_refused tid why b))"
  using set_progress_ids [of _ False "b\<lparr>tb_accepting := map_delete tid (tb_accepting b)\<rparr>"]
  by (auto simp: runner_refused_def Let_def split: option.split accept_call.split)

text \<open>A refused request is no longer in progress anywhere, and nothing else changes.\<close>

lemma runner_refused_pending:
  assumes "awaited b tid = Some rq" "p \<in> set (tb_pendingTaskRequests (runner_refused tid why b))"
  shows "p \<in> set (tb_pendingTaskRequests b) \<and> request_object p \<noteq> request_object rq
    \<or> \<not> request_acceptInProgress p \<and> request_object p = request_object rq
      \<and> (\<exists>p0. known_request b p0 \<and> request_id p0 = request_id p \<and> request_object p0 = request_object p)"
proof -
  from assms(1) obtain offer where acc: "map_get (tb_accepting b) tid = Some (AwaitRunner offer rq)"
    by (auto simp: awaited_def split: option.splits accept_call.splits)
  then have "p = rq\<lparr>request_acceptInProgress := False\<rparr> \<or> (\<exists>p0 \<in> set (tb_pendingTaskRequests b).
      p = (if request_object p0 = request_object rq then p0\<lparr>request_acceptInProgress := False\<rparr> else p0))"
    using assms(2) by (auto simp: runner_refused_def set_progress_def Let_def split: if_splits)
  then show ?thesis
  proof
    assume p: "p = rq\<lparr>request_acceptInProgress := False\<rparr>"
    with known_requestI(2) [OF assms(1)] show ?thesis by auto
  next
    assume "\<exists>p0 \<in> set (tb_pendingTaskRequests b).
      p = (if request_object p0 = request_object rq then p0\<lparr>request_acceptInProgress := False\<rparr> else p0)"
    then obtain p0 where p0: "p0 \<in> set (tb_pendingTaskRequests b)"
      "p = (if request_object p0 = request_object rq then p0\<lparr>request_acceptInProgress := False\<rparr> else p0)" ..
    with known_requestI(1) [OF p0(1)] show ?thesis by (cases "request_object p0 = request_object rq") auto
  qed
qed

lemma requests_inv_refused:
  assumes inv: "requests_inv S b"
  shows "requests_inv S (runner_refused tid why b)"
proof (cases "awaited b tid")
  case None
  then have "runner_refused tid why b = b"
    by (auto simp: runner_refused_def awaited_def split: option.splits accept_call.splits)
  with inv show ?thesis by simp
next
  case (Some rq)
  let ?b' = "runner_refused tid why b"
  note D = requests_invD [OF inv]
  note pend = runner_refused_pending [OF Some]
  have "requests_named S ?b'"
    by (rule requests_named_step [of S b])
      (use inv pend in \<open>auto simp: requests_inv_def known_request_def runner_refused_awaited split: if_splits\<close>)
  moreover have "requests_once ?b'"
    unfolding requests_once_def
  proof (intro conjI allI ballI impI)
    fix t r p
    assume t: "awaited ?b' t = Some r"
    then have old: "t \<noteq> tid" "awaited b t = Some r" by (simp_all add: runner_refused_awaited split: if_splits)
    then show "readies (request_id r) (tb_outputs ?b') = 0" using D(3) by simp
    show "request_id r \<in> request_id ` set (tb_pendingTaskRequests ?b')" using D(7) [OF old(2)] runner_refused_ids by blast
    assume p: "p \<in> set (tb_pendingTaskRequests ?b')" "request_id p = request_id r"
    have "request_object p \<noteq> request_object rq"
      using D(1) [OF known_requestI(2) [OF Some]] D(2) [OF Some old(2)] pend [OF p(1)] old p(2) known_requestI
      by metis
    with pend [OF p(1)] D(4) [OF old(2)] p(2) show "request_acceptInProgress p" by blast
  next
    fix p
    assume p: "p \<in> set (tb_pendingTaskRequests ?b')" "\<not> request_acceptInProgress p"
    have "request_id p = request_id rq" if "request_object p = request_object rq"
      using pend [OF p(1)] D(1) [OF known_requestI(2) [OF Some]] that by metis
    with pend [OF p(1)] D(3) [OF Some] D(5) p(2) show "readies (request_id p) (tb_outputs ?b') = 0"
      by (auto simp: known_requestI)
  qed (use D(2,6) in \<open>auto simp: runner_refused_awaited split: if_splits\<close>)
  ultimately show ?thesis by (simp add: requests_inv_def)
qed

text \<open>The task of a request is announced: the request that was in progress waits no longer.\<close>

lemma requests_inv_ready:
  assumes inv: "requests_inv S b" and tid: "awaited b tid = Some rq"
    and "set (tb_pendingTaskRequests b') \<subseteq> set (tb_pendingTaskRequests b)" "tb_objects b' = tb_objects b"
    "\<And>p. p \<in> set (tb_pendingTaskRequests b) \<Longrightarrow> request_id p \<noteq> request_id rq \<Longrightarrow> p \<in> set (tb_pendingTaskRequests b')"
    "\<And>t. awaited b' t = (if t = tid then None else awaited b t)"
    "\<And>rid. rid \<noteq> request_id rq \<Longrightarrow> readies rid (tb_outputs b') = readies rid (tb_outputs b)"
    "readies (request_id rq) (tb_outputs b') \<le> 1"
  shows "requests_inv S b'"
proof -
  note D = requests_invD [OF inv]
  have kn: "known_request b' r \<Longrightarrow> known_request b r" for r
    using assms(3,6) by (auto simp: known_request_def split: if_splits)
  have "requests_named S b'"
  proof (rule requests_named_step [of S b])
    show "0 < readies rid (tb_outputs b) \<or> (\<exists>r. known_request b r \<and> request_id r = rid)" if "0 < readies rid (tb_outputs b')" for rid
      using that assms(7) [of rid] known_requestI(2) [OF tid] by (cases "rid = request_id rq") auto
  qed (use inv kn assms(4) in \<open>auto simp: requests_inv_def\<close>)
  moreover have "requests_once b'"
    unfolding requests_once_def
  proof (intro conjI allI ballI impI)
    fix t r p
    assume "awaited b' t = Some r"
    then have old: "t \<noteq> tid" "awaited b t = Some r" using assms(6) [of t] by (simp_all split: if_splits)
    with D(2) [OF tid old(2)] have "request_id r \<noteq> request_id rq" by auto
    with D(3) [OF old(2)] show "readies (request_id r) (tb_outputs b') = 0" by (simp add: assms(7))
    show "request_id r \<in> request_id ` set (tb_pendingTaskRequests b')"
      using D(7) [OF old(2)] assms(5) \<open>request_id r \<noteq> request_id rq\<close> by fastforce
    assume "p \<in> set (tb_pendingTaskRequests b')" "request_id p = request_id r"
    with D(4) [OF old(2)] assms(3) show "request_acceptInProgress p" by blast
  next
    fix p
    assume p: "p \<in> set (tb_pendingTaskRequests b')" "\<not> request_acceptInProgress p"
    with D(4) [OF tid] assms(3) have "request_id p \<noteq> request_id rq" by blast
    with D(5) p assms(3) show "readies (request_id p) (tb_outputs b') = 0" by (auto simp: assms(7))
  next
    fix rid
    show "readies rid (tb_outputs b') \<le> 1"
      using D(6) [of rid] assms(7) [of rid] assms(8) by (cases "rid = request_id rq") simp_all
  qed (use D(2) assms(6) in \<open>auto split: if_splits\<close>)
  ultimately show ?thesis by (simp add: requests_inv_def)
qed

lemma requests_inv_accepted:
  assumes inv: "requests_inv S b"
  shows "requests_inv S (handleRunnerAccept tid b)"
proof (cases "tid \<in> set (tb_runnerAcceptRejects b) \<and> awaited b tid \<noteq> None")
  case False
  then have "awaited (handleRunnerAccept tid b) t = awaited b t"
    "tb_pendingTaskRequests (handleRunnerAccept tid b) = tb_pendingTaskRequests b"
    "tb_objects (handleRunnerAccept tid b) = tb_objects b" "tb_outputs (handleRunnerAccept tid b) = tb_outputs b" for t
    by (auto simp: handleRunnerAccept_def runner_accepted_def awaited_def split: option.splits accept_call.splits)
  then show ?thesis by (intro requests_inv_cong [OF _ _ _ _ inv]) simp_all
next
  case True
  then obtain offer rq where acc: "map_get (tb_accepting b) tid = Some (AwaitRunner offer rq)" and
    mem: "tid \<in> set (tb_runnerAcceptRejects b)" by (auto simp: awaited_def split: option.splits accept_call.splits)
  then have tid: "awaited b tid = Some rq" by (simp add: awaited_def)
  have keeps: "p \<in> set (splice i (tb_pendingTaskRequests b))"
    if "p \<in> set (tb_pendingTaskRequests b)" "request_id p \<noteq> request_id rq"
      "find_index (\<lambda>r. request_id r = request_id rq) (tb_pendingTaskRequests b) = Some i" for p i
    using find_index_Some [OF that(3)] that(1,2) by (intro splice_other) auto
  show ?thesis
    by (rule requests_inv_ready [OF inv tid])
      (use requests_invD(3) [OF inv tid] set_splice keeps in
        \<open>auto simp: handleRunnerAccept_def runner_accepted_def acc mem awaited_def messageRequester_def Let_def split: option.split\<close>)
qed

text \<open>An offer is accepted for a request: all its copies are now in progress.\<close>

lemma acceptOffer_awaited:
  "awaited (acceptOffer nanoid offer rq b) t = (if t = nanoid (tb_ids b) then Some rq else awaited b t)"
  by (simp add: acceptOffer_def awaited_def Let_def)

lemma acceptOffer_fields [simp]:
  "tb_pendingTaskRequests (acceptOffer nanoid offer rq b) = tb_pendingTaskRequests b"
  "tb_objects (acceptOffer nanoid offer rq b) = tb_objects b" "tb_pendingTaskOffers (acceptOffer nanoid offer rq b) = tb_pendingTaskOffers b"
  "readies rid (tb_outputs (acceptOffer nanoid offer rq b)) = readies rid (tb_outputs b)"
  by (simp_all add: acceptOffer_def Let_def messageRunner_def)

lemma requests_named_offer:
  assumes "requests_named S b" and rq: "rq \<in> set (tb_pendingTaskRequests b)"
    and "tb_objects b' = tb_objects b" "\<And>rid. readies rid (tb_outputs b') = readies rid (tb_outputs b)"
    "\<And>t. awaited b' t = (if t = n then Some (rq\<lparr>request_acceptInProgress := True\<rparr>) else awaited b t)"
    and pend: "\<And>p. p \<in> set (tb_pendingTaskRequests b') \<Longrightarrow>
      \<exists>p0 \<in> set (tb_pendingTaskRequests b). request_id p0 = request_id p \<and> request_object p0 = request_object p"
  shows "requests_named S b'"
proof (rule requests_named_step [OF assms(1,3)])
  fix r
  assume "known_request b' r"
  then consider (pending) "r \<in> set (tb_pendingTaskRequests b')" | (new) "awaited b' n = Some r" | (awaited) t where "awaited b t = Some r"
    by (auto simp: known_request_def assms(5) split: if_splits)
  then show "\<exists>r0. known_request b r0 \<and> request_id r0 = request_id r \<and> request_object r0 = request_object r"
  proof cases
    case pending
    from pend [OF this] show ?thesis by (auto intro: known_requestI(1))
  next
    case new
    with known_requestI(1) [OF rq] show ?thesis by (auto simp: assms(5))
  next
    case awaited
    then show ?thesis by (auto intro: known_requestI(2))
  qed
qed (use assms(4) in auto)

lemma requests_inv_offer:
  assumes inv: "requests_inv S b" and rq: "rq \<in> set (tb_pendingTaskRequests b)" "\<not> request_acceptInProgress rq"
    and "tb_objects b' = tb_objects b" "\<And>rid. readies rid (tb_outputs b') = readies rid (tb_outputs b)"
    "\<And>t. awaited b' t = (if t = n then Some (rq\<lparr>request_acceptInProgress := True\<rparr>) else awaited b t)"
    "tb_pendingTaskRequests b' = tb_pendingTaskRequests (set_progress (request_object rq) True b)"
  shows "requests_inv S b'"
proof -
  note D = requests_invD [OF inv]
  have pend: "\<exists>p0 \<in> set (tb_pendingTaskRequests b). request_id p0 = request_id p \<and> request_object p0 = request_object p
      \<and> request_acceptInProgress p = (request_acceptInProgress p0 \<or> request_object p0 = request_object rq)"
    if "p \<in> set (tb_pendingTaskRequests b')" for p
    using that by (auto simp: assms(7) set_progress_def split: if_splits intro: bexI)
  have same: "request_object p0 = request_object rq \<longleftrightarrow> request_id p0 = request_id rq"
    if "p0 \<in> set (tb_pendingTaskRequests b)" for p0
    using D(1) [OF known_requestI(1) known_requestI(1), OF that rq(1)] by simp
  have idle: "request_id r \<noteq> request_id rq" if "awaited b t = Some r" for t r
    using D(4) [OF that rq(1)] rq(2) by auto
  have "requests_named S b'"
    by (rule requests_named_offer [OF _ rq(1) assms(4,5,6)]) (use inv pend in \<open>auto simp: requests_inv_def\<close>)
  moreover have "requests_once b'"
    unfolding requests_once_def assms(5)
  proof (intro conjI allI ballI impI)
    fix t r p
    assume t: "awaited b' t = Some r"
    show "readies (request_id r) (tb_outputs b) = 0"
      using t D(3,5) rq by (auto simp: assms(6) split: if_splits)
    show "request_id r \<in> request_id ` set (tb_pendingTaskRequests b')"
      using t D(7) rq(1) unfolding assms(7) set_progress_ids by (auto simp: assms(6) split: if_splits)
    assume p: "p \<in> set (tb_pendingTaskRequests b')" "request_id p = request_id r"
    from pend [OF p(1)] show "request_acceptInProgress p"
      using t p(2) D(4) same by (fastforce simp: assms(6) split: if_splits)
  next
    fix p
    assume "p \<in> set (tb_pendingTaskRequests b')" "\<not> request_acceptInProgress p"
    then show "readies (request_id p) (tb_outputs b) = 0" using pend D(5) by metis
  next
    fix t t' r r'
    assume two: "awaited b' t = Some r \<and> awaited b' t' = Some r' \<and> request_id r = request_id r'"
    then show "t = t'" using idle [of t r] idle [of t' r'] D(2) [of t r t' r']
      by (cases "t = n"; cases "t' = n") (auto simp: assms(6))
  qed (rule D(6))
  ultimately show ?thesis by (simp add: requests_inv_def)
qed

lemma requests_inv_settle:
  assumes inv: "requests_inv S b" and i: "i < length (tb_pendingTaskRequests b)"
  shows "requests_inv S (settle_request nanoid i b)"
proof -
  let ?rq = "tb_pendingTaskRequests b ! i"
  have "requests_inv S (acceptOffer nanoid offer (?rq\<lparr>request_acceptInProgress := True\<rparr>)
      ((set_progress (request_object ?rq) True b)\<lparr>tb_pendingTaskOffers := os\<rparr>))"
    if "\<not> request_acceptInProgress ?rq" for offer os
    by (rule requests_inv_offer [OF inv nth_mem [OF i] that, of _ "nanoid (tb_ids b)"])
      (simp_all add: set_progress_def acceptOffer_awaited, simp add: awaited_def)
  with inv show ?thesis by (simp add: settle_request_def Let_def split: option.split)
qed

text \<open>A new request.\<close>

lemma requests_inv_pushed:
  assumes inv: "requests_inv S b" and fresh: "fresh_request S rid b"
  shows "requests_inv S (push_request taskType rid requesterId b)"
proof -
  let ?b' = "push_request taskType rid requesterId b"
  have kn: "known_request ?b' r \<longleftrightarrow> known_request b r \<or> r = \<lparr>request_object = tb_objects b, request_id = rid,
      request_requesterId = requesterId, request_taskType = taskType, request_acceptInProgress = False\<rparr>" for r
    by (auto simp: known_request_def push_request_def awaited_def)
  have "requests_named S ?b'"
    using inv fresh unfolding requests_inv_def requests_named_def kn fresh_request_def
    by (auto simp: push_request_def)
  moreover have "requests_once ?b'"
    using inv fresh unfolding requests_inv_def requests_once_def fresh_request_def
    by (auto simp: push_request_def awaited_def known_request_def)
  ultimately show ?thesis by (simp add: requests_inv_def)
qed

interpretation requests: broker_invariant nanoid "requests_inv S" "fresh_request S" for nanoid S
proof
  fix b b'
  assume inv: "requests_inv S b" and "quiet_step b b'"
  then have "readies rid (tb_outputs b') = readies rid (tb_outputs b)" for rid
    using quiet_not_ready by (auto simp: quiet_step_def intro!: readies_sent [of quiet])
  with \<open>quiet_step b b'\<close> show "requests_inv S b'"
    by (intro requests_inv_cong [OF _ _ _ _ inv]) (auto simp: quiet_step_def same_calls_def awaited_def)
next
  fix b b' tid task k
  assume inv: "requests_inv S b" and "end_step tid task k b b'"
  then have "readies rid (tb_outputs b') = readies rid (tb_outputs b)" for rid
    by (intro readies_sent [of "\<lambda>x. quiet x \<or> final_for k x"] quiet_not_ready) (simp_all add: end_step_def)
  with \<open>end_step tid task k b b'\<close> show "requests_inv S b'"
    by (intro requests_inv_cong [OF _ _ _ _ inv]) (auto simp: end_step_def same_calls_def awaited_def)
next
  fix b tid and task :: Task and runnerId settings
  assume "requests_inv S b"
  then show "requests_inv S ((messageRunner runnerId (TaskSettings tid settings)
      (b\<lparr>tb_tasks := map_set tid (task\<lparr>task_timeout := True\<rparr>) (tb_tasks b)\<rparr>))\<lparr>tb_accepting := map_delete tid (tb_accepting b)\<rparr>)"
    by (rule requests_inv_cong [rotated -1]) (simp_all add: awaited_def messageRunner_def)
next
  fix b tid
  assume "requests_inv S b"
  then show "requests_inv S (b\<lparr>tb_accepting := map_delete tid (tb_accepting b)\<rparr>)"
    by (rule requests_inv_cong [rotated -1]) (simp_all add: awaited_def)
next
  fix b tid
  assume "requests_inv S b"
  then show "requests_inv S (b\<lparr>tb_runnerAcceptRejects := set_delete tid (tb_runnerAcceptRejects b)\<rparr>)"
    by (rule requests_inv_cong [rotated -1]) (simp_all add: awaited_def)
qed (auto intro: requests_inv_refused requests_inv_accepted requests_inv_settle requests_inv_pushed)

lemma new_TaskBroker_requests_inv: "new_TaskBroker config = Inr b \<Longrightarrow> requests_inv S b"
  by (auto simp: new_TaskBroker_def requests_inv_def requests_named_def requests_once_def known_request_def awaited_def
      split: if_splits)

lemma requests_inv_mono:
  assumes "requests_inv S b" "S \<subseteq> S'"
  shows "requests_inv S' b"
  using assms unfolding requests_inv_def requests_named_def by blast

lemma requests_inv_fresh: "requests_inv S b \<Longrightarrow> rid \<notin> S \<Longrightarrow> rid \<in> S' \<Longrightarrow> fresh_request S' rid b"
  unfolding requests_inv_def requests_named_def fresh_request_def by auto

lemma history_requests_inv:
  assumes "requests_inv S b" "distinct (concat (map requested_ids es))" "\<forall>e \<in> set es. set (requested_ids e) \<inter> S = {}"
  shows "requests_inv (S \<union> set (concat (map requested_ids es))) (broker_history nanoid config es b)"
  using assms unfolding broker_history_def
proof (induction es arbitrary: S b)
  case (Cons e es)
  let ?S = "S \<union> set (requested_ids e)"
  have "requests_inv ?S (handle_event nanoid config e b)"
  proof (rule requests.event_kept)
    show "requests_inv ?S b" using Cons.prems(1) by (rule requests_inv_mono) simp
    show "\<forall>rid \<in> set (requested_ids e). fresh_request ?S rid b"
      using Cons.prems(3) by (auto intro!: requests_inv_fresh [OF Cons.prems(1)])
  qed
  moreover have "\<forall>e' \<in> set es. set (requested_ids e') \<inter> ?S = {}" using Cons.prems(2,3) by auto
  ultimately have "requests_inv (?S \<union> set (concat (map requested_ids es)))
      (fold (handle_event nanoid config) es (handle_event nanoid config e b))"
    using Cons.prems(2) by (intro Cons.IH) auto
  then show ?case by (simp add: Un_assoc)
qed simp

end
