(* ===== verification/Task_Broker_Matching.thy ===== *)
theory Task_Broker_Matching
  imports Task_Broker_Safety Task_Broker_Requests
begin

text \<open>
  What matching, an accepted offer and the disconnection of a runner leave: \<open>settleTasks\<close> serves every
  request that an offer could serve, the requester of an accepted offer hears of its task, and
  \<open>deregisterRunner\<close> fails the tasks of the runner but does nothing for the
  calls that still wait for it.
\<close>

section \<open>Matching\<close>

text \<open>A request that waits, with an offer that could serve it.\<close>

definition served :: "TaskBroker \<Rightarrow> nat \<Rightarrow> bool" where
  "served b i =
     (request_acceptInProgress (tb_pendingTaskRequests b ! i)
      \<or> (\<forall>offer \<in> set (tb_pendingTaskOffers b). offer_taskType offer \<noteq> request_taskType (tb_pendingTaskRequests b ! i)))"

lemma settle_request_offers: "set (tb_pendingTaskOffers (settle_request nanoid i b)) \<subseteq> set (tb_pendingTaskOffers b)"
  by (auto simp: settle_request_def Let_def dest: set_splice split: option.split)

lemma settle_request_served:
  assumes "i < length (tb_pendingTaskRequests b)" "j < length (tb_pendingTaskRequests b)" "j = i \<or> served b j"
  shows "served (settle_request nanoid i b) j"
proof (cases "request_acceptInProgress (tb_pendingTaskRequests b ! i) \<or> find_index (\<lambda>offer. offer_taskType offer
    = request_taskType (tb_pendingTaskRequests b ! i)) (tb_pendingTaskOffers b) = None")
  case True
  then have "settle_request nanoid i b = b" by (auto simp: settle_request_def Let_def split: option.split)
  with True assms(3) show ?thesis by (auto simp: served_def find_index_None)
next
  case False
  then show ?thesis
    using assms by (fastforce simp: settle_request_def served_def set_progress_def Let_def dest: set_splice split: if_splits)
qed

lemma settle_fold_length [simp]:
  "length (tb_pendingTaskRequests (fold (settle_request nanoid) is b)) = length (tb_pendingTaskRequests b)"
  by (induction "is" arbitrary: b) simp_all

lemma settle_fold_served:
  assumes "n \<le> length (tb_pendingTaskRequests b)" "j < n"
  shows "served (fold (settle_request nanoid) [0..<n] b) j"
  using assms by (induction n) (auto simp: less_Suc_eq intro!: settle_request_served)

lemma settle_fold_offers: "set (tb_pendingTaskOffers (fold (settle_request nanoid) is b)) \<subseteq> set (tb_pendingTaskOffers b)"
  using settle_request_offers by (induction "is" arbitrary: b) (simp, fastforce)

lemma settleTasks_served:
  assumes "request \<in> set (tb_pendingTaskRequests (settleTasks nanoid now b))" "\<not> request_acceptInProgress request"
    "offer \<in> set (tb_pendingTaskOffers (settleTasks nanoid now b))"
  shows "offer_taskType offer \<noteq> request_taskType request"
proof -
  let ?b = "expireTasks now b"
  from assms(1) obtain j where "j < length (tb_pendingTaskRequests ?b)"
    "request = tb_pendingTaskRequests (settleTasks nanoid now b) ! j"
    by (auto simp: in_set_conv_nth settleTasks_def Let_def)
  with settle_fold_served [of "length (tb_pendingTaskRequests ?b)" ?b j nanoid] assms(2,3) show ?thesis
    by (auto simp: served_def settleTasks_def Let_def)
qed

lemma settleTasks_offers:
  assumes "offer \<in> set (tb_pendingTaskOffers (settleTasks nanoid now b))"
  shows "offer \<in> set (tb_pendingTaskOffers b) \<and> (offer_validFor offer = -1 \<or> now \<le> offer_validUntil offer)"
  using assms settle_fold_offers [of nanoid _ "expireTasks now b"]
  by (fastforce simp: settleTasks_def Let_def expireTasks_def splice_where_filter)

section \<open>Disconnection\<close>

definition lost :: "string \<Rightarrow> Task \<Rightarrow> bool" where
  "lost runnerId task = (task_runnerId task = runnerId)"

definition failure_messages :: "string \<Rightarrow> ExecutionError \<Rightarrow> TaskBroker \<Rightarrow> broker_output list" where
  "failure_messages runnerId e b =
     map (\<lambda>task. SendRequester (task_requesterId task) (TaskError (task_id task) (ErrorObject e)))
       (filter (\<lambda>task. lost runnerId task \<and> task_requesterId task \<in> set (tb_requesters b)) (map_values (tb_tasks b)))"

lemma disconnect_fold:
  assumes "map_wf (tb_tasks b)" "tb_tasks b = done @ ts" "\<forall>(k, task) \<in> set (tb_tasks b). task_id task = k"
    "\<forall>(k, task) \<in> set ts. k \<notin> set (tb_runnerAcceptRejects b)"
  shows "fold (disconnect_task runnerId e) (map snd ts) b =
    b\<lparr>tb_tasks := done @ filter (\<lambda>(k, task). \<not> lost runnerId task) ts,
      tb_outputs := tb_outputs b @ map (\<lambda>task. SendRequester (task_requesterId task) (TaskError (task_id task) (ErrorObject e)))
        (filter (\<lambda>task. lost runnerId task \<and> task_requesterId task \<in> set (tb_requesters b)) (map snd ts))\<rparr>"
  using assms
proof (induction ts arbitrary: b "done")
  case Nil
  then show ?case by simp
next
  case (Cons p ts)
  obtain k task where p: "p = (k, task)" by force
  show ?case
  proof (cases "lost runnerId task")
    case False
    then have "disconnect_task runnerId e task b = b" by (simp add: disconnect_task_def lost_def)
    with Cons.IH [of b "done @ [p]"] Cons.prems False show ?thesis by (simp add: p)
  next
    case True
    let ?b' = "disconnect_task runnerId e task b"
    have tid: "task_id task = k" "k \<notin> set (tb_runnerAcceptRejects b)" using Cons.prems by (auto simp: p)
    have wf: "map_wf (done @ (k, task) # ts)" using Cons.prems p by simp
    then have get: "map_get (tb_tasks b) k = Some task"
      using Cons.prems(2) by (subst map_wf_get_iff) (auto simp: p)
    have "k \<notin> fst ` set (done @ ts)" using wf by (auto simp: map_wf_def)
    then have "filter (\<lambda>p. fst p \<noteq> k) (done @ ts) = done @ ts" by (intro filter_True) auto
    then have del: "map_delete k (tb_tasks b) = done @ ts" using Cons.prems(2) by (simp add: p map_delete_def)
    have b': "?b' = b\<lparr>tb_tasks := done @ ts, tb_outputs := tb_outputs b @ (if task_requesterId task \<in> set (tb_requesters b)
        then [SendRequester (task_requesterId task) (TaskError k (ErrorObject e))] else [])\<rparr>"
      using True tid get del
      by (simp add: disconnect_task_def lost_def failTask_def messageRequester_def handleRunnerReject_def)
    have "map_wf (done @ ts)" using wf by (auto simp: map_wf_def)
    then have "fold (disconnect_task runnerId e) (map snd ts) ?b' = ?b'\<lparr>tb_tasks := done @ filter (\<lambda>(k, task). \<not> lost runnerId task) ts,
      tb_outputs := tb_outputs ?b' @ map (\<lambda>task. SendRequester (task_requesterId task) (TaskError (task_id task) (ErrorObject e)))
        (filter (\<lambda>task. lost runnerId task \<and> task_requesterId task \<in> set (tb_requesters ?b')) (map snd ts))\<rparr>"
      using Cons.prems by (intro Cons.IH) (auto simp: b' p)
    with True tid show ?thesis by (simp add: b' p)
  qed
qed

lemma deregisterRunner_spec:
  assumes inv: "tasks_inv nanoid b"
  shows "deregisterRunner runnerId e b =
    b\<lparr>tb_knownRunners := map_delete runnerId (tb_knownRunners b),
      tb_pendingTaskOffers := filter (\<lambda>offer. offer_runnerId offer \<noteq> runnerId) (tb_pendingTaskOffers b),
      tb_tasks := filter (\<lambda>(tid, task). \<not> lost runnerId task) (tb_tasks b),
      tb_outputs := tb_outputs b @ failure_messages runnerId e b\<rparr>"
proof -
  have wf: "map_wf (tb_tasks b)" using inv by (simp add: tasks_inv_def)
  then have named: "task_id task = k \<and> k \<notin> set (tb_runnerAcceptRejects b)" if "(k, task) \<in> set (tb_tasks b)" for k task
    using inv that by (auto simp: tasks_inv_def map_has_get map_wf_get_iff)
  show ?thesis
    unfolding deregisterRunner_def Let_def splice_where_filter
    by (subst disconnect_fold [where ?done = "[]"]) (use wf named in \<open>auto simp: failure_messages_def\<close>)
qed

section \<open>Announcing\<close>

text \<open>The request of a call that waits for a runner is always found again.\<close>

lemma accept_announces:
  assumes tasks: "tasks_inv nanoid b" and requests: "requests_inv S b"
    and acc: "map_get (tb_accepting b) tid = Some (AwaitRunner offer rq)" and q: "request_requesterId rq \<in> set (tb_requesters b)"
  shows "tb_outputs (handleRunnerAccept tid b) = tb_outputs b @ [SendRequester (request_requesterId rq) (TaskReady (request_id rq) tid)]
    \<and> map_get (tb_tasks (handleRunnerAccept tid b)) tid = Some \<lparr>task_id = tid, task_runnerId = offer_runnerId offer,
        task_requesterId = request_requesterId rq, task_taskType = offer_taskType offer, task_timeout = False\<rparr>
    \<and> awaits_requester (handleRunnerAccept tid b) tid"
proof -
  have "awaited b tid = Some rq" "awaits_runner b tid" by (simp_all add: awaited_def awaits_runner_def acc)
  then have "tid \<in> set (tb_runnerAcceptRejects b)" "request_id rq \<in> request_id ` set (tb_pendingTaskRequests b)"
    using tasks requests_invD(7) [OF requests] by (simp_all add: tasks_inv_def)
  moreover from this(2) obtain i where
    "find_index (\<lambda>r. request_id r = request_id rq) (tb_pendingTaskRequests b) = Some i"
    by (cases "find_index (\<lambda>r. request_id r = request_id rq) (tb_pendingTaskRequests b)") (auto simp: find_index_None)
  ultimately show ?thesis
    using q by (simp add: handleRunnerAccept_def runner_accepted_def acc messageRequester_def awaits_requester_def Let_def)
qed

end
