(* ===== verification/Task_Runner.thy ===== *)
theory Task_Runner
  imports Task_Broker
begin

text \<open>
  The task runner of \<open>packages/@n8n/task-runner/src/task-runner.ts\<close> with the state of a task of
  \<open>task-state.ts\<close>: the other end of the task broker. It offers to run tasks, accepts them up to its
  capacity, runs them and sends their results.

  The runner is a state machine over the messages of the broker, its timers, and what the code of
  a task does: the code itself (\<open>executeTask\<close> is abstract) decides when an execution ends and
  which requests it makes. A \<open>TaskState\<close> is an object that outlives its entry among the running
  tasks while its code runs, so the states of tasks are a store with an identity for each. What the
  runner does is recorded in order in \<open>tr_outputs\<close>. A response that a request waited for removes the
  request at once. Names (\<open>nanoid\<close>), random numbers and the clock are parameters; closing
  the connection, logging and the conversion of buffers are left out.
\<close>

section \<open>Data\<close>

datatype TaskStatus = TaskWaitingForSettings | TaskRunning | TaskAbortingCancelled | TaskAbortingTimeout

record TaskState =
  rt_status :: TaskStatus
  rt_taskId :: string
  rt_aborted :: "string option"
  rt_timeoutTimer :: bool

record RunnerOffer =
  ro_offerId :: string
  ro_validUntil :: int

text \<open>A request for data or node types that a task waits for.\<close>

record DataRequest =
  dr_taskId :: string
  dr_requestId :: string

record TaskRunnerOpts =
  opt_name :: "string option"
  opt_taskType :: string
  opt_maxConcurrency :: int
  opt_taskTimeout :: int
  opt_idleTimeout :: int

datatype runner_output =
    ToBroker FromRunner
  | ExecuteTask nat string json
  | DataReturned string json
  | NodeTypesReturned string json
  | RequestCancelled string string
  | RpcReturned string rpc_status json
  | ReachedIdleTimeout
  | UnexpectedTaskStatus string

record Runner =
  tr_opts :: TaskRunnerOpts
  tr_canSendOffers :: bool
  tr_runningTasks :: "(string, nat) jsmap"
  tr_offerInterval :: bool
  tr_openOffers :: "(string, RunnerOffer) jsmap"
  tr_dataRequests :: "(string, DataRequest) jsmap"
  tr_nodeTypesRequests :: "(string, DataRequest) jsmap"
  tr_rpcCalls :: "string list"
  tr_idleTimer :: bool
  tr_states :: "(nat, TaskState) jsmap"
  tr_executing :: "nat list"
  tr_objects :: nat
  tr_ids :: nat
  tr_outputs :: "runner_output list"

definition runner_name_of :: "TaskRunnerOpts \<Rightarrow> string" where
  "runner_name_of opts = (case opt_name opts of None \<Rightarrow> ''Node.js Task Runner SDK'' | Some n \<Rightarrow> n)"

section \<open>Timers and offers\<close>

definition clearIdleTimer :: "Runner \<Rightarrow> Runner" where
  "clearIdleTimer r = r\<lparr>tr_idleTimer := False\<rparr>"

definition resetIdleTimer :: "Runner \<Rightarrow> Runner" where
  "resetIdleTimer r = (if opt_idleTimeout (tr_opts r) = 0 then r else (clearIdleTimer r)\<lparr>tr_idleTimer := True\<rparr>)"

definition idle_timer_fired :: "Runner \<Rightarrow> Runner" where
  "idle_timer_fired r =
     (if tr_idleTimer r then
        (let r' = r\<lparr>tr_idleTimer := False\<rparr>
         in if length (tr_runningTasks r') = 0 then r'\<lparr>tr_outputs := tr_outputs r' @ [ReachedIdleTimeout]\<rparr> else r')
      else r)"

definition new_Runner :: "TaskRunnerOpts \<Rightarrow> Runner" where
  "new_Runner opts = resetIdleTimer
     \<lparr>tr_opts = opts, tr_canSendOffers = False, tr_runningTasks = [], tr_offerInterval = False, tr_openOffers = [],
      tr_dataRequests = [], tr_nodeTypesRequests = [], tr_rpcCalls = [], tr_idleTimer = False, tr_states = [],
      tr_executing = [], tr_objects = 0, tr_ids = 0, tr_outputs = []\<rparr>"

definition send :: "FromRunner \<Rightarrow> Runner \<Rightarrow> Runner" where
  "send message r = r\<lparr>tr_outputs := tr_outputs r @ [ToBroker message]\<rparr>"

definition stopTaskOffers :: "Runner \<Rightarrow> Runner" where
  "stopTaskOffers r = r\<lparr>tr_canSendOffers := False, tr_offerInterval := False\<rparr>"

definition startTaskOffers :: "Runner \<Rightarrow> Runner" where
  "startTaskOffers r = r\<lparr>tr_canSendOffers := True, tr_offerInterval := True\<rparr>"

definition deleteStaleOffers :: "int \<Rightarrow> Runner \<Rightarrow> Runner" where
  "deleteStaleOffers now r = r\<lparr>tr_openOffers := filter (\<lambda>(key, offer). \<not> ro_validUntil offer < now) (tr_openOffers r)\<rparr>"

text \<open>The names, the random numbers and the clock of a runner.\<close>

record runner_env =
  re_nanoid :: "nat \<Rightarrow> string"
  re_random :: "nat \<Rightarrow> int"
  re_timeoutError :: "int \<Rightarrow> json"

definition send_offer :: "runner_env \<Rightarrow> int \<Rightarrow> Runner \<Rightarrow> Runner" where
  "send_offer env now r =
     (let validForInMs = 5000 + re_random env (tr_ids r);
          offer = \<lparr>ro_offerId = re_nanoid env (tr_ids r), ro_validUntil = now + (validForInMs + 100) * 1000000\<rparr>
      in send (RunnerTaskOffer (ro_offerId offer) (opt_taskType (tr_opts r)) validForInMs)
           (r\<lparr>tr_ids := Suc (tr_ids r), tr_openOffers := map_set (ro_offerId offer) offer (tr_openOffers r)\<rparr>))"

definition sendOffers :: "runner_env \<Rightarrow> int \<Rightarrow> Runner \<Rightarrow> Runner" where
  "sendOffers env now r =
     (let r' = deleteStaleOffers now r
      in if \<not> tr_canSendOffers r' then r'
         else let offersToSend = opt_maxConcurrency (tr_opts r') - int (length (tr_openOffers r') + length (tr_runningTasks r'))
              in ((send_offer env now) ^^ nat offersToSend) r')"

definition hasOpenTaskSlots :: "Runner \<Rightarrow> bool" where
  "hasOpenTaskSlots r = (int (length (tr_runningTasks r)) < opt_maxConcurrency (tr_opts r))"

definition offerAccepted :: "string \<Rightarrow> string \<Rightarrow> Runner \<Rightarrow> Runner" where
  "offerAccepted offerId taskId r =
     (if \<not> hasOpenTaskSlots r then
        send (RunnerTaskRejected taskId ''No open task slots - runner already at capacity'')
          (r\<lparr>tr_openOffers := map_delete offerId (tr_openOffers r)\<rparr>)
      else case map_get (tr_openOffers r) offerId of
        None \<Rightarrow> send (RunnerTaskRejected taskId ''Offer expired - not accepted within validity window'') r
      | Some offer \<Rightarrow>
          (let r1 = resetIdleTimer (r\<lparr>tr_openOffers := map_delete offerId (tr_openOffers r)\<rparr>);
               ob = tr_objects r1;
               taskState = \<lparr>rt_status = TaskWaitingForSettings, rt_taskId = taskId, rt_aborted = None, rt_timeoutTimer = True\<rparr>
           in send (RunnerTaskAccepted taskId)
                (r1\<lparr>tr_objects := Suc ob, tr_states := map_set ob taskState (tr_states r1),
                    tr_runningTasks := map_set taskId ob (tr_runningTasks r1)\<rparr>)))"

section \<open>The life of a task\<close>

definition update_state :: "nat \<Rightarrow> (TaskState \<Rightarrow> TaskState) \<Rightarrow> Runner \<Rightarrow> Runner" where
  "update_state ob f r =
     (case map_get (tr_states r) ob of None \<Rightarrow> r | Some st \<Rightarrow> r\<lparr>tr_states := map_set ob (f st) (tr_states r)\<rparr>)"

definition finishTask :: "runner_env \<Rightarrow> int \<Rightarrow> nat \<Rightarrow> TaskState \<Rightarrow> Runner \<Rightarrow> Runner" where
  "finishTask env now ob st r =
     (let r1 = update_state ob (\<lambda>st. st\<lparr>rt_timeoutTimer := False\<rparr>) r;
          r2 = r1\<lparr>tr_runningTasks := map_delete (rt_taskId st) (tr_runningTasks r1)\<rparr>
      in resetIdleTimer (sendOffers env now r2))"

definition cancel_requests :: "string \<Rightarrow> string \<Rightarrow> (string, DataRequest) jsmap \<Rightarrow> runner_output list" where
  "cancel_requests taskId reason requests =
     map (\<lambda>(requestId, request). RequestCancelled requestId reason) (filter (\<lambda>(requestId, request). dr_taskId request = taskId) requests)"

definition cancelTaskRequests :: "string \<Rightarrow> string \<Rightarrow> Runner \<Rightarrow> Runner" where
  "cancelTaskRequests taskId reason r =
     r\<lparr>tr_dataRequests := filter (\<lambda>(requestId, request). dr_taskId request \<noteq> taskId) (tr_dataRequests r),
       tr_nodeTypesRequests := filter (\<lambda>(requestId, request). dr_taskId request \<noteq> taskId) (tr_nodeTypesRequests r),
       tr_outputs := tr_outputs r @ cancel_requests taskId reason (tr_dataRequests r)
         @ cancel_requests taskId reason (tr_nodeTypesRequests r)\<rparr>"

definition throwUnexpectedTaskStatus :: "TaskState \<Rightarrow> Runner \<Rightarrow> Runner" where
  "throwUnexpectedTaskStatus st r = r\<lparr>tr_outputs := tr_outputs r @ [UnexpectedTaskStatus (rt_taskId st)]\<rparr>"

text \<open>The state of a running task, by its name.\<close>

definition running_state :: "Runner \<Rightarrow> string \<Rightarrow> (nat \<times> TaskState) option" where
  "running_state r taskId =
     (case map_get (tr_runningTasks r) taskId of None \<Rightarrow> None
      | Some ob \<Rightarrow> map_option (Pair ob) (map_get (tr_states r) ob))"

definition abort_task :: "TaskStatus \<Rightarrow> string \<Rightarrow> nat \<Rightarrow> Runner \<Rightarrow> Runner" where
  "abort_task status reason ob r = update_state ob (\<lambda>st. st\<lparr>rt_status := status, rt_aborted := Some reason\<rparr>) r"

definition taskCancelled :: "runner_env \<Rightarrow> int \<Rightarrow> string \<Rightarrow> string \<Rightarrow> Runner \<Rightarrow> Runner" where
  "taskCancelled env now taskId reason r =
     (case running_state r taskId of None \<Rightarrow> r
      | Some (ob, st) \<Rightarrow>
          (case rt_status st of
             TaskWaitingForSettings \<Rightarrow> finishTask env now ob st r
           | TaskAbortingTimeout \<Rightarrow> r
           | TaskAbortingCancelled \<Rightarrow> r
           | TaskRunning \<Rightarrow> cancelTaskRequests taskId reason (abort_task TaskAbortingCancelled ''cancelled'' ob r)))"

definition taskTimedOut :: "runner_env \<Rightarrow> int \<Rightarrow> string \<Rightarrow> Runner \<Rightarrow> Runner" where
  "taskTimedOut env now taskId r =
     (case running_state r taskId of None \<Rightarrow> r
      | Some (ob, st) \<Rightarrow>
          (case rt_status st of
             TaskWaitingForSettings \<Rightarrow>
               finishTask env now ob st (send (RunnerTaskError taskId (re_timeoutError env (opt_taskTimeout (tr_opts r)))) r)
           | TaskAbortingTimeout \<Rightarrow> throwUnexpectedTaskStatus st r
           | TaskRunning \<Rightarrow> cancelTaskRequests taskId ''timeout'' (abort_task TaskAbortingTimeout ''timeout'' ob r)
           | TaskAbortingCancelled \<Rightarrow> r))"

text \<open>The timer of a task fires once, unless it was cleared.\<close>

definition timeout_timer_fired :: "runner_env \<Rightarrow> int \<Rightarrow> nat \<Rightarrow> Runner \<Rightarrow> Runner" where
  "timeout_timer_fired env now ob r =
     (case map_get (tr_states r) ob of None \<Rightarrow> r
      | Some st \<Rightarrow>
          if rt_timeoutTimer st
          then taskTimedOut env now (rt_taskId st) (update_state ob (\<lambda>st. st\<lparr>rt_timeoutTimer := False\<rparr>) r) else r)"

text \<open>The code of the task starts; how it ends is an event.\<close>

definition receivedSettings :: "string \<Rightarrow> json \<Rightarrow> Runner \<Rightarrow> Runner" where
  "receivedSettings taskId settings r =
     (case running_state r taskId of None \<Rightarrow> r
      | Some (ob, st) \<Rightarrow>
          (case rt_status st of
             TaskWaitingForSettings \<Rightarrow>
               (let r' = update_state ob (\<lambda>st. st\<lparr>rt_status := TaskRunning\<rparr>) r
                in r'\<lparr>tr_executing := tr_executing r' @ [ob], tr_outputs := tr_outputs r' @ [ExecuteTask ob taskId settings]\<rparr>)
           | _ \<Rightarrow> throwUnexpectedTaskStatus st r))"

text \<open>The code ended. The value says whether the handler threw, with the state after its \<open>finally\<close> block.\<close>

definition taskExecutionSucceeded :: "runner_env \<Rightarrow> int \<Rightarrow> nat \<Rightarrow> TaskState \<Rightarrow> json \<Rightarrow> Runner \<Rightarrow> bool \<times> Runner" where
  "taskExecutionSucceeded env now ob st data r =
     (case rt_status st of
        TaskWaitingForSettings \<Rightarrow> (True, finishTask env now ob st (throwUnexpectedTaskStatus st r))
      | TaskAbortingCancelled \<Rightarrow> (False, finishTask env now ob st r)
      | _ \<Rightarrow> (False, finishTask env now ob st (send (RunnerTaskDone (rt_taskId st) data) r)))"

definition taskExecutionFailed :: "runner_env \<Rightarrow> int \<Rightarrow> nat \<Rightarrow> TaskState \<Rightarrow> json \<Rightarrow> Runner \<Rightarrow> Runner" where
  "taskExecutionFailed env now ob st error r =
     (case rt_status st of
        TaskWaitingForSettings \<Rightarrow> finishTask env now ob st (throwUnexpectedTaskStatus st r)
      | TaskAbortingCancelled \<Rightarrow> finishTask env now ob st r
      | _ \<Rightarrow> finishTask env now ob st (send (RunnerTaskError (rt_taskId st) error) r))"

text \<open>\<open>executeTask(...).then(...).catch(...)\<close> of a task whose code ended; \<open>Inl\<close> is an error.\<close>

definition execution_ended :: "runner_env \<Rightarrow> int \<Rightarrow> nat \<Rightarrow> json + json \<Rightarrow> Runner \<Rightarrow> Runner" where
  "execution_ended env now ob outcome r =
     (if ob \<in> set (tr_executing r) then
        (let r1 = r\<lparr>tr_executing := filter (\<lambda>x. x \<noteq> ob) (tr_executing r)\<rparr>
         in case map_get (tr_states r) ob of None \<Rightarrow> r1
            | Some st \<Rightarrow>
                (case outcome of
                   Inr data \<Rightarrow>
                     (case taskExecutionSucceeded env now ob st data r1 of
                        (True, r2) \<Rightarrow> taskExecutionFailed env now ob st JNull r2 | (False, r2) \<Rightarrow> r2)
                 | Inl error \<Rightarrow> taskExecutionFailed env now ob st error r1))
      else r)"

section \<open>Requests of a task\<close>

definition requestNodeTypes :: "runner_env \<Rightarrow> string \<Rightarrow> json \<Rightarrow> Runner \<Rightarrow> Runner" where
  "requestNodeTypes env taskId requestParams r =
     (let requestId = re_nanoid env (tr_ids r)
      in send (RunnerNodeTypesRequest taskId requestId requestParams)
           (r\<lparr>tr_ids := Suc (tr_ids r), tr_nodeTypesRequests :=
              map_set requestId \<lparr>dr_taskId = taskId, dr_requestId = requestId\<rparr> (tr_nodeTypesRequests r)\<rparr>))"

definition requestData :: "runner_env \<Rightarrow> string \<Rightarrow> json \<Rightarrow> Runner \<Rightarrow> Runner" where
  "requestData env taskId requestParams r =
     (let requestId = re_nanoid env (tr_ids r)
      in send (RunnerTaskDataRequest taskId requestId requestParams)
           (r\<lparr>tr_ids := Suc (tr_ids r), tr_dataRequests :=
              map_set requestId \<lparr>dr_taskId = taskId, dr_requestId = requestId\<rparr> (tr_dataRequests r)\<rparr>))"

definition makeRpcCall :: "runner_env \<Rightarrow> string \<Rightarrow> string \<Rightarrow> json list \<Rightarrow> Runner \<Rightarrow> Runner" where
  "makeRpcCall env taskId name params r =
     (let callId = re_nanoid env (tr_ids r)
      in send (RunnerRPC taskId callId name params)
           (r\<lparr>tr_ids := Suc (tr_ids r), tr_rpcCalls := set_add callId (tr_rpcCalls r)\<rparr>))"

definition processDataResponse :: "string \<Rightarrow> json \<Rightarrow> Runner \<Rightarrow> Runner" where
  "processDataResponse requestId data r =
     (if map_has (tr_dataRequests r) requestId
      then r\<lparr>tr_dataRequests := map_delete requestId (tr_dataRequests r), tr_outputs := tr_outputs r @ [DataReturned requestId data]\<rparr>
      else r)"

definition processNodeTypesResponse :: "string \<Rightarrow> json \<Rightarrow> Runner \<Rightarrow> Runner" where
  "processNodeTypesResponse requestId nodeTypes r =
     (if map_has (tr_nodeTypesRequests r) requestId
      then r\<lparr>tr_nodeTypesRequests := map_delete requestId (tr_nodeTypesRequests r),
             tr_outputs := tr_outputs r @ [NodeTypesReturned requestId nodeTypes]\<rparr>
      else r)"

definition handleRpcResponse :: "string \<Rightarrow> rpc_status \<Rightarrow> json \<Rightarrow> Runner \<Rightarrow> Runner" where
  "handleRpcResponse callId status data r =
     (if callId \<in> set (tr_rpcCalls r)
      then r\<lparr>tr_rpcCalls := set_delete callId (tr_rpcCalls r), tr_outputs := tr_outputs r @ [RpcReturned callId status data]\<rparr>
      else r)"

section \<open>Dispatch\<close>

fun onMessage :: "runner_env \<Rightarrow> int \<Rightarrow> ToRunner \<Rightarrow> Runner \<Rightarrow> Runner" where
  "onMessage env now InfoRequest r = send (RunnerInfo (runner_name_of (tr_opts r)) [opt_taskType (tr_opts r)]) r"
| "onMessage env now RunnerRegistered r = startTaskOffers r"
| "onMessage env now (TaskOfferAccept taskId offerId) r = offerAccepted offerId taskId r"
| "onMessage env now (TaskCancel taskId reason) r = taskCancelled env now taskId reason r"
| "onMessage env now (TaskSettings taskId settings) r = receivedSettings taskId settings r"
| "onMessage env now (TaskDataResponse taskId requestId data) r = processDataResponse requestId data r"
| "onMessage env now (RPCResponse taskId callId status data) r = handleRpcResponse callId status data r"
| "onMessage env now (NodeTypes taskId requestId nodeTypes) r = processNodeTypesResponse requestId nodeTypes r"

datatype runner_event =
    FromBroker ToRunner
  | OfferTimer
  | IdleTimer
  | TimeoutTimer nat
  | ExecutionEnded nat "json + json"
  | RequestNodeTypes string json
  | RequestData string json
  | MakeRpcCall string string "json list"
  | ConnectionClosed
  | StopRunner

fun runner_step :: "runner_env \<Rightarrow> int \<times> runner_event \<Rightarrow> Runner \<Rightarrow> Runner" where
  "runner_step env (now, FromBroker message) r = onMessage env now message r"
| "runner_step env (now, OfferTimer) r = (if tr_offerInterval r then sendOffers env now r else r)"
| "runner_step env (now, IdleTimer) r = idle_timer_fired r"
| "runner_step env (now, TimeoutTimer ob) r = timeout_timer_fired env now ob r"
| "runner_step env (now, ExecutionEnded ob outcome) r = execution_ended env now ob outcome r"
| "runner_step env (now, RequestNodeTypes taskId params) r = requestNodeTypes env taskId params r"
| "runner_step env (now, RequestData taskId params) r = requestData env taskId params r"
| "runner_step env (now, MakeRpcCall taskId name params) r = makeRpcCall env taskId name params r"
| "runner_step env (now, ConnectionClosed) r = stopTaskOffers r"
| "runner_step env (now, StopRunner) r = stopTaskOffers (clearIdleTimer r)"

definition runner_history :: "runner_env \<Rightarrow> (int \<times> runner_event) list \<Rightarrow> Runner \<Rightarrow> Runner" where
  "runner_history env es r = fold (runner_step env) es r"

end
