(* ===== verification/Task_Runner_Safety.thy ===== *)
theory Task_Runner_Safety
  imports Task_Runner
begin

text \<open>
  What a task runner guarantees: it never has more tasks and open offers than its capacity, and for a
  broker that names every task once and sends its settings once, it answers a task at most once and
  never finds a task in a state that its code excludes.
\<close>

section \<open>Capacity\<close>

definition within_capacity :: "Runner \<Rightarrow> bool" where
  "within_capacity r = (int (length (tr_openOffers r) + length (tr_runningTasks r)) \<le> opt_maxConcurrency (tr_opts r))"

lemma idle_fields [simp]:
  "tr_openOffers (resetIdleTimer r) = tr_openOffers r" "tr_runningTasks (resetIdleTimer r) = tr_runningTasks r"
  "tr_opts (resetIdleTimer r) = tr_opts r" "tr_objects (resetIdleTimer r) = tr_objects r" "tr_states (resetIdleTimer r) = tr_states r"
  "tr_executing (resetIdleTimer r) = tr_executing r" "tr_outputs (resetIdleTimer r) = tr_outputs r"
  by (simp_all add: resetIdleTimer_def clearIdleTimer_def)

lemma send_fields [simp]:
  "tr_openOffers (send m r) = tr_openOffers r" "tr_runningTasks (send m r) = tr_runningTasks r" "tr_opts (send m r) = tr_opts r"
  "tr_objects (send m r) = tr_objects r" "tr_states (send m r) = tr_states r" "tr_executing (send m r) = tr_executing r"
  "tr_outputs (send m r) = tr_outputs r @ [ToBroker m]" "tr_canSendOffers (send m r) = tr_canSendOffers r"
  by (simp_all add: send_def)

lemma update_state_fields [simp]:
  "tr_openOffers (update_state ob f r) = tr_openOffers r" "tr_runningTasks (update_state ob f r) = tr_runningTasks r"
  "tr_opts (update_state ob f r) = tr_opts r" "tr_objects (update_state ob f r) = tr_objects r"
  "tr_executing (update_state ob f r) = tr_executing r" "tr_outputs (update_state ob f r) = tr_outputs r"
  "map_get (tr_states (update_state ob f r)) x = (if x = ob then map_option f (map_get (tr_states r) ob) else map_get (tr_states r) x)"
  by (simp_all add: update_state_def split: option.split)

lemma update_state_running:
  "(update_state ob f r)\<lparr>tr_runningTasks := ts\<rparr> = update_state ob f (r\<lparr>tr_runningTasks := ts\<rparr>)"
  by (cases r) (simp add: update_state_def split: option.split)

text \<open>Offers and timers change no task.\<close>

definition same_tasks :: "Runner \<Rightarrow> Runner \<Rightarrow> bool" where
  "same_tasks r r' =
     (tr_opts r' = tr_opts r \<and> tr_runningTasks r' = tr_runningTasks r \<and> tr_states r' = tr_states r
      \<and> tr_executing r' = tr_executing r \<and> tr_objects r' = tr_objects r)"

lemma same_tasks_trans: "same_tasks r r' \<Longrightarrow> same_tasks r' r'' \<Longrightarrow> same_tasks r r''"
  by (simp add: same_tasks_def)

lemma send_offer_step:
  "same_tasks r (send_offer env now r)" "length (tr_openOffers (send_offer env now r)) \<le> Suc (length (tr_openOffers r))"
  by (simp_all add: send_offer_def same_tasks_def Let_def length_map_set)

lemma send_offers_step:
  "same_tasks r ((send_offer env now ^^ n) r)" "length (tr_openOffers ((send_offer env now ^^ n) r)) \<le> n + length (tr_openOffers r)"
proof (induction n)
  case (Suc n)
  { case 1 show ?case using same_tasks_trans [OF Suc.IH(1) send_offer_step(1)] by simp }
  { case 2 show ?case using Suc.IH(2) send_offer_step(2) [of env now "(send_offer env now ^^ n) r"] by simp }
qed (simp_all add: same_tasks_def)

lemma sendOffers_same: "same_tasks r (sendOffers env now r)"
proof -
  have "same_tasks r (deleteStaleOffers now r)" by (simp add: same_tasks_def deleteStaleOffers_def)
  then show ?thesis unfolding sendOffers_def Let_def using send_offers_step(1) same_tasks_trans by auto
qed

lemma deleteStaleOffers_capacity: "within_capacity r \<Longrightarrow> within_capacity (deleteStaleOffers now r)"
  using length_filter_le [of "\<lambda>(key, offer). \<not> ro_validUntil offer < now" "tr_openOffers r"]
  by (simp add: within_capacity_def deleteStaleOffers_def del: length_filter_le)

lemma sendOffers_capacity:
  assumes "within_capacity r"
  shows "within_capacity (sendOffers env now r)"
proof -
  let ?r = "deleteStaleOffers now r"
  let ?n = "nat (opt_maxConcurrency (tr_opts ?r) - int (length (tr_openOffers ?r) + length (tr_runningTasks ?r)))"
  have "within_capacity ?r" using assms by (rule deleteStaleOffers_capacity)
  moreover from this have "within_capacity ((send_offer env now ^^ ?n) ?r)"
    using send_offers_step [where n = ?n and r = ?r and env = env and now = now] by (simp add: within_capacity_def same_tasks_def)
  ultimately show ?thesis by (simp add: sendOffers_def Let_def)
qed

lemma finishTask_capacity: "within_capacity r \<Longrightarrow> within_capacity (finishTask env now ob st r)"
proof -
  assume "within_capacity r"
  then have "within_capacity ((update_state ob (\<lambda>st. st\<lparr>rt_timeoutTimer := False\<rparr>) r)
      \<lparr>tr_runningTasks := map_delete (rt_taskId st) (tr_runningTasks r)\<rparr>)"
    using length_map_delete [of "rt_taskId st" "tr_runningTasks r"] by (simp add: within_capacity_def)
  from sendOffers_capacity [OF this, of env now] show ?thesis
    by (simp add: finishTask_def Let_def) (simp add: within_capacity_def)
qed

lemma within_capacity_cong:
  assumes "tr_openOffers r' = tr_openOffers r" "tr_runningTasks r' = tr_runningTasks r" "tr_opts r' = tr_opts r"
  shows "within_capacity r' = within_capacity r"
  using assms by (simp add: within_capacity_def)

lemma capacity_frames [simp]:
  "within_capacity (send m r) = within_capacity r" "within_capacity (update_state ob f r) = within_capacity r"
  "within_capacity (cancelTaskRequests tid reason r) = within_capacity r" "within_capacity (resetIdleTimer r) = within_capacity r"
  "within_capacity (throwUnexpectedTaskStatus st r) = within_capacity r" "within_capacity (abort_task status reason ob r) = within_capacity r"
  by (rule within_capacity_cong; simp add: cancelTaskRequests_def throwUnexpectedTaskStatus_def abort_task_def)+

lemma offerAccepted_capacity:
  assumes "within_capacity r"
  shows "within_capacity (offerAccepted offerId taskId r)"
proof (cases "map_get (tr_openOffers r) offerId")
  case None
  with assms length_map_delete [of offerId "tr_openOffers r"] show ?thesis
    by (simp add: offerAccepted_def) (simp add: within_capacity_def)
next
  case (Some offer)
  have "length (map_set taskId v (tr_runningTasks r)) \<le> Suc (length (tr_runningTasks r))" for v by (rule length_map_set)
  note lengths = this [of "tr_objects r"] length_map_delete_less [of "tr_openOffers r" offerId]
  from assms lengths Some show ?thesis
    by (simp add: offerAccepted_def Let_def) (simp add: within_capacity_def)
qed

lemma execution_ended_capacity: "within_capacity r \<Longrightarrow> within_capacity (execution_ended env now ob outcome r)"
proof -
  assume "within_capacity r"
  then have "within_capacity (r\<lparr>tr_executing := xs\<rparr>)" for xs by (simp add: within_capacity_def)
  then show ?thesis
    using \<open>within_capacity r\<close>
    by (auto simp: execution_ended_def taskExecutionSucceeded_def taskExecutionFailed_def Let_def finishTask_capacity
        split: option.split sum.split prod.splits TaskStatus.splits bool.splits)
qed

lemma onMessage_capacity: "within_capacity r \<Longrightarrow> within_capacity (onMessage env now message r)"
  by (cases message)
    (auto simp: offerAccepted_capacity finishTask_capacity taskCancelled_def receivedSettings_def startTaskOffers_def
      processDataResponse_def processNodeTypesResponse_def handleRpcResponse_def Let_def
      split: option.split TaskStatus.split cong: within_capacity_cong)

lemma taskTimedOut_capacity: "within_capacity r \<Longrightarrow> within_capacity (taskTimedOut env now tid r)"
  by (auto simp: taskTimedOut_def finishTask_capacity split: option.split TaskStatus.split)

lemma runner_step_capacity: "within_capacity r \<Longrightarrow> within_capacity (runner_step env e r)"
  by (cases "(env, e, r)" rule: runner_step.cases)
    (auto simp: onMessage_capacity sendOffers_capacity execution_ended_capacity timeout_timer_fired_def taskTimedOut_capacity
      idle_timer_fired_def requestNodeTypes_def requestData_def makeRpcCall_def stopTaskOffers_def clearIdleTimer_def Let_def
      split: option.split cong: within_capacity_cong)

lemma runner_history_capacity: "within_capacity r \<Longrightarrow> within_capacity (runner_history env es r)"
  unfolding runner_history_def by (induction es arbitrary: r) (simp_all add: runner_step_capacity)

lemma new_Runner_capacity: "0 \<le> opt_maxConcurrency opts \<Longrightarrow> within_capacity (new_Runner opts)"
  by (simp add: new_Runner_def) (simp add: within_capacity_def)

section \<open>Tasks\<close>

text \<open>The messages that end a task, and the names that the broker uses.\<close>

fun answer_for :: "string \<Rightarrow> runner_output \<Rightarrow> bool" where
  "answer_for tid (ToBroker (RunnerTaskDone t data)) = (t = tid)"
| "answer_for tid (ToBroker (RunnerTaskError t error)) = (t = tid)"
| "answer_for tid _ = False"

definition answers :: "string \<Rightarrow> runner_output list \<Rightarrow> nat" where
  "answers tid outs = length (filter (answer_for tid) outs)"

fun is_unexpected :: "runner_output \<Rightarrow> bool" where
  "is_unexpected (UnexpectedTaskStatus tid) = True"
| "is_unexpected _ = False"

lemma answers_simps [simp]:
  "answers tid [] = 0" "answers tid (outs @ outs') = answers tid outs + answers tid outs'"
  "answers tid [x] = (if answer_for tid x then 1 else 0)"
  by (simp_all add: answers_def)

fun accepted_ids :: "int \<times> runner_event \<Rightarrow> string list" where
  "accepted_ids (now, FromBroker (TaskOfferAccept taskId offerId)) = [taskId]"
| "accepted_ids _ = []"

fun settings_ids :: "int \<times> runner_event \<Rightarrow> string list" where
  "settings_ids (now, FromBroker (TaskSettings taskId settings)) = [taskId]"
| "settings_ids _ = []"

text \<open>\<open>A\<close> are the names of tasks the broker used so far, \<open>T\<close> those it sent settings for.\<close>

definition states_ok :: "string set \<Rightarrow> string set \<Rightarrow> Runner \<Rightarrow> bool" where
  "states_ok A T r =
     ((\<forall>ob st. map_get (tr_states r) ob = Some st \<longrightarrow> ob < tr_objects r \<and> rt_taskId st \<in> A
         \<and> (rt_status st \<noteq> TaskWaitingForSettings \<longrightarrow> rt_taskId st \<in> T)
         \<and> (rt_status st = TaskAbortingTimeout \<longrightarrow> \<not> rt_timeoutTimer st))
      \<and> (\<forall>ob ob' st st'. map_get (tr_states r) ob = Some st \<and> map_get (tr_states r) ob' = Some st'
           \<and> rt_taskId st = rt_taskId st' \<longrightarrow> ob = ob'))"

definition running_ok :: "Runner \<Rightarrow> bool" where
  "running_ok r =
     ((\<forall>tid ob. map_get (tr_runningTasks r) tid = Some ob \<longrightarrow>
         (\<exists>st. map_get (tr_states r) ob = Some st \<and> rt_taskId st = tid) \<and> answers tid (tr_outputs r) = 0)
      \<and> (\<forall>ob \<in> set (tr_executing r). \<exists>st. map_get (tr_states r) ob = Some st \<and> rt_status st \<noteq> TaskWaitingForSettings
           \<and> map_get (tr_runningTasks r) (rt_taskId st) = Some ob))"

definition answers_ok :: "string set \<Rightarrow> Runner \<Rightarrow> bool" where
  "answers_ok A r =
     ((\<forall>tid. answers tid (tr_outputs r) \<le> 1) \<and> (\<forall>tid. 0 < answers tid (tr_outputs r) \<longrightarrow> tid \<in> A)
      \<and> list_all (\<lambda>x. \<not> is_unexpected x) (tr_outputs r))"

definition runner_inv :: "string set \<Rightarrow> string set \<Rightarrow> Runner \<Rightarrow> bool" where
  "runner_inv A T r = (states_ok A T r \<and> running_ok r \<and> answers_ok A r)"

lemmas runner_inv_defs = runner_inv_def states_ok_def running_ok_def answers_ok_def

text \<open>Steps that only send other messages.\<close>

definition harmless :: "runner_output \<Rightarrow> bool" where
  "harmless x = (\<not> is_unexpected x \<and> (\<forall>tid. \<not> answer_for tid x))"

definition quiet_task_step :: "Runner \<Rightarrow> Runner \<Rightarrow> bool" where
  "quiet_task_step r r' = (same_tasks r r' \<and> (\<exists>outs. tr_outputs r' = tr_outputs r @ outs \<and> list_all harmless outs))"

lemma answers_harmless: "list_all harmless outs \<Longrightarrow> answers tid outs = 0"
  by (induction outs) (auto simp: answers_def harmless_def)

lemma runner_inv_quiet:
  assumes "quiet_task_step r r'"
  shows "runner_inv A T r' = runner_inv A T r"
proof -
  from assms obtain outs where outs: "tr_outputs r' = tr_outputs r @ outs" "list_all harmless outs" and same: "same_tasks r r'"
    by (auto simp: quiet_task_step_def)
  have "answers tid (tr_outputs r') = answers tid (tr_outputs r)" for tid using outs answers_harmless by simp
  moreover have "list_all (\<lambda>x. \<not> is_unexpected x) outs" using outs(2) by (auto simp: list_all_iff harmless_def)
  ultimately show ?thesis using same outs(1) by (simp add: runner_inv_defs same_tasks_def)
qed

lemma quiet_task_step_trans: "quiet_task_step r r' \<Longrightarrow> quiet_task_step r' r'' \<Longrightarrow> quiet_task_step r r''"
  unfolding quiet_task_step_def by (auto intro: same_tasks_trans)

lemma send_offers_quiet: "quiet_task_step r ((send_offer env now ^^ n) r)"
proof (induction n)
  case (Suc n)
  have "quiet_task_step x (send_offer env now x)" for x
    unfolding quiet_task_step_def using send_offer_step(1) [of x env now] by (simp add: send_offer_def harmless_def Let_def)
  then show ?case using quiet_task_step_trans [OF Suc.IH] by simp
qed (simp add: quiet_task_step_def same_tasks_def)

lemma sendOffers_quiet: "quiet_task_step r (sendOffers env now r)"
proof -
  have "quiet_task_step r (deleteStaleOffers now r)" by (simp add: quiet_task_step_def same_tasks_def deleteStaleOffers_def)
  then show ?thesis unfolding sendOffers_def Let_def using send_offers_quiet quiet_task_step_trans by auto
qed

lemma runner_inv_frames [simp]:
  "runner_inv A T (sendOffers env now r) = runner_inv A T r" "runner_inv A T (resetIdleTimer r) = runner_inv A T r"
  "harmless (ToBroker m) \<Longrightarrow> runner_inv A T (send m r) = runner_inv A T r"
  "runner_inv A T (cancelTaskRequests tid reason r) = runner_inv A T r"
  by (rule runner_inv_quiet; (rule sendOffers_quiet)?; auto simp: quiet_task_step_def same_tasks_def cancelTaskRequests_def
      cancel_requests_def list_all_iff harmless_def)+

lemma states_okD:
  assumes "states_ok A T r" "map_get (tr_states r) ob = Some st"
  shows "ob < tr_objects r" "rt_taskId st \<in> A" "rt_status st \<noteq> TaskWaitingForSettings \<Longrightarrow> rt_taskId st \<in> T"
    "rt_status st = TaskAbortingTimeout \<Longrightarrow> \<not> rt_timeoutTimer st"
    "map_get (tr_states r) ob' = Some st' \<Longrightarrow> rt_taskId st = rt_taskId st' \<Longrightarrow> ob = ob'"
  using assms unfolding states_ok_def by blast+

lemma states_ok_cong: "tr_states r = tr_states r' \<Longrightarrow> tr_objects r = tr_objects r' \<Longrightarrow> states_ok A T r = states_ok A T r'"
  by (simp add: states_ok_def)

lemma states_okI:
  assumes "\<And>ob st. map_get (tr_states r) ob = Some st \<Longrightarrow> ob < tr_objects r \<and> rt_taskId st \<in> A
      \<and> (rt_status st \<noteq> TaskWaitingForSettings \<longrightarrow> rt_taskId st \<in> T) \<and> (rt_status st = TaskAbortingTimeout \<longrightarrow> \<not> rt_timeoutTimer st)"
    "\<And>ob ob' st st'. map_get (tr_states r) ob = Some st \<Longrightarrow> map_get (tr_states r) ob' = Some st' \<Longrightarrow> rt_taskId st = rt_taskId st' \<Longrightarrow> ob = ob'"
  shows "states_ok A T r"
  using assms unfolding states_ok_def by blast

text \<open>The state of a task changes.\<close>

lemma states_ok_update:
  assumes "states_ok A T r"
    "\<And>st. map_get (tr_states r) ob = Some st \<Longrightarrow> rt_taskId (f st) = rt_taskId st
      \<and> (rt_status (f st) \<noteq> TaskWaitingForSettings \<longrightarrow> rt_taskId st \<in> T)
      \<and> (rt_status (f st) = TaskAbortingTimeout \<longrightarrow> \<not> rt_timeoutTimer (f st))"
  shows "states_ok A T (update_state ob f r)"
proof -
  have old: "\<exists>st0. map_get (tr_states r) x = Some st0 \<and> rt_taskId st = rt_taskId st0 \<and> st = (if x = ob then f st0 else st0)"
    if "map_get (tr_states (update_state ob f r)) x = Some st" for x st
    using that assms(2) by (auto split: if_splits)
  show ?thesis
  proof (rule states_okI)
    fix x st
    assume "map_get (tr_states (update_state ob f r)) x = Some st"
    from old [OF this] obtain st0 where st0: "map_get (tr_states r) x = Some st0" "st = (if x = ob then f st0 else st0)" by blast
    with states_okD(1-4) [OF assms(1) st0(1)] assms(2) show "x < tr_objects (update_state ob f r) \<and> rt_taskId st \<in> A
      \<and> (rt_status st \<noteq> TaskWaitingForSettings \<longrightarrow> rt_taskId st \<in> T) \<and> (rt_status st = TaskAbortingTimeout \<longrightarrow> \<not> rt_timeoutTimer st)"
      by (cases "x = ob") auto
  next
    fix x y st st'
    assume "map_get (tr_states (update_state ob f r)) x = Some st" "map_get (tr_states (update_state ob f r)) y = Some st'"
      "rt_taskId st = rt_taskId st'"
    with old [of x st] old [of y st'] states_okD(5) [OF assms(1)] show "x = y" by metis
  qed
qed

lemma running_ok_update:
  assumes "running_ok r"
    "\<And>st. map_get (tr_states r) ob = Some st \<Longrightarrow> rt_taskId (f st) = rt_taskId st
      \<and> (rt_status (f st) = TaskWaitingForSettings \<longrightarrow> rt_status st = TaskWaitingForSettings)"
  shows "running_ok (update_state ob f r)"
  unfolding running_ok_def
proof (intro conjI allI ballI impI)
  fix tid x
  assume "map_get (tr_runningTasks (update_state ob f r)) tid = Some x"
  with assms(1) obtain st where "map_get (tr_states r) x = Some st" "rt_taskId st = tid" "answers tid (tr_outputs r) = 0"
    by (auto simp: running_ok_def)
  with assms(2) [of st] show "\<exists>st. map_get (tr_states (update_state ob f r)) x = Some st \<and> rt_taskId st = tid"
    "answers tid (tr_outputs (update_state ob f r)) = 0" by (cases "x = ob"; simp)+
next
  fix x
  assume "x \<in> set (tr_executing (update_state ob f r))"
  with assms(1) obtain st where "map_get (tr_states r) x = Some st" "rt_status st \<noteq> TaskWaitingForSettings"
    "map_get (tr_runningTasks r) (rt_taskId st) = Some x" by (auto simp: running_ok_def)
  with assms(2) [of st] show "\<exists>st. map_get (tr_states (update_state ob f r)) x = Some st \<and> rt_status st \<noteq> TaskWaitingForSettings
      \<and> map_get (tr_runningTasks (update_state ob f r)) (rt_taskId st) = Some x"
    by (cases "x = ob") auto
qed

lemma runner_inv_update:
  assumes "runner_inv A T r"
    "\<And>st. map_get (tr_states r) ob = Some st \<Longrightarrow> rt_taskId (f st) = rt_taskId st
      \<and> (rt_status (f st) \<noteq> TaskWaitingForSettings \<longrightarrow> rt_taskId st \<in> T)
      \<and> (rt_status (f st) = TaskAbortingTimeout \<longrightarrow> \<not> rt_timeoutTimer (f st))
      \<and> (rt_status (f st) = TaskWaitingForSettings \<longrightarrow> rt_status st = TaskWaitingForSettings)"
  shows "runner_inv A T (update_state ob f r)"
proof -
  have "states_ok A T (update_state ob f r)"
    by (rule states_ok_update) (use assms(1) in \<open>simp add: runner_inv_def\<close>, use assms(2) in blast)
  moreover have "running_ok (update_state ob f r)"
    by (rule running_ok_update) (use assms(1) in \<open>simp add: runner_inv_def\<close>, use assms(2) in blast)
  ultimately show ?thesis using assms(1) by (simp add: runner_inv_def answers_ok_def)
qed

lemma clear_timer_inv:
  assumes "runner_inv A T r"
  shows "runner_inv A T (update_state ob (\<lambda>st. st\<lparr>rt_timeoutTimer := False\<rparr>) r)"
proof (rule runner_inv_update [OF assms])
  fix st
  have "states_ok A T r" using assms by (simp add: runner_inv_def)
  moreover assume "map_get (tr_states r) ob = Some st"
  ultimately have "rt_status st \<noteq> TaskWaitingForSettings \<longrightarrow> rt_taskId st \<in> T" using states_okD(3) by blast
  then show "rt_taskId (st\<lparr>rt_timeoutTimer := False\<rparr>) = rt_taskId st
      \<and> (rt_status (st\<lparr>rt_timeoutTimer := False\<rparr>) \<noteq> TaskWaitingForSettings \<longrightarrow> rt_taskId st \<in> T)
      \<and> (rt_status (st\<lparr>rt_timeoutTimer := False\<rparr>) = TaskAbortingTimeout \<longrightarrow> \<not> rt_timeoutTimer (st\<lparr>rt_timeoutTimer := False\<rparr>))
      \<and> (rt_status (st\<lparr>rt_timeoutTimer := False\<rparr>) = TaskWaitingForSettings \<longrightarrow> rt_status st = TaskWaitingForSettings)" by simp
qed

text \<open>A task ends: nothing else depends on it.\<close>

definition ending :: "string \<Rightarrow> Runner \<Rightarrow> bool" where
  "ending tid r =
     ((\<forall>t ob. map_get (tr_runningTasks r) t = Some ob \<and> t \<noteq> tid \<longrightarrow>
         (\<exists>st. map_get (tr_states r) ob = Some st \<and> rt_taskId st = t) \<and> answers t (tr_outputs r) = 0)
      \<and> (\<forall>ob \<in> set (tr_executing r). \<exists>st. map_get (tr_states r) ob = Some st \<and> rt_status st \<noteq> TaskWaitingForSettings
           \<and> map_get (tr_runningTasks r) (rt_taskId st) = Some ob \<and> rt_taskId st \<noteq> tid))"

lemma finishTask_inv:
  assumes "states_ok A T r" "answers_ok A r" "ending (rt_taskId st) r"
  shows "runner_inv A T (finishTask env now ob st r)"
proof -
  let ?r1 = "update_state ob (\<lambda>st. st\<lparr>rt_timeoutTimer := False\<rparr>) r"
  let ?r2 = "?r1\<lparr>tr_runningTasks := map_delete (rt_taskId st) (tr_runningTasks ?r1)\<rparr>"
  have "states_ok A T ?r1" by (rule states_ok_update [OF assms(1)]) (auto dest: states_okD(3) [OF assms(1)])
  then have "states_ok A T ?r2" by (rule states_ok_cong [THEN iffD1, rotated -1]) simp_all
  moreover have "running_ok (r\<lparr>tr_runningTasks := map_delete (rt_taskId st) (tr_runningTasks r)\<rparr>)"
    unfolding running_ok_def
  proof (intro conjI allI ballI impI)
    let ?r = "r\<lparr>tr_runningTasks := map_delete (rt_taskId st) (tr_runningTasks r)\<rparr>"
    fix tid x
    assume "map_get (tr_runningTasks ?r) tid = Some x"
    then have "map_get (tr_runningTasks r) tid = Some x \<and> tid \<noteq> rt_taskId st" by (simp split: if_splits)
    with assms(3) show "\<exists>st. map_get (tr_states ?r) x = Some st \<and> rt_taskId st = tid" "answers tid (tr_outputs ?r) = 0"
      unfolding ending_def by simp_all
  next
    let ?r = "r\<lparr>tr_runningTasks := map_delete (rt_taskId st) (tr_runningTasks r)\<rparr>"
    fix x
    assume "x \<in> set (tr_executing ?r)"
    then have "x \<in> set (tr_executing r)" by simp
    with assms(3) obtain st' where "map_get (tr_states r) x = Some st'" "rt_status st' \<noteq> TaskWaitingForSettings"
      "map_get (tr_runningTasks r) (rt_taskId st') = Some x" "rt_taskId st' \<noteq> rt_taskId st" unfolding ending_def by blast
    then show "\<exists>st'. map_get (tr_states ?r) x = Some st' \<and> rt_status st' \<noteq> TaskWaitingForSettings
        \<and> map_get (tr_runningTasks ?r) (rt_taskId st') = Some x" by simp
  qed
  from running_ok_update [OF this, of ob "\<lambda>st. st\<lparr>rt_timeoutTimer := False\<rparr>"]
  have "running_ok ?r2" by (simp add: update_state_running)
  ultimately show ?thesis using assms(2) by (simp add: finishTask_def Let_def) (simp add: runner_inv_def answers_ok_def)
qed

lemma ending_waiting:
  assumes "runner_inv A T r" "map_get (tr_states r) ob = Some st" "rt_status st = TaskWaitingForSettings"
  shows "ending (rt_taskId st) r"
  unfolding ending_def
proof (intro conjI allI ballI impI)
  have run: "running_ok r" "states_ok A T r" using assms(1) by (simp_all add: runner_inv_def)
  fix x
  assume "x \<in> set (tr_executing r)"
  with run(1) obtain st' where st': "map_get (tr_states r) x = Some st'" "rt_status st' \<noteq> TaskWaitingForSettings"
    "map_get (tr_runningTasks r) (rt_taskId st') = Some x" unfolding running_ok_def by blast
  with states_okD(5) [OF run(2) assms(2) st'(1)] assms(2,3)
  show "\<exists>st'. map_get (tr_states r) x = Some st' \<and> rt_status st' \<noteq> TaskWaitingForSettings
      \<and> map_get (tr_runningTasks r) (rt_taskId st') = Some x \<and> rt_taskId st' \<noteq> rt_taskId st" by auto
qed (use assms(1) in \<open>unfold runner_inv_def running_ok_def, blast+\<close>)

lemma ending_answer:
  assumes "ending tid r" "\<And>t. t \<noteq> tid \<Longrightarrow> \<not> answer_for t (ToBroker m)"
  shows "ending tid (send m r)"
  using assms by (simp add: ending_def)

lemma answers_ok_answer:
  assumes "answers_ok A r" "answers tid (tr_outputs r) = 0" "tid \<in> A" "\<And>t. t \<noteq> tid \<Longrightarrow> \<not> answer_for t (ToBroker m)"
  shows "answers_ok A (send m r)"
  unfolding answers_ok_def
proof (intro conjI allI impI)
  fix t
  show "answers t (tr_outputs (send m r)) \<le> 1" using assms by (cases "t = tid") (auto simp: answers_ok_def)
  show "0 < answers t (tr_outputs (send m r)) \<Longrightarrow> t \<in> A" using assms by (cases "t = tid") (auto simp: answers_ok_def split: if_splits)
qed (use assms(1) in \<open>simp add: answers_ok_def\<close>)

lemma running_stateD:
  assumes "running_state r tid = Some (ob, st)" "runner_inv A T r"
  shows "map_get (tr_runningTasks r) tid = Some ob" "map_get (tr_states r) ob = Some st" "rt_taskId st = tid"
    "answers tid (tr_outputs r) = 0" "tid \<in> A"
proof -
  have run: "running_ok r" "states_ok A T r" using assms(2) by (simp_all add: runner_inv_def)
  show get: "map_get (tr_runningTasks r) tid = Some ob" "map_get (tr_states r) ob = Some st"
    using assms(1) by (auto simp: running_state_def split: option.splits)
  with run(1) show tid: "rt_taskId st = tid" "answers tid (tr_outputs r) = 0" unfolding running_ok_def by fastforce+
  show "tid \<in> A" using states_okD(2) [OF run(2) get(2)] tid(1) by simp
qed

lemma taskCancelled_inv:
  assumes inv: "runner_inv A T r"
  shows "runner_inv A T (taskCancelled env now tid reason r)"
proof (cases "running_state r tid")
  case (Some p)
  obtain ob st where p: "p = (ob, st)" by force
  note st = running_stateD [OF Some [unfolded p] inv]
  show ?thesis
  proof (cases "rt_status st")
    case TaskWaitingForSettings
    with finishTask_inv [of A T r st env now ob] ending_waiting [OF inv st(2)] inv show ?thesis
      by (simp add: taskCancelled_def Some p runner_inv_def)
  next
    case TaskRunning
    have "runner_inv A T (abort_task TaskAbortingCancelled ''cancelled'' ob r)"
      unfolding abort_task_def
      by (rule runner_inv_update [OF inv]) (use inv st(2) TaskRunning states_okD(3) [of A T r ob st] in \<open>auto simp: runner_inv_def\<close>)
    with TaskRunning show ?thesis by (simp add: taskCancelled_def Some p)
  qed (use inv in \<open>simp_all add: taskCancelled_def Some p\<close>)
qed (simp add: taskCancelled_def inv)

lemma taskTimedOut_inv:
  assumes inv: "runner_inv A T r" and timer: "\<And>ob st. running_state r tid = Some (ob, st) \<Longrightarrow> rt_status st \<noteq> TaskAbortingTimeout \<and> \<not> rt_timeoutTimer st"
  shows "runner_inv A T (taskTimedOut env now tid r)"
proof (cases "running_state r tid")
  case (Some p)
  obtain ob st where p: "p = (ob, st)" by force
  note st = running_stateD [OF Some [unfolded p] inv] and t = timer [OF Some [unfolded p]]
  show ?thesis
  proof (cases "rt_status st")
    case TaskWaitingForSettings
    let ?r = "send (RunnerTaskError tid (re_timeoutError env (opt_taskTimeout (tr_opts r)))) r"
    have "states_ok A T ?r" using inv by (subst states_ok_cong [of _ r]) (simp_all add: runner_inv_def)
    moreover have "answers_ok A ?r" by (rule answers_ok_answer [where tid = tid]) (use inv st in \<open>auto simp: runner_inv_def\<close>)
    moreover have "ending (rt_taskId st) ?r"
      using ending_waiting [OF inv st(2) TaskWaitingForSettings] st(3) by (intro ending_answer) auto
    ultimately show ?thesis using TaskWaitingForSettings by (simp add: taskTimedOut_def Some p finishTask_inv)
  next
    case TaskRunning
    have "runner_inv A T (abort_task TaskAbortingTimeout ''timeout'' ob r)"
      unfolding abort_task_def
      by (rule runner_inv_update [OF inv]) (use inv st(2) TaskRunning states_okD(3) [of A T r ob st] t in \<open>auto simp: runner_inv_def\<close>)
    with TaskRunning show ?thesis by (simp add: taskTimedOut_def Some p)
  qed (use inv t in \<open>simp_all add: taskTimedOut_def Some p\<close>)
qed (simp add: taskTimedOut_def inv)

lemma timeout_timer_inv:
  assumes inv: "runner_inv A T r"
  shows "runner_inv A T (timeout_timer_fired env now ob r)"
proof (cases "map_get (tr_states r) ob")
  case (Some st)
  have ok: "states_ok A T r" using inv by (simp add: runner_inv_def)
  let ?r = "update_state ob (\<lambda>st. st\<lparr>rt_timeoutTimer := False\<rparr>) r"
  show ?thesis
  proof (cases "rt_timeoutTimer st")
    case True
    have "runner_inv A T (taskTimedOut env now (rt_taskId st) ?r)"
    proof (rule taskTimedOut_inv [OF clear_timer_inv [OF inv]])
      fix x st'
      assume *: "running_state ?r (rt_taskId st) = Some (x, st')"
      note st' = running_stateD(2,3) [OF * clear_timer_inv [OF inv]]
      from st'(1) obtain st0 where st0: "map_get (tr_states r) x = Some st0" "rt_taskId st0 = rt_taskId st'" by (auto split: if_splits)
      with states_okD(5) [OF ok Some st0(1)] st'(2) have "x = ob" by simp
      with st'(1) Some True states_okD(4) [OF ok Some] show "rt_status st' \<noteq> TaskAbortingTimeout \<and> \<not> rt_timeoutTimer st'" by auto
    qed
    with True show ?thesis by (simp add: timeout_timer_fired_def Some)
  qed (simp add: timeout_timer_fired_def Some inv)
qed (simp add: timeout_timer_fired_def inv)

text \<open>Settings arrive for the first time.\<close>

lemma execute_inv:
  assumes "runner_inv A T r" "map_get (tr_states r) ob = Some st" "rt_status st \<noteq> TaskWaitingForSettings"
    "map_get (tr_runningTasks r) (rt_taskId st) = Some ob"
  shows "runner_inv A T (r\<lparr>tr_executing := tr_executing r @ [ob], tr_outputs := tr_outputs r @ [ExecuteTask ob tid settings]\<rparr>)"
  using assms unfolding runner_inv_def by (simp add: states_ok_def answers_ok_def) (simp add: running_ok_def)

lemma receivedSettings_inv:
  assumes inv: "runner_inv A T r" and fresh: "tid \<notin> T"
  shows "runner_inv A (insert tid T) (receivedSettings tid settings r)"
proof -
  have ok: "states_ok A T r" and more: "runner_inv A (insert tid T) r"
    using inv by (auto simp: runner_inv_def states_ok_def)
  show ?thesis
  proof (cases "running_state r tid")
    case (Some p)
    obtain ob st where p: "p = (ob, st)" by force
    note st = running_stateD [OF Some [unfolded p] inv]
    have waiting: "rt_status st = TaskWaitingForSettings" using states_okD(3) [OF ok st(2)] fresh st(3) by auto
    let ?r = "update_state ob (\<lambda>st. st\<lparr>rt_status := TaskRunning\<rparr>) r"
    have "runner_inv A (insert tid T) ?r" by (rule runner_inv_update [OF more]) (use st in auto)
    moreover have "map_get (tr_states ?r) ob = Some (st\<lparr>rt_status := TaskRunning\<rparr>)" "map_get (tr_runningTasks ?r) tid = Some ob"
      using st by simp_all
    ultimately have "runner_inv A (insert tid T) (?r\<lparr>tr_executing := tr_executing ?r @ [ob],
        tr_outputs := tr_outputs ?r @ [ExecuteTask ob tid settings]\<rparr>)"
      using st(3) by (intro execute_inv) auto
    with waiting show ?thesis by (simp add: receivedSettings_def Some p Let_def)
  qed (simp add: receivedSettings_def more)
qed

lemma execution_ended_inv:
  assumes inv: "runner_inv A T r"
  shows "runner_inv A T (execution_ended env now ob outcome r)"
proof (cases "ob \<in> set (tr_executing r)")
  case True
  have ok: "states_ok A T r" "running_ok r" "answers_ok A r" using inv by (simp_all add: runner_inv_def)
  from True ok(2) obtain st where st: "map_get (tr_states r) ob = Some st" "rt_status st \<noteq> TaskWaitingForSettings"
    "map_get (tr_runningTasks r) (rt_taskId st) = Some ob" unfolding running_ok_def by blast
  let ?r = "r\<lparr>tr_executing := filter (\<lambda>x. x \<noteq> ob) (tr_executing r)\<rparr>"
  have r: "states_ok A T ?r" "answers_ok A ?r" "answers (rt_taskId st) (tr_outputs ?r) = 0" "rt_taskId st \<in> A"
    using ok st(3) states_okD(2) [OF ok(1) st(1)] by (simp_all add: states_ok_def answers_ok_def running_ok_def)
  have ending: "ending (rt_taskId st) ?r"
    unfolding ending_def
  proof (intro conjI allI ballI impI)
    fix x
    assume "x \<in> set (tr_executing ?r)"
    then have x: "x \<in> set (tr_executing r)" "x \<noteq> ob" by simp_all
    from x(1) ok(2) obtain st' where st': "map_get (tr_states r) x = Some st'" "rt_status st' \<noteq> TaskWaitingForSettings"
      "map_get (tr_runningTasks r) (rt_taskId st') = Some x" unfolding running_ok_def by blast
    with x(2) states_okD(5) [OF ok(1) st'(1) st(1)] show "\<exists>st'. map_get (tr_states ?r) x = Some st' \<and> rt_status st' \<noteq> TaskWaitingForSettings
        \<and> map_get (tr_runningTasks ?r) (rt_taskId st') = Some x \<and> rt_taskId st' \<noteq> rt_taskId st" by auto
  qed (use ok(2) in \<open>simp_all add: running_ok_def\<close>)
  have answer: "runner_inv A T (finishTask env now ob st (send m ?r))" if "\<And>t. t \<noteq> rt_taskId st \<Longrightarrow> \<not> answer_for t (ToBroker m)" for m
  proof (rule finishTask_inv)
    show "states_ok A T (send m ?r)" using r(1) by (subst states_ok_cong [of _ ?r]) simp_all
    show "answers_ok A (send m ?r)" by (rule answers_ok_answer [OF r(2,3,4) that])
    show "ending (rt_taskId st) (send m ?r)" by (rule ending_answer [OF ending that])
  qed
  moreover have "runner_inv A T (finishTask env now ob st ?r)" by (rule finishTask_inv [OF r(1,2) ending])
  ultimately show ?thesis
    using True st(1,2)
    by (cases outcome; cases "rt_status st") (simp_all add: execution_ended_def taskExecutionSucceeded_def taskExecutionFailed_def Let_def)
qed (simp add: execution_ended_def inv)

text \<open>A task is accepted under a new name.\<close>

lemma runner_inv_mono:
  assumes "runner_inv A T r" "A \<subseteq> A'"
  shows "runner_inv A' T r"
proof -
  have "states_ok A' T r" using assms unfolding runner_inv_def states_ok_def by blast
  moreover have "answers_ok A' r" using assms unfolding runner_inv_def answers_ok_def by blast
  ultimately show ?thesis using assms(1) by (simp add: runner_inv_def)
qed

lemma new_task_running:
  assumes ok: "states_ok A T r" "running_ok r" and fresh: "tid \<notin> A" "answers tid (tr_outputs r) = 0" and "rt_taskId st = tid"
  shows "running_ok (r\<lparr>tr_objects := Suc (tr_objects r), tr_states := map_set (tr_objects r) st (tr_states r),
    tr_runningTasks := map_set tid (tr_objects r) (tr_runningTasks r)\<rparr>)" (is "running_ok ?r")
  unfolding running_ok_def
proof (intro conjI allI ballI impI)
  have old: "x < tr_objects r \<and> rt_taskId st' \<noteq> tid" if "map_get (tr_states r) x = Some st'" for x st'
    using states_okD(1,2) [OF ok(1) that] fresh by auto
  {
    fix t x
    assume *: "map_get (tr_runningTasks ?r) t = Some x"
    have "(\<exists>st'. map_get (tr_states ?r) x = Some st' \<and> rt_taskId st' = t) \<and> answers t (tr_outputs ?r) = 0"
    proof (cases "t = tid")
      case True
      with * assms(5) fresh show ?thesis by auto
    next
      case False
      with * have "map_get (tr_runningTasks r) t = Some x" by simp
      with ok(2) obtain st' where st': "map_get (tr_states r) x = Some st'" "rt_taskId st' = t" "answers t (tr_outputs r) = 0"
        unfolding running_ok_def by blast
      with old [OF st'(1)] show ?thesis by simp
    qed
    then show "\<exists>st'. map_get (tr_states ?r) x = Some st' \<and> rt_taskId st' = t" "answers t (tr_outputs ?r) = 0" by blast+
  }
  fix x
  assume "x \<in> set (tr_executing ?r)"
  then have "x \<in> set (tr_executing r)" by simp
  with ok(2) obtain st' where st': "map_get (tr_states r) x = Some st'" "rt_status st' \<noteq> TaskWaitingForSettings"
    "map_get (tr_runningTasks r) (rt_taskId st') = Some x" unfolding running_ok_def by blast
  with old [OF st'(1)] show "\<exists>st'. map_get (tr_states ?r) x = Some st' \<and> rt_status st' \<noteq> TaskWaitingForSettings
      \<and> map_get (tr_runningTasks ?r) (rt_taskId st') = Some x" by simp
qed

lemma new_task_inv:
  assumes inv: "runner_inv A T r" and fresh: "tid \<notin> A"
    and "rt_taskId st = tid" "rt_status st = TaskWaitingForSettings"
  shows "runner_inv (insert tid A) T (r\<lparr>tr_objects := Suc (tr_objects r), tr_states := map_set (tr_objects r) st (tr_states r),
    tr_runningTasks := map_set tid (tr_objects r) (tr_runningTasks r)\<rparr>)" (is "runner_inv _ T ?r")
proof -
  let ?n = "tr_objects r"
  have ok: "states_ok A T r" "running_ok r" "answers_ok A r" using inv by (simp_all add: runner_inv_def)
  have old: "x < ?n \<and> rt_taskId st' \<noteq> tid" if "map_get (tr_states r) x = Some st'" for x st'
    using states_okD(1,2) [OF ok(1) that] fresh by auto
  have "states_ok (insert tid A) T ?r"
  proof (rule states_okI)
    fix x st'
    assume "map_get (tr_states ?r) x = Some st'"
    then show "x < tr_objects ?r \<and> rt_taskId st' \<in> insert tid A \<and> (rt_status st' \<noteq> TaskWaitingForSettings \<longrightarrow> rt_taskId st' \<in> T)
        \<and> (rt_status st' = TaskAbortingTimeout \<longrightarrow> \<not> rt_timeoutTimer st')"
      using states_okD(1-4) [OF ok(1), of x st'] assms(3,4) by (cases "x = ?n") auto
  next
    fix x y s1 s2
    assume "map_get (tr_states ?r) x = Some s1" "map_get (tr_states ?r) y = Some s2" "rt_taskId s1 = rt_taskId s2"
    then show "x = y" using old [of x s1] old [of y s2] states_okD(5) [OF ok(1), of x s1 y s2] assms(3)
      by (cases "x = ?n"; cases "y = ?n") auto
  qed
  moreover have "answers tid (tr_outputs r) = 0" using ok(3) fresh by (auto simp: answers_ok_def)
  then have "running_ok ?r" by (rule new_task_running [OF ok(1,2) fresh _ assms(3)])
  moreover have "answers_ok (insert tid A) ?r" using ok(3) by (auto simp: answers_ok_def)
  ultimately show ?thesis by (simp add: runner_inv_def)
qed

lemma offerAccepted_inv:
  assumes inv: "runner_inv A T r" and fresh: "tid \<notin> A"
  shows "runner_inv (insert tid A) T (offerAccepted offerId tid r)"
proof -
  let ?r = "resetIdleTimer (r\<lparr>tr_openOffers := map_delete offerId (tr_openOffers r)\<rparr>)"
  have offers: "runner_inv A T (r\<lparr>tr_openOffers := os\<rparr>)" for os
    using inv by (subst runner_inv_quiet [of r]) (simp_all add: quiet_task_step_def same_tasks_def)
  then have "runner_inv A T ?r" by simp
  note new = new_task_inv [OF this fresh, of "\<lparr>rt_status = TaskWaitingForSettings, rt_taskId = tid, rt_aborted = None, rt_timeoutTimer = True\<rparr>"]
  have "runner_inv (insert tid A) T r" "runner_inv (insert tid A) T (r\<lparr>tr_openOffers := os\<rparr>)" for os
    using runner_inv_mono [OF inv] runner_inv_mono [OF offers] by blast+
  with new show ?thesis
    by (simp add: offerAccepted_def Let_def harmless_def split: option.split)
qed

definition internal :: "runner_event \<Rightarrow> bool" where
  "internal e = (case e of FromBroker (TaskOfferAccept taskId offerId) \<Rightarrow> False | FromBroker (TaskSettings taskId settings) \<Rightarrow> False
     | _ \<Rightarrow> True)"

lemma quiet_events:
  "quiet_task_step r (send (RunnerInfo n ts) r)" "quiet_task_step r (startTaskOffers r)" "quiet_task_step r (stopTaskOffers r)"
  "quiet_task_step r (processDataResponse q d r)" "quiet_task_step r (processNodeTypesResponse q d r)"
  "quiet_task_step r (handleRpcResponse q status d r)" "quiet_task_step r (idle_timer_fired r)"
  "quiet_task_step r (requestNodeTypes env tid d r)" "quiet_task_step r (requestData env tid d r)"
  "quiet_task_step r (makeRpcCall env tid name ps r)" "quiet_task_step r (clearIdleTimer r)"
  by (simp_all add: quiet_task_step_def same_tasks_def harmless_def startTaskOffers_def stopTaskOffers_def processDataResponse_def
      processNodeTypesResponse_def handleRpcResponse_def idle_timer_fired_def requestNodeTypes_def requestData_def makeRpcCall_def
      clearIdleTimer_def Let_def)

lemma internal_inv:
  assumes "runner_inv A T r" "internal e"
  shows "runner_inv A T (runner_step env (now, e) r)"
proof (cases e)
  case (FromBroker message)
  with assms show ?thesis
    by (cases message) (simp_all add: internal_def taskCancelled_inv quiet_events [THEN runner_inv_quiet])
qed (use assms in \<open>simp_all add: timeout_timer_inv execution_ended_inv quiet_events [THEN runner_inv_quiet]\<close>)

lemma runner_step_inv:
  assumes inv: "runner_inv A T r" and "set (accepted_ids e) \<inter> A = {}" "set (settings_ids e) \<inter> T = {}"
  shows "runner_inv (A \<union> set (accepted_ids e)) (T \<union> set (settings_ids e)) (runner_step env e r)"
proof (cases "internal (snd e)")
  case True
  then have "accepted_ids e = []" "settings_ids e = []"
    by (cases e rule: accepted_ids.cases; simp add: internal_def) (cases e rule: settings_ids.cases; use True in \<open>simp add: internal_def\<close>)
  with internal_inv [OF inv True, of env "fst e"] show ?thesis by simp
next
  case False
  then obtain now tid x where "e = (now, FromBroker (TaskOfferAccept tid x)) \<or> (\<exists>y. e = (now, FromBroker (TaskSettings tid y)))"
    by (cases e) (auto simp: internal_def split: runner_event.splits ToRunner.splits)
  with assms show ?thesis by (auto simp: offerAccepted_inv receivedSettings_inv)
qed

lemma new_Runner_inv: "runner_inv {} {} (new_Runner opts)"
proof -
  have "runner_inv {} {} (new_Runner opts\<lparr>tr_idleTimer := False\<rparr>)"
    by (simp add: runner_inv_defs new_Runner_def resetIdleTimer_def clearIdleTimer_def)
  then show ?thesis by (subst runner_inv_quiet [of "new_Runner opts\<lparr>tr_idleTimer := False\<rparr>"]) (simp_all add: quiet_task_step_def same_tasks_def)
qed

lemma runner_history_inv:
  assumes "runner_inv A T r" "distinct (concat (map accepted_ids es))" "distinct (concat (map settings_ids es))"
    "set (concat (map accepted_ids es)) \<inter> A = {}" "set (concat (map settings_ids es)) \<inter> T = {}"
  shows "runner_inv (A \<union> set (concat (map accepted_ids es))) (T \<union> set (concat (map settings_ids es))) (runner_history env es r)"
  using assms unfolding runner_history_def
proof (induction es arbitrary: A T r)
  case (Cons e es)
  have "runner_inv (A \<union> set (accepted_ids e)) (T \<union> set (settings_ids e)) (runner_step env e r)"
    using Cons.prems by (intro runner_step_inv) auto
  then have "runner_inv ((A \<union> set (accepted_ids e)) \<union> set (concat (map accepted_ids es)))
      ((T \<union> set (settings_ids e)) \<union> set (concat (map settings_ids es))) (fold (runner_step env) es (runner_step env e r))"
    by (rule Cons.IH) (use Cons.prems in auto)
  then show ?case by (simp add: Un_assoc)
qed simp

end
