(* ===== verification/Task_Protocol.thy ===== *)
theory Task_Protocol
  imports Task_Broker_Safety Task_Runner_Safety
begin

text \<open>
  The broker and a runner together. Whatever else happens, the broker uses the name of a task for one
  offer and sends its settings once; so a runner that gets messages of the broker in the order in
  which they were sent never finds a task in a state that its code excludes.
\<close>

section \<open>What the broker sends\<close>

fun offered_task :: "broker_output \<Rightarrow> string list" where
  "offered_task (SendRunner r (TaskOfferAccept t x)) = [t]"
| "offered_task _ = []"

fun configured_task :: "broker_output \<Rightarrow> string list" where
  "configured_task (SendRunner r (TaskSettings t x)) = [t]"
| "configured_task _ = []"

definition offered :: "broker_output list \<Rightarrow> string list" where
  "offered outs = concat (map offered_task outs)"

definition configured :: "broker_output list \<Rightarrow> string list" where
  "configured outs = concat (map configured_task outs)"

lemma offered_simps [simp]:
  "offered [] = []" "offered (outs @ outs') = offered outs @ offered outs'" "offered [x] = offered_task x"
  "configured [] = []" "configured (outs @ outs') = configured outs @ configured outs'" "configured [x] = configured_task x"
  by (simp_all add: offered_def configured_def)

definition protocol_inv :: "(nat \<Rightarrow> string) \<Rightarrow> TaskBroker \<Rightarrow> bool" where
  "protocol_inv nanoid b =
     (distinct (offered (tb_outputs b)) \<and> distinct (configured (tb_outputs b))
      \<and> set (offered (tb_outputs b)) \<union> set (configured (tb_outputs b)) \<union> set (map_keys (tb_accepting b)) \<subseteq> nanoid ` {..<tb_ids b}
      \<and> set (map_keys (tb_accepting b)) \<inter> set (configured (tb_outputs b)) = {})"

lemma silent_output: "quiet x \<or> final_for t x \<Longrightarrow> offered_task x = [] \<and> configured_task x = []"
  by (cases x rule: quiet.cases) auto

lemma offered_sent:
  assumes "sent P b b'" "\<And>x. P x \<Longrightarrow> offered_task x = [] \<and> configured_task x = []"
  shows "offered (tb_outputs b') = offered (tb_outputs b)" "configured (tb_outputs b') = configured (tb_outputs b)"
  using assms by (auto simp: sent_def offered_def configured_def list_all_iff)

lemma keys_map_set: "set (map_keys (map_set k v m)) = insert k (set (map_keys m))"
  by (induction m) auto

lemma keys_map_delete: "set (map_keys (map_delete k m)) = set (map_keys m) - {k}"
  by (auto simp: map_delete_def)

lemma protocol_inv_cong:
  assumes "protocol_inv nanoid b" "tb_ids b' = tb_ids b" "set (map_keys (tb_accepting b')) \<subseteq> set (map_keys (tb_accepting b))"
    "offered (tb_outputs b') = offered (tb_outputs b)" "configured (tb_outputs b') = configured (tb_outputs b)"
  shows "protocol_inv nanoid b'"
  using assms unfolding protocol_inv_def by (simp del: set_map) blast

lemma protocol_inv_accepted:
  assumes "protocol_inv nanoid b"
  shows "protocol_inv nanoid (handleRunnerAccept tid b)"
proof -
  have key: "map_get (tb_accepting b) tid = Some c \<Longrightarrow> tid \<in> set (map_keys (tb_accepting b))" for c
    by (auto dest: map_of_SomeD simp: rev_image_eqI)
  have "tb_ids (handleRunnerAccept tid b) = tb_ids b" "offered (tb_outputs (handleRunnerAccept tid b)) = offered (tb_outputs b)"
    "configured (tb_outputs (handleRunnerAccept tid b)) = configured (tb_outputs b)"
    "set (map_keys (tb_accepting (handleRunnerAccept tid b))) \<subseteq> set (map_keys (tb_accepting b))"
    using key by (auto simp: handleRunnerAccept_def runner_accepted_def messageRequester_def keys_map_set keys_map_delete Let_def
        simp del: set_map split: option.split accept_call.split)
  then show ?thesis by (intro protocol_inv_cong [OF assms]) simp_all
qed

lemma protocol_inv_settle:
  assumes "protocol_inv nanoid b" "inj nanoid"
  shows "protocol_inv nanoid (settle_request nanoid i b)"
proof -
  let ?n = "nanoid (tb_ids b)"
  have new: "?n \<notin> nanoid ` {..<tb_ids b}" using assms(2) by (auto dest: injD)
  have sub: "nanoid ` {..<Suc (tb_ids b)} = insert ?n (nanoid ` {..<tb_ids b})" by (auto simp: lessThan_Suc)
  have "protocol_inv nanoid (acceptOffer nanoid offer request (b\<lparr>tb_pendingTaskRequests := rs, tb_pendingTaskOffers := os\<rparr>))"
    for offer request rs os
    using assms(1) new
    by (auto simp: acceptOffer_def messageRunner_def protocol_inv_def Let_def keys_map_set sub simp del: set_map)
  with assms(1) show ?thesis by (simp add: settle_request_def set_progress_def Let_def split: option.split)
qed

interpretation protocol: broker_invariant nanoid "\<lambda>b. inj nanoid \<and> protocol_inv nanoid b" "\<lambda>_ _. True" for nanoid
proof
  fix b b'
  assume inv: "inj nanoid \<and> protocol_inv nanoid b" and "quiet_step b b'"
  with offered_sent [of quiet b b'] silent_output show "inj nanoid \<and> protocol_inv nanoid b'"
    by (auto simp: quiet_step_def same_calls_def intro!: protocol_inv_cong [of nanoid b])
next
  fix b b' tid task k
  assume inv: "inj nanoid \<and> protocol_inv nanoid b" and "end_step tid task k b b'"
  with offered_sent [of "\<lambda>x. quiet x \<or> final_for k x" b b'] silent_output show "inj nanoid \<and> protocol_inv nanoid b'"
    by (auto simp: end_step_def same_calls_def intro!: protocol_inv_cong [of nanoid b])
next
  fix b tid and task :: Task and runnerId settings
  assume inv: "inj nanoid \<and> protocol_inv nanoid b" and "awaits_requester b tid"
  then have key: "tid \<in> set (map_keys (tb_accepting b))"
    by (auto simp: awaits_requester_def rev_image_eqI dest: map_of_SomeD split: option.splits)
  from inv key show "inj nanoid \<and> protocol_inv nanoid ((messageRunner runnerId (TaskSettings tid settings)
      (b\<lparr>tb_tasks := map_set tid (task\<lparr>task_timeout := True\<rparr>) (tb_tasks b)\<rparr>))\<lparr>tb_accepting := map_delete tid (tb_accepting b)\<rparr>)"
    by (auto simp: protocol_inv_def messageRunner_def keys_map_delete simp del: set_map)
next
  fix b tid
  assume "inj nanoid \<and> protocol_inv nanoid b"
  then show "inj nanoid \<and> protocol_inv nanoid (b\<lparr>tb_accepting := map_delete tid (tb_accepting b)\<rparr>)"
    by (auto simp: keys_map_delete simp del: set_map intro!: protocol_inv_cong [of nanoid b])
next
  fix b tid why
  assume inv: "inj nanoid \<and> protocol_inv nanoid b"
  have "tb_ids (runner_refused tid why b) = tb_ids b"
    "set (map_keys (tb_accepting (runner_refused tid why b))) \<subseteq> set (map_keys (tb_accepting b))"
    by (auto simp: runner_refused_def set_progress_def keys_map_delete Let_def simp del: set_map split: option.split accept_call.split)
  with inv show "inj nanoid \<and> protocol_inv nanoid (runner_refused tid why b)"
    using protocol_inv_cong [of nanoid b "runner_refused tid why b"] by (simp del: set_map)
next
  fix b tid
  assume "inj nanoid \<and> protocol_inv nanoid b"
  then show "inj nanoid \<and> protocol_inv nanoid (b\<lparr>tb_runnerAcceptRejects := set_delete tid (tb_runnerAcceptRejects b)\<rparr>)"
    by (simp add: protocol_inv_def)
next
  fix b requestId taskType requesterId
  assume "inj nanoid \<and> protocol_inv nanoid b"
  then show "inj nanoid \<and> protocol_inv nanoid (push_request taskType requestId requesterId b)"
    by (simp add: push_request_def protocol_inv_def)
qed (auto intro: protocol_inv_accepted protocol_inv_settle)

lemma history_protocol_inv:
  assumes "inj nanoid" "protocol_inv nanoid b"
  shows "protocol_inv nanoid (broker_history nanoid config es b)"
  using assms(2) unfolding broker_history_def
  by (induction es arbitrary: b) (use assms(1) protocol.event_kept in auto)

lemma new_TaskBroker_protocol_inv: "new_TaskBroker config = Inr b \<Longrightarrow> protocol_inv nanoid b"
  by (auto simp: new_TaskBroker_def protocol_inv_def split: if_splits)

section \<open>What a runner gets\<close>

fun to_runner :: "string \<Rightarrow> broker_output \<Rightarrow> ToRunner list" where
  "to_runner runnerId (SendRunner r m) = (if r = runnerId then [m] else [])"
| "to_runner runnerId _ = []"

definition inbox :: "string \<Rightarrow> broker_output list \<Rightarrow> ToRunner list" where
  "inbox runnerId outs = concat (map (to_runner runnerId) outs)"

fun received :: "int \<times> runner_event \<Rightarrow> ToRunner list" where
  "received (now, FromBroker m) = [m]"
| "received _ = []"

fun accept_id :: "ToRunner \<Rightarrow> string list" where
  "accept_id (TaskOfferAccept t x) = [t]"
| "accept_id _ = []"

fun settings_id :: "ToRunner \<Rightarrow> string list" where
  "settings_id (TaskSettings t x) = [t]"
| "settings_id _ = []"

lemma received_ids:
  "concat (map accepted_ids es) = concat (map accept_id (concat (map received es)))"
  "concat (map settings_ids es) = concat (map settings_id (concat (map received es)))"
proof -
  have "accepted_ids e = concat (map accept_id (received e))" for e
    by (cases e rule: accepted_ids.cases) simp_all
  moreover have "settings_ids e = concat (map settings_id (received e))" for e
    by (cases e rule: settings_ids.cases) simp_all
  ultimately show "concat (map accepted_ids es) = concat (map accept_id (concat (map received es)))"
    "concat (map settings_ids es) = concat (map settings_id (concat (map received es)))"
    by (induction es) auto
qed

lemma concat_map_distinct:
  assumes "distinct (concat (map f xs))" "\<And>x. g x = f x \<or> g x = []"
  shows "distinct (concat (map g xs)) \<and> set (concat (map g xs)) \<subseteq> set (concat (map f xs))"
  using assms(1)
proof (induction xs)
  case (Cons x xs)
  then have "distinct (concat (map g xs))" "set (concat (map g xs)) \<subseteq> set (concat (map f xs))" by simp_all
  moreover have "distinct (f x)" "set (f x) \<inter> set (concat (map f xs)) = {}" using Cons.prems by simp_all
  ultimately have "distinct (g x)" "set (g x) \<inter> set (concat (map g xs)) = {}" "set (g x) \<subseteq> set (f x)"
    using assms(2) [of x] by (elim disjE; fastforce)+
  moreover note \<open>distinct (concat (map g xs))\<close> \<open>set (concat (map g xs)) \<subseteq> set (concat (map f xs))\<close>
  ultimately show ?case by (simp del: set_concat add: le_supI1 le_supI2)
qed simp

lemma inbox_ids:
  "distinct (offered outs) \<Longrightarrow> distinct (concat (map accept_id (inbox runnerId outs)))"
  "distinct (configured outs) \<Longrightarrow> distinct (concat (map settings_id (inbox runnerId outs)))"
proof -
  have "concat (map accept_id (inbox runnerId outs)) = concat (map (\<lambda>x. concat (map accept_id (to_runner runnerId x))) outs)"
    "concat (map settings_id (inbox runnerId outs)) = concat (map (\<lambda>x. concat (map settings_id (to_runner runnerId x))) outs)"
    unfolding inbox_def by (induction outs) simp_all
  moreover have "concat (map accept_id (to_runner runnerId x)) = offered_task x \<or> concat (map accept_id (to_runner runnerId x)) = []"
    "concat (map settings_id (to_runner runnerId x)) = configured_task x \<or> concat (map settings_id (to_runner runnerId x)) = []" for x
    by (cases x rule: offered_task.cases; simp)+
  ultimately show "distinct (offered outs) \<Longrightarrow> distinct (concat (map accept_id (inbox runnerId outs)))"
    "distinct (configured outs) \<Longrightarrow> distinct (concat (map settings_id (inbox runnerId outs)))"
    unfolding offered_def configured_def using concat_map_distinct by metis+
qed

text \<open>A runner that has got the first messages that the broker sent to it, in between of which its timers
  fire and its tasks end and make requests at any time.\<close>

lemma runner_with_broker:
  assumes "protocol_inv nanoid b" "inbox runnerId (tb_outputs b) = concat (map received es) @ rest"
  shows "runner_inv (set (concat (map accepted_ids es))) (set (concat (map settings_ids es))) (runner_history env es (new_Runner opts))"
proof -
  have "distinct (concat (map accept_id (inbox runnerId (tb_outputs b))))" "distinct (concat (map settings_id (inbox runnerId (tb_outputs b))))"
    using assms(1) inbox_ids by (simp_all add: protocol_inv_def)
  then have "distinct (concat (map accepted_ids es))" "distinct (concat (map settings_ids es))"
    by (simp_all add: received_ids assms(2))
  from runner_history_inv [OF new_Runner_inv this] show ?thesis by simp
qed

end
