(* ===== verification/Extractable_Subgraph.thy ===== *)
theory Extractable_Subgraph
  imports Workflow_Types
begin

text \<open>
  The selection of nodes that can be turned into a sub-workflow, of
  \<open>packages/workflow/src/graph/graph-utils.ts\<close>: edges into and out of a selection, its root and leaf
  nodes, the search for a path, and the parser of selections, which is shown to accept exactly the
  selections with one way in and one way out.

  A set of node names is a list without duplicates. The connections of an adjacency list are objects,
  and each is added once, so their sets are lists in the order of insertion. The stack of the search
  is a list whose head is the end of the array.
\<close>

section \<open>Sets\<close>

definition set_intersection :: "'a list \<Rightarrow> 'a list \<Rightarrow> 'a list" where
  "set_intersection a b = fold (\<lambda>x result. if x \<in> set b then set_add x result else result) a []"

definition set_union :: "'a list \<Rightarrow> 'a list \<Rightarrow> 'a list" where
  "set_union a b = fold set_add b (fold set_add a [])"

definition set_difference :: "'a list \<Rightarrow> 'a list \<Rightarrow> 'a list" where
  "set_difference minuend subtrahend = fold set_delete subtrahend minuend"

lemma set_set_intersection [simp]: "set (set_intersection a b) = set a \<inter> set b"
proof -
  have "set (fold (\<lambda>x result. if x \<in> set b then set_add x result else result) a r) = set r \<union> (set a \<inter> set b)" for r
    by (induction a arbitrary: r) auto
  then show ?thesis by (simp add: set_intersection_def)
qed

lemma distinct_set_intersection [simp]: "distinct (set_intersection a b)"
proof -
  have "distinct r \<Longrightarrow> distinct (fold (\<lambda>x result. if x \<in> set b then set_add x result else result) a r)" for r
    by (induction a arbitrary: r) auto
  then show ?thesis by (simp add: set_intersection_def)
qed

lemma set_set_union [simp]: "set (set_union a b) = set a \<union> set b"
  by (auto simp: set_union_def)

lemma set_set_difference [simp]: "set (set_difference a b) = set a - set b"
  unfolding set_difference_def by (induction b arbitrary: a) auto

section \<open>Adjacency lists\<close>

type_synonym IConnectionAdjacencyList = "(string, IConnection list) jsmap"

definition connections_of :: "IConnectionAdjacencyList \<Rightarrow> string \<Rightarrow> IConnection list" where
  "connections_of adj n = (case map_get adj n of None \<Rightarrow> [] | Some cs \<Rightarrow> cs)"

definition getInputEdges :: "string list \<Rightarrow> IConnectionAdjacencyList \<Rightarrow> (string \<times> IConnection) list" where
  "getInputEdges graphIds adj =
     concat (map (\<lambda>(a, cs). if a \<in> set graphIds then []
       else map (Pair a) (filter (\<lambda>c. conn_node c \<in> set graphIds) cs)) adj)"

definition getOutputEdges :: "string list \<Rightarrow> IConnectionAdjacencyList \<Rightarrow> (string \<times> IConnection) list" where
  "getOutputEdges graphIds adj =
     concat (map (\<lambda>(a, cs). if a \<notin> set graphIds then []
       else map (Pair a) (filter (\<lambda>c. conn_node c \<notin> set graphIds) cs)) adj)"

definition main_targets :: "IConnectionAdjacencyList \<Rightarrow> string \<Rightarrow> string list" where
  "main_targets adj n = map conn_node (filter (\<lambda>c. conn_type c = Main) (connections_of adj n))"

definition other_targets :: "IConnectionAdjacencyList \<Rightarrow> string \<Rightarrow> string list" where
  "other_targets adj n =
     set_of_list (map conn_node (filter (\<lambda>c. conn_type c = Main \<and> conn_node c \<noteq> n) (connections_of adj n)))"

definition getRootNodes :: "string list \<Rightarrow> IConnectionAdjacencyList \<Rightarrow> string list" where
  "getRootNodes graphIds adj =
     (let innerNodes = fold (\<lambda>nodeId inner. set_union inner (other_targets adj nodeId)) graphIds []
      in set_difference graphIds innerNodes)"

definition getLeafNodes :: "string list \<Rightarrow> IConnectionAdjacencyList \<Rightarrow> string list" where
  "getLeafNodes graphIds adj =
     fold (\<lambda>nodeId result. if length (set_intersection (other_targets adj nodeId) graphIds) = 0
       then set_add nodeId result else result) graphIds []"

definition addOrCreate :: "string \<Rightarrow> IConnection \<Rightarrow> IConnectionAdjacencyList \<Rightarrow> IConnectionAdjacencyList" where
  "addOrCreate k v result = map_set k (connections_of result k @ [v]) result"

definition buildAdjacencyList :: "IConnections \<Rightarrow> IConnectionAdjacencyList" where
  "buildAdjacencyList connections =
     fold (\<lambda>(sourceNode, types) result.
       fold (\<lambda>(type, outputs) result.
         fold (\<lambda>cell result. fold (addOrCreate sourceNode) (case cell of Val cs \<Rightarrow> cs | _ \<Rightarrow> []) result)
           outputs result) types result) (object_entries connections) []"

section \<open>The search for a path\<close>

definition all_targets :: "IConnectionAdjacencyList \<Rightarrow> string set" where
  "all_targets adj = (\<Union>(n, cs) \<in> set adj. conn_node ` set cs)"

lemma finite_all_targets [simp]: "finite (all_targets adj)"
  by (auto simp: all_targets_def)

lemma main_targets_subset: "set (main_targets adj n) \<subseteq> all_targets adj"
proof -
  have "conn_node c \<in> all_targets adj" if "map_get adj n = Some cs" "c \<in> set cs" for c cs
    using map_of_SomeD [OF that(1)] that(2) by (auto simp: all_targets_def)
  then show ?thesis by (cases "map_get adj n") (auto simp: main_targets_def connections_of_def)
qed

function path_loop :: "IConnectionAdjacencyList \<Rightarrow> string \<Rightarrow> string list \<Rightarrow> string list \<Rightarrow> bool" where
  "path_loop adj target [] seen = False"
| "path_loop adj target (next # paths) seen =
     (if next = target then True
      else let seen' = set_add next seen
           in path_loop adj target (rev (set_difference (set_of_list (main_targets adj next)) seen') @ paths) seen')"
  by pat_completeness auto

text \<open>
  Either a name is seen for the first time, or the name on top was seen before; then names that are
  not seen are put on top of it, or the stack shrinks.
\<close>

definition unseen_top :: "string list \<Rightarrow> string list \<Rightarrow> nat" where
  "unseen_top paths seen = (if paths \<noteq> [] \<and> hd paths \<notin> set seen then 0 else Suc (length paths))"

lemma unseen_top_less:
  assumes "next \<in> set seen" "set fresh \<inter> set seen = {}"
  shows "unseen_top (fresh @ paths) seen < unseen_top (next # paths) seen"
  using assms by (cases fresh) (auto simp: unseen_top_def)

termination path_loop
proof (relation "measures [\<lambda>(adj, target, paths, seen). card (all_targets adj \<union> set paths - set seen),
    \<lambda>(adj, target, paths, seen). unseen_top paths seen]", simp)
  fix adj and target "next" :: string and paths seen seen'
  assume seen': "seen' = set_add next seen"
  let ?new = "rev (set_difference (set_of_list (main_targets adj next)) seen')"
  let ?V = "all_targets adj \<union> set (next # paths)"
  have sub: "all_targets adj \<union> set (?new @ paths) - set seen' \<subseteq> ?V - set seen'"
    using main_targets_subset [of adj "next"] by auto
  show "((adj, target, ?new @ paths, seen'), adj, target, next # paths, seen) \<in>
    measures [\<lambda>(adj, target, paths, seen). card (all_targets adj \<union> set paths - set seen),
      \<lambda>(adj, target, paths, seen). unseen_top paths seen]"
  proof (cases "next \<in> set seen")
    case False
    then have "?V - set seen' \<subset> ?V - set seen" by (auto simp: seen')
    then have "card (?V - set seen') < card (?V - set seen)" by (intro psubset_card_mono) auto
    moreover have "card (all_targets adj \<union> set (?new @ paths) - set seen') \<le> card (?V - set seen')"
      using sub by (intro card_mono) auto
    ultimately show ?thesis by simp
  next
    case True
    then have same: "seen' = seen" by (simp add: seen' set_add_def)
    have "card (all_targets adj \<union> set (?new @ paths) - set seen) \<le> card (?V - set seen)"
      using sub by (intro card_mono) (auto simp: same)
    moreover have "unseen_top (?new @ paths) seen < unseen_top (next # paths) seen"
      by (rule unseen_top_less [OF True]) (auto simp: same)
    ultimately show ?thesis by (auto simp: same)
  qed
qed

definition hasPath :: "string \<Rightarrow> string \<Rightarrow> IConnectionAdjacencyList \<Rightarrow> bool" where
  "hasPath start target adj = path_loop adj target [start] []"

section \<open>Selections\<close>

datatype ExtractableErrorResult =
    MultipleInputNodesError "string list"
  | MultipleOutputNodesError "string list"
  | InputEdgeToNonRootNode string
  | OutputEdgeFromNonLeafNode string
  | NoContinuousPathFromRootToLeaf string string

record ExtractableSubgraphData =
  subgraph_start :: "string option"
  subgraph_end :: "string option"

definition first_value :: "'a list \<Rightarrow> 'a option" where
  "first_value xs = (case xs of [] \<Rightarrow> None | x # _ \<Rightarrow> Some x)"

definition parseExtractableSubgraphSelection ::
  "string list \<Rightarrow> IConnectionAdjacencyList \<Rightarrow> ExtractableErrorResult list + ExtractableSubgraphData" where
  "parseExtractableSubgraphSelection graphIds adj =
     (let inputNodes = set_of_list (map (\<lambda>x. conn_node (snd x)) (filter (\<lambda>x. conn_type (snd x) = Main) (getInputEdges graphIds adj)));
          roots = getRootNodes graphIds adj;
          rootNodes = (if length roots = 0 \<and> length inputNodes = 1 then inputNodes else roots);
          rootInputNodes = set_intersection rootNodes inputNodes;
          outputNodes = set_of_list (map fst (filter (\<lambda>x. conn_type (snd x) = Main) (getOutputEdges graphIds adj)));
          leaves = getLeafNodes graphIds adj;
          leafNodes = (if length leaves = 0 \<and> length outputNodes = 1 then outputNodes else leaves);
          leafOutputNodes = set_intersection leafNodes outputNodes;
          start = first_value rootInputNodes;
          end' = first_value leafOutputNodes;
          errors =
            map InputEdgeToNonRootNode (set_difference inputNodes rootNodes) @
            (if 1 < length rootInputNodes then [MultipleInputNodesError rootInputNodes] else []) @
            map OutputEdgeFromNonLeafNode (set_difference outputNodes leafNodes) @
            (if 1 < length leafOutputNodes then [MultipleOutputNodesError leafOutputNodes] else []) @
            (case (start, end') of
               (Some s, Some e) \<Rightarrow>
                 if s \<noteq> [] \<and> e \<noteq> [] \<and> \<not> hasPath s e adj then [NoContinuousPathFromRootToLeaf s e] else []
             | _ \<Rightarrow> [])
      in if 0 < length errors then Inl errors else Inr \<lparr>subgraph_start = start, subgraph_end = end'\<rparr>)"

section \<open>Correctness\<close>

definition main_links :: "IConnectionAdjacencyList \<Rightarrow> (string \<times> string) set" where
  "main_links adj = {(a, b). b \<in> set (main_targets adj a)}"

text \<open>The search is a search for reachability, also through names that are on the stack twice.\<close>

lemma path_loop_sound: "path_loop adj target paths seen \<Longrightarrow> \<exists>x \<in> set paths. (x, target) \<in> (main_links adj)\<^sup>*"
proof (induction adj target paths seen rule: path_loop.induct)
  case (2 adj target "next" paths seen)
  show ?case
  proof (cases "next = target")
    case False
    with 2 obtain x where x: "x \<in> set (main_targets adj next) \<union> set paths" "(x, target) \<in> (main_links adj)\<^sup>*"
      by (fastforce simp: Let_def)
    then show ?thesis by (auto simp: main_links_def intro: converse_rtrancl_into_rtrancl)
  qed simp
qed simp

lemma path_loop_complete:
  assumes "target \<notin> set seen" "\<And>a b. a \<in> set seen \<Longrightarrow> (a, b) \<in> main_links adj \<Longrightarrow> b \<in> set seen \<union> set paths"
    "x \<in> set seen \<union> set paths" "(x, target) \<in> (main_links adj)\<^sup>*"
  shows "path_loop adj target paths seen"
  using assms
proof (induction adj target paths seen arbitrary: x rule: path_loop.induct)
  case (1 adj target seen)
  from 1(4,3) have "target \<in> set seen" by (induction rule: rtrancl_induct) (use 1(2) in auto)
  with 1(1) show ?case by simp
next
  case (2 adj target "next" paths seen)
  show ?case
  proof (cases "next = target")
    case False
    let ?seen = "set_add next seen"
    let ?paths = "rev (set_difference (set_of_list (main_targets adj next)) ?seen) @ paths"
    have "path_loop adj target ?paths ?seen"
    proof (rule "2.IH" [OF False refl])
      show "b \<in> set ?seen \<union> set ?paths" if "a \<in> set ?seen" "(a, b) \<in> main_links adj" for a b
        using that "2.prems"(2) [of a b] by (auto simp: main_links_def)
      show "x \<in> set ?seen \<union> set ?paths" using "2.prems"(3) by auto
    qed (use False "2.prems"(1,4) in auto)
    with False show ?thesis by (simp add: Let_def)
  qed simp
qed

lemma hasPath_iff: "hasPath start target adj \<longleftrightarrow> (start, target) \<in> (main_links adj)\<^sup>*"
  using path_loop_sound [of adj target "[start]" "[]"] path_loop_complete [of target "[]" adj "[start]" start]
  by (auto simp: hasPath_def)

text \<open>Where main connections enter and leave a selection, and where it begins and ends.\<close>

definition selection_inputs :: "string set \<Rightarrow> IConnectionAdjacencyList \<Rightarrow> string set" where
  "selection_inputs S adj = {b \<in> S. \<exists>a. a \<notin> S \<and> (a, b) \<in> main_links adj}"

definition selection_outputs :: "string set \<Rightarrow> IConnectionAdjacencyList \<Rightarrow> string set" where
  "selection_outputs S adj = {a \<in> S. \<exists>b. b \<notin> S \<and> (a, b) \<in> main_links adj}"

definition selection_roots :: "string set \<Rightarrow> IConnectionAdjacencyList \<Rightarrow> string set" where
  "selection_roots S adj = {b \<in> S. \<forall>a \<in> S. (a, b) \<in> main_links adj \<longrightarrow> a = b}"

definition selection_leaves :: "string set \<Rightarrow> IConnectionAdjacencyList \<Rightarrow> string set" where
  "selection_leaves S adj = {a \<in> S. \<forall>b \<in> S. (a, b) \<in> main_links adj \<longrightarrow> a = b}"

text \<open>
  A selection with one way in, at a root if there is one, one way out, at a leaf if there is one, and
  a path inside the selection from the one to the other.
\<close>

definition extractable :: "string set \<Rightarrow> IConnectionAdjacencyList \<Rightarrow> string option \<Rightarrow> string option \<Rightarrow> bool" where
  "extractable S adj s e \<longleftrightarrow>
     selection_inputs S adj = set_option s \<and> selection_outputs S adj = set_option e
     \<and> (selection_roots S adj = {} \<or> selection_inputs S adj \<subseteq> selection_roots S adj)
     \<and> (selection_leaves S adj = {} \<or> selection_outputs S adj \<subseteq> selection_leaves S adj)
     \<and> (\<forall>x \<in> set_option s. \<forall>y \<in> set_option e. (x, y) \<in> (main_links adj \<inter> S \<times> S)\<^sup>*)"

lemma connections_of_wf: "map_wf adj \<Longrightarrow> c \<in> set (connections_of adj n) \<longleftrightarrow> (\<exists>cs. (n, cs) \<in> set adj \<and> c \<in> set cs)"
  by (cases "map_get adj n") (auto simp: connections_of_def map_wf_get_iff [symmetric])

lemma main_links_iff: "(a, b) \<in> main_links adj \<longleftrightarrow> (\<exists>c \<in> set (connections_of adj a). conn_type c = Main \<and> conn_node c = b)"
  by (auto simp: main_links_def main_targets_def)

lemma input_nodes:
  assumes "map_wf adj"
  shows "(\<lambda>x. conn_node (snd x)) ` {x \<in> set (getInputEdges ids adj). conn_type (snd x) = Main} = selection_inputs (set ids) adj"
proof -
  have "(a, c) \<in> set (getInputEdges ids adj) \<longleftrightarrow> a \<notin> set ids \<and> c \<in> set (connections_of adj a) \<and> conn_node c \<in> set ids" for a c
    by (force simp: getInputEdges_def connections_of_wf [OF assms] split: if_splits)
  then show ?thesis by (force simp: selection_inputs_def main_links_iff image_iff)
qed

lemma output_nodes:
  assumes "map_wf adj"
  shows "fst ` {x \<in> set (getOutputEdges ids adj). conn_type (snd x) = Main} = selection_outputs (set ids) adj"
proof -
  have "(a, c) \<in> set (getOutputEdges ids adj) \<longleftrightarrow> a \<in> set ids \<and> c \<in> set (connections_of adj a) \<and> conn_node c \<notin> set ids" for a c
    by (force simp: getOutputEdges_def connections_of_wf [OF assms] split: if_splits)
  then show ?thesis by (force simp: selection_outputs_def main_links_iff image_iff)
qed

lemma set_other_targets: "set (other_targets adj n) = {b. (n, b) \<in> main_links adj \<and> b \<noteq> n}"
  by (auto simp: other_targets_def main_links_iff)

lemma set_getRootNodes: "set (getRootNodes ids adj) = selection_roots (set ids) adj"
proof -
  have "set (fold (\<lambda>n inner. set_union inner (other_targets adj n)) xs r) = set r \<union> (\<Union>n \<in> set xs. set (other_targets adj n))" for xs r
    by (induction xs arbitrary: r) auto
  then show ?thesis by (auto simp: getRootNodes_def selection_roots_def set_other_targets)
qed

lemma set_getLeafNodes: "set (getLeafNodes ids adj) = selection_leaves (set ids) adj"
proof -
  have "set (fold (\<lambda>n r. if length (set_intersection (other_targets adj n) ids) = 0 then set_add n r else r) xs r)
      = set r \<union> {n \<in> set xs. set (other_targets adj n) \<inter> set ids = {}}" for xs r
    by (induction xs arbitrary: r) (auto simp flip: set_set_intersection)
  then show ?thesis by (auto simp: getLeafNodes_def selection_leaves_def set_other_targets)
qed

text \<open>The checks of the ways in, and likewise of the ways out.\<close>

lemma checks_iff:
  assumes "distinct I" "R' = (if length R = 0 \<and> length I = 1 then I else R)"
  shows "set_difference I R' = [] \<and> \<not> 1 < length (set_intersection R' I) \<and> first_value (set_intersection R' I) = s
    \<longleftrightarrow> set I = set_option s \<and> (set R = {} \<or> set I \<subseteq> set R)" (is "?checks \<longleftrightarrow> ?spec")
proof -
  have diff: "set_difference I R' = [] \<longleftrightarrow> set I \<subseteq> set R'"
    by (metis Diff_eq_empty_iff set_empty set_set_difference)
  have cut: "set I \<subseteq> set R' \<Longrightarrow> set (set_intersection R' I) = set I" by auto
  have one: "\<not> 1 < length xs \<and> first_value xs = s \<longleftrightarrow> set xs = set_option s" if "distinct xs" for xs :: "'a list"
    using that by (cases xs; cases "tl xs"; cases s) (auto simp: first_value_def)
  have "?checks \<longleftrightarrow> set I \<subseteq> set R' \<and> set (set_intersection R' I) = set_option s"
    using one [OF distinct_set_intersection [of R' I]] unfolding diff by blast
  also have "\<dots> \<longleftrightarrow> set I \<subseteq> set R' \<and> set I = set_option s" using cut by metis
  also have "\<dots> \<longleftrightarrow> ?spec"
  proof (cases "length R = 0 \<and> length I = 1")
    case False
    with one [OF assms(1)] show ?thesis by (cases R; cases I; cases s) (auto simp: assms(2))
  qed (auto simp: assms(2))
  finally show ?thesis .
qed

text \<open>With one way out, a path that leaves the selection has been at the way out before.\<close>

lemma path_inside:
  assumes "x \<in> S" "selection_outputs S adj \<subseteq> {y}" "y \<in> S"
  shows "(x, y) \<in> (main_links adj)\<^sup>* \<longleftrightarrow> (x, y) \<in> (main_links adj \<inter> S \<times> S)\<^sup>*"
proof
  assume "(x, y) \<in> (main_links adj)\<^sup>*"
  then show "(x, y) \<in> (main_links adj \<inter> S \<times> S)\<^sup>*" using assms(1)
  proof (induction rule: converse_rtrancl_induct)
    case (step a b)
    show ?case
    proof (cases "b \<in> S")
      case True
      with step show ?thesis by (blast intro: converse_rtrancl_into_rtrancl)
    next
      case False
      with step have "a \<in> selection_outputs S adj" by (auto simp: selection_outputs_def)
      with assms(2) show ?thesis by auto
    qed
  qed simp
qed (rule rtrancl_mono [THEN subsetD]; simp)

lemma parse_iff:
  assumes "map_wf adj" "[] \<notin> set ids"
  shows "parseExtractableSubgraphSelection ids adj = Inr \<lparr>subgraph_start = s, subgraph_end = e\<rparr> \<longleftrightarrow> extractable (set ids) adj s e"
proof -
  define I where "I = set_of_list (map (\<lambda>x. conn_node (snd x)) (filter (\<lambda>x. conn_type (snd x) = Main) (getInputEdges ids adj)))"
  define R where "R = getRootNodes ids adj"
  define R' where "R' = (if length R = 0 \<and> length I = 1 then I else R)"
  define Q where "Q = set_of_list (map fst (filter (\<lambda>x. conn_type (snd x) = Main) (getOutputEdges ids adj)))"
  define L where "L = getLeafNodes ids adj"
  define L' where "L' = (if length L = 0 \<and> length Q = 1 then Q else L)"
  have sets: "set I = selection_inputs (set ids) adj" "set Q = selection_outputs (set ids) adj"
    "set R = selection_roots (set ids) adj" "set L = selection_leaves (set ids) adj"
    by (simp_all add: I_def Q_def R_def L_def input_nodes [OF assms(1)] output_nodes [OF assms(1)] set_getRootNodes set_getLeafNodes)
  have "parseExtractableSubgraphSelection ids adj = Inr \<lparr>subgraph_start = s, subgraph_end = e\<rparr> \<longleftrightarrow>
    (set_difference I R' = [] \<and> \<not> 1 < length (set_intersection R' I) \<and> first_value (set_intersection R' I) = s)
    \<and> (set_difference Q L' = [] \<and> \<not> 1 < length (set_intersection L' Q) \<and> first_value (set_intersection L' Q) = e)
    \<and> (\<forall>x \<in> set_option s. \<forall>y \<in> set_option e. x \<noteq> [] \<and> y \<noteq> [] \<longrightarrow> hasPath x y adj)"
    unfolding parseExtractableSubgraphSelection_def Let_def I_def [symmetric] Q_def [symmetric] R_def [symmetric]
      L_def [symmetric] R'_def [symmetric] L'_def [symmetric]
    by (cases s; cases e) (auto split: option.splits)
  also have "\<dots> \<longleftrightarrow> (set I = set_option s \<and> (set R = {} \<or> set I \<subseteq> set R)) \<and> (set Q = set_option e \<and> (set L = {} \<or> set Q \<subseteq> set L))
    \<and> (\<forall>x \<in> set_option s. \<forall>y \<in> set_option e. x \<noteq> [] \<and> y \<noteq> [] \<longrightarrow> hasPath x y adj)"
    using checks_iff [OF _ R'_def, of s] checks_iff [OF _ L'_def, of e] by (simp add: I_def Q_def)
  also have "\<dots> \<longleftrightarrow> extractable (set ids) adj s e"
  proof -
    have "(x \<noteq> [] \<and> y \<noteq> [] \<longrightarrow> hasPath x y adj) \<longleftrightarrow> (x, y) \<in> (main_links adj \<inter> set ids \<times> set ids)\<^sup>*"
      if "set I = set_option s" "set Q = set_option e" "x \<in> set_option s" "y \<in> set_option e" for x y
    proof -
      have "x \<in> set ids" "y \<in> set ids" using that sets(1,2) by (auto simp: selection_inputs_def selection_outputs_def)
      moreover have "selection_outputs (set ids) adj \<subseteq> {y}" using that sets(2) by (cases e) auto
      ultimately show ?thesis using assms(2) path_inside [of x "set ids" adj y] by (auto simp: hasPath_iff)
    qed
    then show ?thesis unfolding extractable_def sets by blast
  qed
  finally show ?thesis .
qed

text \<open>The adjacency list of a workflow has its connections.\<close>

definition outgoing :: "INodeConnections \<Rightarrow> IConnection list" where
  "outgoing types = concat (map (\<lambda>(type, outputs). concat (map (\<lambda>cell. case cell of Val cs \<Rightarrow> cs | _ \<Rightarrow> []) outputs)) types)"

lemma fold_concat: "fold f (concat xss) = fold (fold f) xss"
  by (induction xss) auto

lemma buildAdjacencyList_fold:
  "buildAdjacencyList connections = fold (\<lambda>(n, types). fold (addOrCreate n) (outgoing types)) (object_entries connections) []"
proof -
  have "fold (\<lambda>(type, outputs) result. fold (\<lambda>cell result. fold (addOrCreate n) (case cell of Val cs \<Rightarrow> cs | _ \<Rightarrow> []) result)
      outputs result) types result = fold (addOrCreate n) (outgoing types) result" for n types result
    by (simp add: outgoing_def fold_concat fold_map comp_def case_prod_unfold)
  then show ?thesis by (simp add: buildAdjacencyList_def)
qed

lemma addOrCreate_fold:
  "map_wf adj \<Longrightarrow> map_wf (fold (addOrCreate n) cs adj)"
  "set (connections_of (fold (addOrCreate n) cs adj) m) = set (connections_of adj m) \<union> (if m = n then set cs else {})"
  by (induction cs arbitrary: adj) (auto simp: addOrCreate_def connections_of_def)

lemma buildAdjacencyList_links:
  "map_wf (buildAdjacencyList connections)"
  "c \<in> set (connections_of (buildAdjacencyList connections) n) \<longleftrightarrow> (\<exists>types. (n, types) \<in> set connections \<and> c \<in> set (outgoing types))"
proof -
  have "map_wf adj \<Longrightarrow> map_wf (fold (\<lambda>(n, types). fold (addOrCreate n) (outgoing types)) ps adj)"
    and "set (connections_of (fold (\<lambda>(n, types). fold (addOrCreate n) (outgoing types)) ps adj) n) =
      set (connections_of adj n) \<union> (\<Union>(m, types) \<in> set ps. if m = n then set (outgoing types) else {})" for ps adj
    by (induction ps arbitrary: adj) (auto simp: addOrCreate_fold split: if_splits)
  note fold = this
  show "map_wf (buildAdjacencyList connections)" by (simp add: buildAdjacencyList_fold fold(1))
  show "c \<in> set (connections_of (buildAdjacencyList connections) n) \<longleftrightarrow> (\<exists>types. (n, types) \<in> set connections \<and> c \<in> set (outgoing types))"
    by (force simp: buildAdjacencyList_fold fold(2) connections_of_def [of "[]"] split: if_splits)
qed

lemma buildAdjacencyList_main_links:
  "(a, b) \<in> main_links (buildAdjacencyList connections)
   \<longleftrightarrow> (\<exists>types c. (a, types) \<in> set connections \<and> c \<in> set (outgoing types) \<and> conn_type c = Main \<and> conn_node c = b)"
  unfolding main_links_iff using buildAdjacencyList_links(2) by blast

end
