(* ===== verification/Spec2Isabelle.thy ===== *)
theory Spec2Isabelle
  imports Partial_Subgraph Partial_Stack Workflow_Rename Workflow_Graph Workflow_Start Concurrency
    Execution_Runs Task_Broker_Matching Task_Protocol Extractable_Subgraph
begin

text \<open>
  A verification of the workflow engine of n8n: the data model of workflows, the graph on which
  partial executions are planned, the engine that executes workflows node by node, the limit on
  concurrent executions, and the broker that hands tasks to runners, with a
  runner. This theory imports the components, holds the properties that make them
  correct and applies each property with hypotheses to concrete inputs.

  \<^bold>\<open>The program.\<close> A workflow is a set of nodes with typed connections between their outputs and
  inputs (class \<open>Workflow\<close>). \<open>WorkflowExecute\<close> executes it: \<open>run\<close> starts at a trigger,
  \<open>runPartialWorkflow\<close> and \<open>runPartialWorkflow2\<close> reuse the results of an earlier execution. Each of
  them prepares the state of an execution, a stack of nodes with their input data and the data of
  nodes that wait for more inputs, and hands it to \<open>processRunExecutionData\<close>, a loop that takes a
  node off the stack, runs it, stores what it returned and schedules its successors. The second
  partial execution plans on a \<open>DirectedGraph\<close>: it finds the trigger, cuts the graph down to what
  leads to the destination, finds the nodes that have to run again, cleans the old run data and
  recreates the stack. \<open>ConcurrencyControlService\<close> admits executions up to a limit. Nodes that run user
  code request tasks from the \<open>TaskBroker\<close>, which matches requests with the offers of runners and relays
  messages between both sides; a \<open>TaskRunner\<close> offers and executes tasks up to its capacity. A selection of
  nodes can be extracted to a sub-workflow if it has one way in and one way out.

  \<^bold>\<open>Theories and sources\<close> (under \<open>packages/\<close>).
  \<^item> \<open>JS_Prelude\<close>: results that throw, sparse arrays, insertion-ordered dictionaries and strings of
    the runtime, with the locale \<open>dictionary\<close>; \<open>Graph_Traversal\<close>: the traversals with a shared set
    of visited elements as the locales \<open>dfs_traversal\<close> and \<open>dfs_search\<close>.
  \<^item> \<open>Workflow_Types\<close>: \<open>workflow/src/interfaces.ts\<close>. \<open>Workflow_Model\<close>, \<open>Workflow_Rename\<close>,
    \<open>Workflow_Search\<close>, \<open>Workflow_Start\<close>: \<open>workflow/src/workflow.ts\<close> and
    \<open>find-trigger-for-partial-execution.ts\<close>.
  \<^item> \<open>Directed_Graph\<close>, \<open>Graph_Queries\<close>, \<open>Strong_Components\<close>, \<open>Workflow_Graph\<close>:
    \<open>core/src/execution-engine/partial-execution-utils/directed-graph.ts\<close>; \<open>Partial_Subgraph\<close>,
    \<open>Partial_Run_Data\<close>, \<open>Partial_Stack\<close>: the other files of that directory.
  \<^item> \<open>Execution_State\<close>, \<open>Execution_Items\<close>, \<open>Execution_Scheduling\<close>, \<open>Execution_Waiting\<close>, \<open>Execution_Node\<close>,
    \<open>Execution_Loop\<close>, \<open>Execution_Start\<close>: \<open>core/src/execution-engine/workflow-execute.ts\<close>, one
    definition for each method and for each stage of the loop, and the parts of
    \<open>workflow/src/node-helpers.ts\<close> it calls.
  \<^item> \<open>Concurrency\<close>: \<open>cli/src/concurrency/\<close>.
  \<^item> \<open>Task_Broker\<close>: \<open>cli/src/task-runners/task-broker/task-broker.service.ts\<close> with the messages of
    \<open>@n8n/task-runner/src/message-types.ts\<close>. \<open>Task_Runner\<close>: \<open>@n8n/task-runner/src/task-runner.ts\<close> and
    \<open>task-state.ts\<close>.
  \<^item> \<open>Extractable_Subgraph\<close>: \<open>workflow/src/graph/graph-utils.ts\<close>.

  \<^bold>\<open>State and operations.\<close> Objects are records with the fields of the source, dictionaries are
  association lists in insertion order (\<open>jsmap\<close>), arrays that may have holes are lists of cells with
  the values \<open>Hole\<close>, \<open>Null\<close> and \<open>Val\<close>. An operation that may throw returns a value of a sum type. The
  fields of \<open>WorkflowExecute\<close> and the shared data of an execution are the record \<open>engine\<close>; one
  iteration of its loop is \<open>iteration\<close>, whose outcome says whether the loop goes on, ends or throws.
  The fields of \<open>TaskBroker\<close>, the calls of \<open>acceptOffer\<close> that wait for a runner or a requester, and all it
  has sent are the record \<open>TaskBroker\<close>; \<open>handle_event\<close> is its reaction to a message, a registration or a timer.
  Likewise \<open>Runner\<close> and \<open>runner_step\<close>; the two share the datatypes of their messages.
  Nodes of graphs carry an object identity where the source compares references.

  \<^bold>\<open>What is shown.\<close>
  \<^item> \<open>Execution_Scheduling\<close> and \<open>Execution_Delivery\<close>: the invariant of waiting data, and
    \<open>addNodeToBeExecuted\<close> as an implementation of deliveries to an abstract schedule.
    \<open>Execution_Waiting\<close>: the search for a waiting node ends, loses no data and releases a node unless
    all are blocked.
  \<^item> \<open>Execution_Respect\<close>: what the tries of a node keep, once for every relation that node code keeps
    (locale \<open>node_relation\<close>, interpreted on the schedule and on the run data).
    \<open>Execution_Progress\<close>: the load of an execution falls with every iteration if the workflow has no
    cycle and uses the order \<open>v1\<close>. \<open>Execution_Limits\<close>: the number of runs of a node, the order of
    successors, run indexes with gaps. \<open>Execution_Runs\<close>: the engine as a machine with invariants and
    a bound on its steps (locales \<open>machine\<close> and \<open>bounded_machine\<close>), and whole executions.
  \<^item> The \<open>Partial\<close> theories: reachability, cut and partition properties of each step;
    \<open>Execution_Partial\<close> composes them to what the second partial execution starts with.
  \<^item> The graph and workflow theories: traversals and searches return exactly what is reachable, the
    strongly connected components, the index by destination as a transposition, renaming, and
    the round trip from a graph to a workflow and back.
  \<^item> \<open>Concurrency\<close>: the service over an abstract admission queue (locale \<open>admission_queue\<close>).
  \<^item> \<open>Task_Broker_Events\<close>: what every event of the broker keeps, proved once from a few kinds of steps
    (locale \<open>broker_invariant\<close>); \<open>Task_Broker_Safety\<close> and \<open>Task_Broker_Requests\<close> interpret it on the
    invariants of tasks and of requests: a task ends once, a request is served once, in every history.
    \<open>Task_Broker_Matching\<close>: matching is complete, accepted tasks are announced, what disconnecting does.
  \<^item> \<open>Task_Runner_Safety\<close>: the capacity of a runner, and its tasks under the assumption that the broker uses
    a name once and sends settings once; \<open>Task_Protocol\<close> proves the assumption for the broker and composes both.
  \<^item> \<open>Extractable_Subgraph\<close>: the parser of selections accepts exactly the extractable ones, and its search for
    a path is reachability.
  \<^item> Some theorems show where the code does not do what it means to: data of a waiting run that is
    overwritten, more runs than tries, an error of a continuing node that ends the execution with
    that error, components that are not found, executions released beyond the limit, a deferred request
    that stays in the list, and others.

  \<^bold>\<open>Fuel.\<close> A workflow may have cycles, so the execution loop need not end: \<open>execution_loop\<close> takes fuel
  and is \<open>None\<close> only when it is used up. For a workflow without cycles in the order \<open>v1\<close> the load of the
  initial state is enough, for any number of nodes. The other loops are proved to terminate: the tries
  by the number that is left, the search among waiting nodes by the number of waiting entries, the
  graph algorithms by the elements that are not visited yet.

  \<^bold>\<open>Parameters.\<close> What is not code of the engine is an argument: the code of nodes, polls and triggers,
  which may change the whole state; the registry of node types; expressions in ports and required
  inputs; the lookup of a paired item; the issues of node parameters; comparison of strings by locale
  and the sort of trigger nodes; the names of tasks, assumed distinct (\<open>nanoid\<close>); time, sleeping, the timeout and cancellation, as functions of a world.
  Where a property needs it, node code is assumed to leave the stack, the waiting data and the node of
  its entry alone (\<open>respectful\<close>), or the run data (\<open>keeps_runs\<close>): node code reaches them through no
  function it is given.

  \<^bold>\<open>Simplifications.\<close> Items are values, so code that changes an item it still shares with another array is
  outside the model, apart from pinned items, whose sharing is modelled. The hook
  \<open>workflowExecuteBefore\<close> may fail; a failure of another hook is outside the model. If scheduling throws,
  the state is the one before the successors were added. Sorting with a comparator that is not
  symmetric is insertion before the first larger element. Positions and indexes are integers. The
  broker finishes what a message makes it do before the next event: its callbacks only send.

  \<^bold>\<open>Not modelled.\<close> The contexts handed to node code, routing nodes, triggers and pollers, expressions and the
  data proxy, which are the runtime of nodes; the services, database and interfaces of the command
  line package, the sandbox and the connections of task runners and the editor, which surround the engine with input and output; and the
  nodes themselves. Of \<open>node-helpers.ts\<close> the resolution and validation of parameters is left
  out, of \<open>workflow.ts\<close> static data and \<open>getParentMainInputNode\<close>.
\<close>

section \<open>Concrete inputs\<close>

text \<open>A trigger, a loop of two nodes behind it, and a node after the loop.\<close>

definition ex_t :: INode where "ex_t = new_INode 0 ''trigger'' ''manualTrigger''"
definition ex_a :: INode where "ex_a = new_INode 1 ''a'' ''set''"
definition ex_b :: INode where "ex_b = new_INode 2 ''b'' ''set''"
definition ex_c :: INode where "ex_c = new_INode 3 ''c'' ''set''"

lemmas ex_node_defs = ex_t_def ex_a_def ex_b_def ex_c_def

definition ex_conn :: "INode \<Rightarrow> INode \<Rightarrow> GraphConnection" where
  "ex_conn x y = \<lparr>from_node = x, to_node = y, gc_type = Main, outputIndex = 0, inputIndex = 0\<rparr>"

definition ex_graph :: DirectedGraph where
  "ex_graph = fold set_connection
     [ex_conn ex_t ex_a, ex_conn ex_a ex_b, ex_conn ex_b ex_a, ex_conn ex_b ex_c]
     (addNodes [ex_t, ex_a, ex_b, ex_c] empty_graph)"


definition ex_task :: ITaskData where
  "ex_task = \<lparr>startTime = 0, executionIndex = Some 0, task_source = [], hints = [], executionTime = 1,
     executionStatus = Some Success, task_data = Some [(Main, [Val [json_item []]])],
     inputOverride = None, task_error = None, task_metadata = None\<rparr>"

definition ex_run_data :: IRunData where
  "ex_run_data = [(''trigger'', [ex_task])]"

lemma ex_graph_wf: "graph_wf ex_graph" by code_simp
lemma ex_graph_dash_free: "all_dash_free ex_graph" by code_simp
lemma ex_graph_enabled: "\<forall>n \<in> set (getNodes ex_graph). \<not> is_disabled n" by code_simp
lemma ex_nodes:
  "nodeExists ex_graph ex_t" "nodeExists ex_graph ex_a" "nodeExists ex_graph ex_b" "nodeExists ex_graph ex_c"
  by code_simp+
lemma ex_graph_main: "\<forall>c \<in> conns ex_graph. gc_type c = Main" by code_simp
lemma ex_typed: "typed_run_data ex_run_data Main" by code_simp




text \<open>The same nodes as a workflow.\<close>

definition ex_iconn :: "string \<Rightarrow> IConnection" where
  "ex_iconn x = \<lparr>conn_node = x, conn_type = Main, conn_index = 0\<rparr>"

definition ex_connections :: IConnections where
  "ex_connections =
     [(''trigger'', [(Main, [Val [ex_iconn ''a'']])]), (''a'', [(Main, [Val [ex_iconn ''b'']])]),
      (''b'', [(Main, [Val [ex_iconn ''a'', ex_iconn ''c'']])])]"

definition ex_parameters :: WorkflowParameters where
  "ex_parameters = \<lparr>wp_id = ''1'', wp_name = None, wp_nodes = [ex_t, ex_a, ex_b, ex_c],
     wp_connections = ex_connections, wp_active = False, wp_staticData = [], wp_settings = [],
     wp_pinData = None\<rparr>"

definition ex_workflow :: Workflow where
  "ex_workflow = new_Workflow (\<lambda>_ _. None) (\<lambda>_ _. None) ex_parameters"

definition ex_types :: INodeTypes where
  "ex_types ty v = Some \<lparr>nt_name = ty, nt_group = (if ty = ''manualTrigger'' then [''trigger''] else []),
     nt_trigger = False, nt_poll = False, nt_webhook = False, nt_execute = True, nt_maxNodes = None,
     nt_inputs = PortList [PortName Main], nt_outputs = PortList [PortName Main], nt_requiredInputs = None,
     nt_requestDefaults = False, nt_customOperations = None\<rparr>"

lemma ex_not_restricted:
  "toLowerCase ''new'' \<notin> set (map toLowerCase restrictedKeys)" "toLowerCase ''a'' \<notin> set (map toLowerCase restrictedKeys)"
  by code_simp+

section \<open>Executions: concrete inputs\<close>

text \<open>An environment whose world counts the runs of nodes and whose nodes return their input.\<close>

definition ex_error :: ExecutionError where
  "ex_error = \<lparr>err_name = ''Error'', err_message = ''failed'', err_stack = None, err_description = None\<rparr>"

definition ex_result :: "ExecutionError + outputs cell \<Rightarrow> node_result" where
  "ex_result r = \<lparr>nr_data = r, nr_hints = [], nr_closing = []\<rparr>"

definition ex_env_with :: "(nat \<Rightarrow> items \<Rightarrow> ExecutionError + outputs cell) \<Rightarrow> nat env" where
  "ex_env_with f = \<lparr>env_nodeTypes = ex_types, env_mode = ModeManual, env_error = (\<lambda>_. ex_error),
     env_ports = (\<lambda>_ _. Inr None), env_required = (\<lambda>_ _. None), env_paired = (\<lambda>_ _ _ _. Inr None),
     env_run = (\<lambda>code its d r ed eg. (ex_result (f (eg_world eg) its), ed, eg\<lparr>eg_world := Suc (eg_world eg)\<rparr>)),
     env_poll = (\<lambda>_ eg. (Inr Null, eg)), env_trigger = (\<lambda>_ eg. (Inr None, eg)), env_sleep = (\<lambda>_ x. x),
     env_now = int, env_expired = (\<lambda>_. False), env_aborted = (\<lambda>_. False)\<rparr>"

definition ex_env :: "nat env" where
  "ex_env = ex_env_with (\<lambda>_ its. Inr (Val [Val its]))"

lemma ex_env_with_laws:
  "respectful (ex_env_with f)" "keeps_runs (ex_env_with f)"
  by (simp_all add: respectful_def keeps_runs_def ex_env_with_def same_schedule_def same_entry_def same_runs_def same_node_def)

text \<open>A workflow in the order \<open>v1\<close>: two nodes behind the trigger, both inputs of a third.\<close>

definition ex_m :: INode where "ex_m = new_INode 4 ''m'' ''merge''"

definition ex_into :: "string \<Rightarrow> nat \<Rightarrow> IConnection" where
  "ex_into x i = \<lparr>conn_node = x, conn_type = Main, conn_index = i\<rparr>"

definition ex_merge :: Workflow where
  "ex_merge = new_Workflow (\<lambda>_ _. None) (\<lambda>_ _. None)
     \<lparr>wp_id = ''2'', wp_name = None, wp_nodes = [ex_t, ex_a, ex_b\<lparr>position := (0, -100)\<rparr>, ex_m],
      wp_connections =
        [(''trigger'', [(Main, [Val [ex_into ''a'' 0, ex_into ''b'' 0]])]),
         (''a'', [(Main, [Val [ex_into ''m'' 0]])]), (''b'', [(Main, [Val [ex_into ''m'' 1]])])],
      wp_active = False, wp_staticData = [], wp_settings = [(''executionOrder'', JStr ''v1'')],
      wp_pinData = None\<rparr>"

definition ex_start :: "nat start_env" where
  "ex_start = \<lparr>se_env = ex_env, se_issues = (\<lambda>_ _ _. None), se_beforeError = None, se_restart = False,
     se_index = 0, se_world = 0\<rparr>"

definition ex_engine :: "nat engine" where
  "ex_engine = \<lparr>eg_start = no_start_data,
     eg_result = \<lparr>result_error = None, runData = [], pinData = None, lastNodeExecuted = None\<rparr>,
     eg_exec = no_execution_data\<lparr>nodeExecutionStack := [\<lparr>exec_data = [(Main, [Val [json_item []]])],
       exec_metadata = None, exec_node = ex_t, exec_source = None\<rparr>]\<rparr>,
     eg_waitTill = None, eg_status = Running, eg_index = 0, eg_world = 0\<rparr>"

definition ex_loop :: "nat loop" where
  "ex_loop = \<lparr>lp_engine = ex_engine, lp_last_try = [], lp_error = None, lp_events = []\<rparr>"

lemma ex_merge_edges:
  "main_edge (connectionsBySourceNode ex_merge) \<subseteq> {(''trigger'', ''a''), (''trigger'', ''b''), (''a'', ''m''), (''b'', ''m'')}"
proof -
  have keys: "map_keys (connectionsBySourceNode ex_merge) = [''trigger'', ''a'', ''b'']" by code_simp
  have conns: "main_connections (connectionsBySourceNode ex_merge) ''trigger'' = [ex_into ''a'' 0, ex_into ''b'' 0]"
    "main_connections (connectionsBySourceNode ex_merge) ''a'' = [ex_into ''m'' 0]"
    "main_connections (connectionsBySourceNode ex_merge) ''b'' = [ex_into ''m'' 1]" by code_simp+
  have "a \<in> {''trigger'', ''a'', ''b''}" if "c \<in> set (main_connections (connectionsBySourceNode ex_merge) a)" for a c
    using main_connections_key [OF that] unfolding keys by simp
  then show ?thesis unfolding main_edge_def by (fastforce simp: conns ex_into_def)
qed

lemma ex_merge_acyclic: "acyclic (main_edge (connectionsBySourceNode ex_merge))"
proof -
  have "acyclic {(''trigger'', ''a''), (''trigger'', ''b''), (''a'', ''m''), (''b'', ''m'')}"
    by (simp add: acyclic_insert, auto simp: acyclic_def elim: converse_rtranclE)
  then show ?thesis using ex_merge_edges by (rule acyclic_subset)
qed

lemma ex_merge_routes: "routes_ok ex_merge"
proof -
  have conns: "\<forall>p \<in> set (map_keys (connectionsBySourceNode ex_merge)).
      \<forall>c \<in> set (main_connections (connectionsBySourceNode ex_merge) p). getNode ex_merge (conn_node c) \<noteq> None
        \<and> (case main_inputs ex_merge (conn_node c) of None \<Rightarrow> False | Some ins \<Rightarrow> conn_index c < length ins)"
    by code_simp
  have "p \<in> set (map_keys (connectionsBySourceNode ex_merge))"
    if "c \<in> set (main_connections (connectionsBySourceNode ex_merge) p)" for p c
    using that by (rule main_connections_key)
  with conns show ?thesis unfolding routes_ok_def by (fastforce split: option.splits)
qed


text \<open>The third node waits in its second run, after its first run got all its data.\<close>

definition ex_item :: INodeExecutionData where
  "ex_item = json_item [(''id'', JNum 1)]"

definition ex_gap :: ExecutionData where
  "ex_gap = no_execution_data\<lparr>
     waitingExecution := [(''m'', [(1, [(Main, [Val [ex_item], Null])])])],
     waitingExecutionSource := Some [(''m'', [(1, [(Main, [Val (emitted_source ''a'' 0 0), Null])])])]\<rparr>"

lemma ex_merge_v1: "is_v1 ex_merge" by code_simp
lemma ex_merge_node: "getNode ex_merge ''m'' = Some ex_m" by code_simp

lemma ex_merge_inputs: "\<exists>ins. main_inputs ex_merge ''m'' = Some ins \<and> length ins = 2"
proof -
  have "map_option length (main_inputs ex_merge ''m'') = Some 2" by code_simp
  then show ?thesis by auto
qed

lemma ex_gap_pending: "pending ex_gap ''m'' 1 = Some ([Val [ex_item], Null], [Val (emitted_source ''a'' 0 0), Null])"
  by code_simp

lemma ex_gap_pending_only: "pending ex_gap n i = Some p \<Longrightarrow> n = ''m'' \<and> i = 1
    \<and> p = ([Val [ex_item], Null], [Val (emitted_source ''a'' 0 0), Null])"
  by (auto simp: ex_gap_def pending_def entry_main_def run_entries_def sources_def split: option.splits if_splits)

lemma ex_gap_ok: "waiting_ok ex_merge ex_gap"
proof -
  obtain ins where ins: "main_inputs ex_merge ''m'' = Some ins" "length ins = 2" using ex_merge_inputs by blast
  have "node_waiting_ok 2 [(1, [(Main, [Val [ex_item], Null])])] [(1, [(Main, [Val (emitted_source ''a'' 0 0), Null])])]"
    by (auto simp: node_waiting_ok_def entry_ok_def map_wf_def less_Suc_eq numeral_2_eq_2)
  with ins show ?thesis
    by (auto simp: waiting_ok_def ex_gap_def sources_def map_wf_def map_has_def run_entries_def)
qed

text \<open>The start of the tries of a node, and a node that reports an error as an item and throws in turns.\<close>

definition ex_tries :: "INode \<Rightarrow> nat tries" where
  "ex_tries node = \<lparr>ts_entry = \<lparr>exec_data = [(Main, [Val [ex_item]])], exec_metadata = None, exec_node = node,
     exec_source = None\<rparr>, ts_engine = ex_engine, ts_data = Null, ts_hints = [], ts_error = None\<rparr>"



lemma ex_env_counts: "counts_runs ex_env w id"
proof -
  have disp: "eg_world eg' \<le> Suc (eg_world eg) \<and> (\<forall>resp f. res = Inr resp \<longrightarrow> resp_close resp \<noteq> Some f)"
    if "dispatch_node ex_env w ty its r ed eg = (res, ed', eg')" for ty its r ed eg res ed' eg'
    using that unfolding dispatch_node_def Let_def ex_env_def ex_env_with_def
    by (auto simp: run_code_def run_trigger_def ex_result_def no_response_def split: option.splits if_splits)
  have "env_sleep ex_env t x = x" for t x by (simp add: ex_env_def ex_env_with_def)
  with disp show ?thesis
    unfolding counts_runs_def
    by (auto simp: runNode_def no_response_def split: if_splits option.splits sum.splits cell.splits)
qed

text \<open>An entry of a node with an error output, and the tries of a last node that failed and continues.\<close>

definition ex_failing :: IExecuteData where
  "ex_failing = \<lparr>exec_data = [(Main, [Val [ex_item, ex_item]])], exec_metadata = None,
     exec_node = ex_a\<lparr>onError := Some ContinueErrorOutput\<rparr>, exec_source = None\<rparr>"

definition ex_continued :: "nat tries" where
  "ex_continued = (ex_tries (ex_m\<lparr>continueOnFail := Some True\<rparr>))\<lparr>ts_error := Some ex_error,
     ts_engine := ex_engine\<lparr>eg_exec := no_execution_data\<rparr>\<rparr>"

definition ex_partial :: partial_env where
  "ex_partial = \<lparr>pe_nodeTypes = ex_types, pe_getNodeParameters = (\<lambda>_ _. None), pe_localeCompare = (\<lambda>_ _. 0),
     pe_sort = (\<lambda>_ xs. xs), pe_fresh = 9\<rparr>"

section \<open>Partial executions\<close>

text \<open>On a well-formed graph whose source nodes have no dash in their
  names, \<open>makeKey\<close> tells connections apart: two connections of existing nodes with the same key are
  the same connection, so \<open>addConnection\<close> never replaces a different connection.\<close>

theorem connection_keys_distinguish:
  assumes "graph_wf g" "nodeExists g (from_node c)" "nodeExists g (from_node d)"
    "nodeExists g (to_node c)" "nodeExists g (to_node d)"
    "dash_free (from_node c)" "dash_free (from_node d)" "makeKey c = makeKey d"
  shows "c = d"
  using assms by (rule makeKey_eq_imp_eq)

theorem connection_keys_distinguish_witness:
  "graph_wf ex_graph \<and> makeKey (ex_conn ex_a ex_b) = makeKey (ex_conn ex_a ex_b)
   \<and> ex_conn ex_a ex_b = ex_conn ex_a ex_b"
  using connection_keys_distinguish [of ex_graph "ex_conn ex_a ex_b" "ex_conn ex_a ex_b"] ex_graph_wf ex_nodes
  by (simp add: ex_conn_def ex_node_defs dash_free_def)

text \<open>Removing a node without reconnecting keeps the invariant of the graph,
  removes this node and no other, and removes exactly the connections that touch it.\<close>

theorem removeNode_removes:
  assumes "graph_wf g" "nodeExists g n"
  shows "graph_wf (removeNode n g)
    \<and> (\<forall>m. nodeExists (removeNode n g) m \<longleftrightarrow> nodeExists g m \<and> m \<noteq> n)
    \<and> conns (removeNode n g) = {c \<in> conns g. from_node c \<noteq> n \<and> to_node c \<noteq> n}"
  using removeNode_spec [OF assms] by blast

theorem removeNode_removes_witness:
  "graph_wf ex_graph \<and> nodeExists ex_graph ex_b \<and> graph_wf (removeNode ex_b ex_graph)"
  using removeNode_removes [of ex_graph ex_b] ex_graph_wf ex_nodes by simp

text \<open>C22: filtering the disabled nodes out of a graph in which no cycle
  consists of disabled nodes leaves a well-formed graph with exactly the enabled nodes, and two
  enabled nodes are connected through Main connections afterwards exactly if they were before.\<close>

theorem filterDisabledNodes_reachability:
  assumes "graph_wf g" "all_dash_free g"
    "acyclic (main_edges g \<inter> Collect is_disabled \<times> Collect is_disabled)"
  shows "\<exists>g'. filterDisabledNodes g = Inr g' \<and> graph_wf g'
     \<and> set (getNodes g') = {n \<in> set (getNodes g). \<not> is_disabled n}
     \<and> (\<forall>a b. \<not> is_disabled a \<longrightarrow> \<not> is_disabled b \<longrightarrow>
           (a, b) \<in> (main_edges g')\<^sup>+ \<longleftrightarrow> (a, b) \<in> (main_edges g)\<^sup>+)"
  using assms by (rule filterDisabledNodes_spec)

theorem filterDisabledNodes_reachability_witness:
  "graph_wf ex_graph \<and> all_dash_free ex_graph \<and> (\<exists>g'. filterDisabledNodes ex_graph = Inr g' \<and> graph_wf g')"
proof -
  have none: "main_edges ex_graph \<inter> Collect is_disabled \<times> Collect is_disabled = {}"
    using main_edges_exist [OF ex_graph_wf] ex_graph_enabled nodeExists_iff [OF ex_graph_wf] by fastforce
  have "\<exists>g'. filterDisabledNodes ex_graph = Inr g' \<and> graph_wf g'"
    using filterDisabledNodes_reachability [OF ex_graph_wf ex_graph_dash_free] unfolding none acyclic_def by auto
  with ex_graph_wf ex_graph_dash_free show ?thesis by simp
qed

text \<open>\<open>getChildren\<close> returns, without duplicates, exactly the nodes that can be
  reached from the node along one connection or more, of any type.\<close>

theorem getChildren_reachable:
  assumes "graph_wf g" "nodeExists g n"
  shows "\<exists>r. getChildren g n = Inr r \<and> distinct r \<and> set r = (graph_edges g)\<^sup>+ `` {n}"
  using assms by (rule getChildren_spec)

theorem getChildren_reachable_witness:
  "graph_wf ex_graph \<and> nodeExists ex_graph ex_a
   \<and> (\<exists>r. getChildren ex_graph ex_a = Inr r \<and> set r = (graph_edges ex_graph)\<^sup>+ `` {ex_a})"
  using getChildren_reachable [of ex_graph ex_a] ex_graph_wf ex_nodes by blast

text \<open>\<open>getParentConnections\<close> returns, without duplicates, exactly the
  connections that end in the node or in a node from which it can be reached.\<close>

theorem getParentConnections_upstream:
  assumes "graph_wf g" "nodeExists g n"
  shows "\<exists>r. getParentConnections g n = Inr r \<and> distinct r
     \<and> set r = {c \<in> conns g. (to_node c, n) \<in> (graph_edges g)\<^sup>*}"
  using assms by (rule getParentConnections_spec)

theorem getParentConnections_upstream_witness:
  "graph_wf ex_graph \<and> nodeExists ex_graph ex_c \<and> (\<exists>r. getParentConnections ex_graph ex_c = Inr r \<and> distinct r)"
  using getParentConnections_upstream [of ex_graph ex_c] ex_graph_wf ex_nodes by blast

text \<open>The depth-first search returns a reachable node that satisfies the
  predicate if there is one, and nothing exactly if there is none.\<close>

theorem depthFirstSearch_finds:
  assumes "graph_wf g" "nodeExists g from"
  shows "\<exists>r. depthFirstSearch g from fn = Inr r \<and>
     (case r of Some n \<Rightarrow> fn n \<and> (from, n) \<in> (graph_edges g)\<^sup>*
              | None \<Rightarrow> \<forall>n. (from, n) \<in> (graph_edges g)\<^sup>* \<longrightarrow> \<not> fn n)"
  using assms by (rule depthFirstSearch_spec)

theorem depthFirstSearch_finds_witness:
  "graph_wf ex_graph \<and> nodeExists ex_graph ex_t \<and> (\<exists>r. depthFirstSearch ex_graph ex_t (\<lambda>n. n = ex_c) = Inr r)"
  using depthFirstSearch_finds [of ex_graph ex_t "\<lambda>n. n = ex_c"] ex_graph_wf ex_nodes by blast

text \<open>C27: \<open>getStronglyConnectedComponents\<close> returns disjoint sets of nodes of the graph, and
  in each of them every node can be reached from every other.\<close>

theorem sccs_sound:
  assumes "graph_wf g"
  shows "\<exists>sccs. getStronglyConnectedComponents g = Inr sccs
     \<and> distinct (concat sccs) \<and> set (concat sccs) \<subseteq> set (getNodes g)
     \<and> (\<forall>C \<in> set sccs. strongly_connected g (set C))"
  using assms by (rule getStronglyConnectedComponents_spec)

theorem sccs_sound_witness:
  "graph_wf ex_graph \<and> (\<exists>sccs. getStronglyConnectedComponents ex_graph = Inr sccs \<and> distinct (concat sccs))"
  using sccs_sound [of ex_graph] ex_graph_wf by blast


text \<open>C5: the subgraph is a well-formed part of the graph and contains every
  connection of every simple path of Main connections from the trigger to the destination.\<close>

theorem findSubgraph_paths:
  assumes "graph_wf g" "all_dash_free g" "nodeExists g d"
  shows "\<exists>h. findSubgraph g d t = Inr h \<and> part_of h g
     \<and> (\<forall>path. back_path g d path t \<longrightarrow> distinct (map to_node path) \<longrightarrow> t \<notin> to_node ` set path \<longrightarrow>
           set path \<subseteq> conns h)"
  using assms by (rule findSubgraph_spec)

theorem findSubgraph_paths_witness:
  "graph_wf ex_graph \<and> all_dash_free ex_graph \<and> nodeExists ex_graph ex_c
   \<and> (\<exists>h. findSubgraph ex_graph ex_c ex_t = Inr h \<and> part_of h ex_graph)"
  using findSubgraph_paths [of ex_graph ex_c ex_t] ex_graph_wf ex_graph_dash_free ex_nodes by blast

text \<open>C6: \<open>findStartNodes\<close> returns; every start node can be reached from the trigger and
  has a reason to be one (it has no data, is the destination, or is an unfinished loop); and every
  simple path from the trigger to the destination along outputs with data contains a start node.\<close>

theorem findStartNodes_cut:
  assumes "graph_wf g" "\<forall>c \<in> conns g. typed_run_data rd (gc_type c)" "typed_run_data rd Main"
    "nodeExists g t"
  shows "\<exists>r. findStartNodes g t d rd pd = Inr r
     \<and> (\<forall>n \<in> set r. (t, n) \<in> (graph_edges g)\<^sup>* \<and> start_reason d rd pd n)
     \<and> (\<forall>cs. data_path g rd pd t cs d \<longrightarrow> distinct (map from_node cs) \<longrightarrow>
           (\<exists>n \<in> insert d (from_node ` set cs). n \<in> set r))"
proof -
  obtain r where r: "findStartNodesRecursive g t d rd pd [] [] = Inr r"
    using findStartNodesRecursive_total [OF assms(1-3) assms(4)] by blast
  have "\<forall>n \<in> set r. (t, n) \<in> (graph_edges g)\<^sup>* \<and> start_reason d rd pd n"
    using findStartNodesRecursive_sound [OF r] by simp
  moreover have "\<exists>n \<in> insert d (from_node ` set cs). n \<in> set r"
    if "data_path g rd pd t cs d" "distinct (map from_node cs)" for cs
    by (rule findStartNodesRecursive_cuts [OF r that]) simp
  ultimately show ?thesis using r unfolding findStartNodes_def by blast
qed

theorem findStartNodes_cut_witness:
  "typed_run_data ex_run_data Main \<and> nodeExists ex_graph ex_t
   \<and> (\<exists>r. findStartNodes ex_graph ex_t ex_c ex_run_data [] = Inr r)"
  using findStartNodes_cut [of ex_graph ex_run_data ex_t ex_c "[]"] ex_graph_wf ex_typed ex_nodes ex_graph_main
  by (simp add: Ball_def) blast

text \<open>C11: cleaning removes from the run data exactly the data of nodes outside the
  graph, of the given nodes and everything reachable from them, and of the nodes that feed one of
  those, directly or further upstream, through a connection that is not Main; all other data is
  unchanged.\<close>

theorem cleanRunData_exact:
  assumes "graph_wf g" "\<forall>n \<in> set ns. nodeExists g n"
  shows "\<exists>rd'. cleanRunData rd g ns = Inr rd' \<and>
     (\<forall>k. map_get rd' k =
        (if hasNode g k \<and> k \<notin> \<Union> (cleaned_by g ` ((graph_edges g)\<^sup>* `` set ns))
         then map_get rd k else None))"
  using assms by (rule cleanRunData_spec)

theorem cleanRunData_exact_witness:
  "graph_wf ex_graph \<and> nodeExists ex_graph ex_b \<and> (\<exists>rd'. cleanRunData ex_run_data ex_graph [ex_b] = Inr rd')"
  using cleanRunData_exact [of ex_graph "[ex_b]" ex_run_data] ex_graph_wf ex_nodes by auto



text \<open>C20: the groups are not empty, each covers consecutive inputs with one
  connection per input and is complete exactly if all its connections have data, and together they
  contain each incoming connection with data and each Main one without exactly once.\<close>

theorem sourceDataGroups_partition:
  "list_all (\<lambda>grp. group_ok (has_source_data rd pd) grp \<and> connections grp \<noteq> [])
     (getSourceDataGroups lc g n rd pd)
   \<and> mset (concat (map connections (getSourceDataGroups lc g n rd pd))) =
      mset (filter (\<lambda>c. has_source_data rd pd c \<or> gc_type c = Main) (getConnections g (Some n)))"
  by (rule getSourceDataGroups_spec)

text \<open>C8: on a graph without disabled nodes \<open>recreateNodeExecutionStack\<close> returns;
  the stack has, start node by start node, one entry for a node without Main parents and one entry
  per complete group of source data for the others; only start nodes wait, and a waiting cell
  has data exactly if it has a source.\<close>

theorem recreated_stack_entries:
  assumes "graph_wf g" "\<forall>s \<in> set starts. nodeExists g s"
    "\<forall>n \<in> set (getNodes g). disabled n \<noteq> Some True"
    "\<forall>c \<in> conns g. typed_run_data rd (gc_type c)"
  shows "\<exists>st. recreateNodeExecutionStack lc g starts rd pd = Inr st
    \<and> stack_nodes st = concat (map (stack_share lc g rd pd) starts)
    \<and> sources_match st
    \<and> set (map_keys (rs_waitingExecution st)) \<subseteq> node_name ` set starts"
  using assms by (rule recreateNodeExecutionStack_spec)

theorem recreated_stack_entries_witness:
  "graph_wf ex_graph \<and> nodeExists ex_graph ex_b
   \<and> (\<exists>st. recreateNodeExecutionStack (\<lambda>_ _. 0) ex_graph [ex_b] ex_run_data [] = Inr st \<and> sources_match st)"
proof -
  have "\<exists>st. recreateNodeExecutionStack (\<lambda>_ _. 0) ex_graph [ex_b] ex_run_data [] = Inr st \<and> sources_match st"
    using recreated_stack_entries [of ex_graph "[ex_b]" ex_run_data "\<lambda>_ _. 0" "[]"] ex_graph_wf ex_nodes
      ex_typed ex_graph_main ex_graph_enabled by (simp add: is_disabled_def Ball_def) blast
  with ex_graph_wf ex_nodes show ?thesis by blast
qed

text \<open>The next execution index is larger than every execution index in
  the run data.\<close>

theorem next_execution_index_fresh:
  assumes "(nm, ts) \<in> set rd" "t \<in> set ts" "executionIndex t = Some i"
  shows "i < getNextExecutionIndex rd"
  using assms by (rule getNextExecutionIndex_fresh)

theorem next_execution_index_fresh_witness:
  "executionIndex ex_task = Some 0 \<and> 0 < getNextExecutionIndex ex_run_data"
  using next_execution_index_fresh [of "''trigger''" "[ex_task]" ex_run_data ex_task 0]
  by (simp add: ex_run_data_def ex_task_def)

section \<open>Workflows\<close>

text \<open>C24: the index of the connections by destination node holds exactly the
  reversed connections of the workflow, each as often as it occurs there, so reversing it again
  gives the connections back.\<close>

theorem destination_index_transposes:
  "mset (map flip_link (links (getConnectionsByDestination cs))) = mset (links cs)"
proof -
  have "mset (map flip_link (links (getConnectionsByDestination cs))) =
      image_mset flip_link (mset (map flip_link (links cs)))"
    using getConnectionsByDestination_spec [of cs] by simp
  then show ?thesis by (simp add: multiset.map_comp comp_def)
qed



text \<open>C40: renaming a node to the name it already has deletes the node and all the
  connections that leave it, because the old entry is deleted after the new one was stored.\<close>

theorem renameNode_to_itself:
  assumes "renameNode acc nm nm w = Inr w'"
  shows "getNode w' nm = None \<and> map_get (connectionsBySourceNode w') nm = None"
  using assms by (rule renameNode_same)

theorem renameNode_to_itself_witness:
  "getNode ex_workflow ''a'' \<noteq> None
   \<and> (\<exists>w'. renameNode (\<lambda>e _ _. e) ''a'' ''a'' ex_workflow = Inr w' \<and> getNode w' ''a'' = None)"
proof -
  obtain w' where w': "renameNode (\<lambda>e _ _. e) ''a'' ''a'' ex_workflow = Inr w'"
    by (cases "renameNode (\<lambda>e _ _. e) ''a'' ''a'' ex_workflow")
      (use renameNode_error ex_not_restricted in blast)+
  moreover have "getNode ex_workflow ''a'' \<noteq> None" by code_simp
  ultimately show ?thesis using renameNode_to_itself [OF w'] by blast
qed

text \<open>C25: a well-formed graph in which each node sends over connections of one
  type only survives the way to a workflow and back with the same nodes and connections.\<close>

theorem graph_survives_conversion:
  assumes "graph_wf g" "all_dash_free g" "one_type_per_source (map_values (g_connections g))"
    "\<forall>n \<in> set (getNodes g). with_defaults nt gp n = n"
  shows "\<exists>w g'. toWorkflow nt gp ps g = Inr w \<and> fromWorkflow w = Inr g' \<and> graph_wf g'
     \<and> conns g' = conns g \<and> (\<forall>n. nodeExists g' n \<longleftrightarrow> nodeExists g n)"
  using assms by (rule graph_round_trip)

theorem graph_survives_conversion_witness:
  "one_type_per_source (map_values (g_connections ex_graph))
   \<and> (\<exists>w g'. toWorkflow (\<lambda>_ _. None) (\<lambda>_ _. None) ex_parameters ex_graph = Inr w
         \<and> fromWorkflow w = Inr g' \<and> conns g' = conns ex_graph)"
proof -
  have one: "one_type_per_source (map_values (g_connections ex_graph))" by code_simp
  have "\<forall>n \<in> set (getNodes ex_graph). with_defaults (\<lambda>_ _. None) (\<lambda>_ _. None) n = n"
    by (simp add: with_defaults_def)
  from graph_survives_conversion [OF ex_graph_wf ex_graph_dash_free one this, of ex_parameters] one
  show ?thesis by blast
qed

text \<open>A graph with two connections of different types from the same node
  cannot be converted: \<open>toIConnections\<close> throws, because it creates the array of a type only
  together with the entry of the node.\<close>

theorem toIConnections_throws:
  assumes "c \<in> conns g" "d \<in> conns g" "node_name (from_node c) = node_name (from_node d)" "gc_type c \<noteq> gc_type d"
  shows "toIConnections g = Inl TypeError"
  using assms by (rule toIConnections_error)

theorem toIConnections_throws_witness:
  "toIConnections (set_connection (ex_conn ex_a ex_c\<lparr>gc_type := AiTool\<rparr>) ex_graph) = Inl TypeError"
  by (rule toIConnections_throws [of "ex_conn ex_a ex_c\<lparr>gc_type := AiTool\<rparr>" _ "ex_conn ex_a ex_b"]) code_simp+

text \<open>C28: the child nodes (and in the same way the parent nodes) within a depth are
  exactly the other nodes that can be reached in at most that many steps along connections of the
  wanted types; a negative depth means no limit.\<close>

theorem connectedNodes_reachable:
  "set (getChildNodes w n f d) =
     {x. x \<noteq> n \<and> (\<exists>k. (d < 0 \<or> int k \<le> d) \<and> (n, x) \<in> filtered_edges (connectionsBySourceNode w) f ^^ k)}
   \<and> set (getParentNodes w n f d) =
     {x. x \<noteq> n \<and> (\<exists>k. (d < 0 \<or> int k \<le> d) \<and> (n, x) \<in> filtered_edges (connectionsByDestinationNode w) f ^^ k)}"
  unfolding getChildNodes_def getParentNodes_def getConnectedNodes_spec by simp

text \<open>C29: the breadth-first search returns every other node within the maximal depth once,
  with its distance from the source node.\<close>

theorem bfs_distances:
  assumes "m \<ge> -1"
  shows "distinct (map cn_name (searchNodesBFS cs s m))
    \<and> cn_name ` set (searchNodesBFS cs s m) =
        {x. x \<noteq> s \<and> (\<exists>k. (m = -1 \<or> int k \<le> m) \<and> (s, x) \<in> main_edge cs ^^ k)}
    \<and> (\<forall>e \<in> set (searchNodesBFS cs s m). distance (main_edge cs) s (cn_name e) (cn_depth e))"
  using assms by (rule searchNodesBFS_spec)

theorem bfs_distances_witness:
  "(-1 :: int) \<ge> -1 \<and> distinct (map cn_name (searchNodesBFS ex_connections ''trigger'' (-1)))"
  using bfs_distances [of "-1" ex_connections "''trigger''"] by simp

text \<open>\<open>getHighestNode\<close> of a node of the workflow returns distinct nodes, each of
  which exists, is not disabled, and is the node itself or one of its ancestors over Main connections.\<close>

theorem highestNodes_enabled:
  assumes "getNode w nodeName = Some node"
  shows "\<exists>r. getHighestNode w nodeName i = Inr r \<and> distinct r
     \<and> (\<forall>x \<in> set r. enabled_in w x \<and> (nodeName, x) \<in> (main_edge (connectionsByDestinationNode w))\<^sup>*)"
  using assms by (rule getHighestNode_spec)

theorem highestNodes_enabled_witness:
  "getNode ex_workflow ''c'' = Some ex_c \<and> (\<exists>r. getHighestNode ex_workflow ''c'' None = Inr r \<and> distinct r)"
proof -
  have n: "getNode ex_workflow ''c'' = Some ex_c" by code_simp
  with highestNodes_enabled [OF n] show ?thesis by blast
qed

text \<open>Connection indexes that are returned describe a connection that leaves the
  parent node and ends in the node or in one of its ancestors; without a depth limit nothing is
  returned exactly if the parent is not an ancestor of the node.\<close>

theorem connectionIndexes_found:
  assumes "getNode w p \<noteq> None"
  shows "(\<forall>d r. getNodeConnectionIndexes w n p ty d = Some r \<longrightarrow>
       (\<exists>y. (n, y) \<in> (typed_edge w ty)\<^sup>* \<and> enters w ty p r y))
    \<and> (getNodeConnectionIndexes w n p ty (-1) = None \<longleftrightarrow> (n, p) \<notin> (typed_edge w ty)\<^sup>+)"
  using getNodeConnectionIndexes_spec [OF assms] by blast

theorem connectionIndexes_found_witness:
  "getNode ex_workflow ''trigger'' \<noteq> None
   \<and> (getNodeConnectionIndexes ex_workflow ''c'' ''trigger'' Main (-1) = None
        \<longleftrightarrow> (''c'', ''trigger'') \<notin> (typed_edge ex_workflow Main)\<^sup>+)"
proof -
  have n: "getNode ex_workflow ''trigger'' \<noteq> None" by code_simp
  with connectionIndexes_found [OF n] show ?thesis by blast
qed

text \<open>C30: the trigger chosen for a partial execution is a node of the workflow that is not
  disabled, whose type is in the trigger group, and that is the destination or one of its ancestors.
  The sorting function of the engine is only assumed to permute its input.\<close>

theorem partial_trigger_sound:
  assumes "\<And>cmp xs. set (srt cmp xs) = set xs"
    "findTriggerForPartialExecution srt nt w d rd = Inr (Some t)"
  shows "is_trigger_of nt w d t"
  using assms by (rule findTrigger_spec)

theorem partial_trigger_sound_witness:
  "findTriggerForPartialExecution sort_cmp ex_types ex_workflow ''c'' ex_run_data = Inr (Some ex_t)
   \<and> is_trigger_of ex_types ex_workflow ''c'' ex_t"
proof -
  have f: "findTriggerForPartialExecution sort_cmp ex_types ex_workflow ''c'' ex_run_data = Inr (Some ex_t)"
    by code_simp
  with partial_trigger_sound [OF set_sort_cmp f] show ?thesis by blast
qed

section \<open>Concurrency\<close>

text \<open>C14: while executions only start and finish, at most as many run as the limit
  says, an execution waits only while the limit is reached, and the capacity is the limit less
  the running and the waiting executions.\<close>

theorem concurrency_limit_kept:
  assumes "0 \<le> limit" "execution_step\<^sup>*\<^sup>* (new_ConcurrencyQueue limit, {#}) (q, R)"
  shows "capacity q = limit - int (size R) - int (length (cq_queue q))
    \<and> int (size R) \<le> limit \<and> (cq_queue q \<noteq> [] \<longrightarrow> int (size R) = limit)"
  using assms by (rule execution_steps_limited)

theorem concurrency_limit_kept_witness:
  "execution_step\<^sup>*\<^sup>* (new_ConcurrencyQueue 1, {#}) (\<lparr>capacity = 0, cq_queue = []\<rparr>, {#''x''#})
   \<and> int (size {#''x''#}) \<le> (1 :: int)"
proof -
  have "enqueue ''x'' (new_ConcurrencyQueue 1) = (\<lparr>capacity = 0, cq_queue = []\<rparr>, [ConcurrencyCheck 0])"
    by (simp add: enqueue_def new_ConcurrencyQueue_def)
  from execution_started [OF this, of "{#}"]
  have "execution_step\<^sup>*\<^sup>* (new_ConcurrencyQueue 1, {#}) (\<lparr>capacity = 0, cq_queue = []\<rparr>, {#''x''#})"
    by (simp add: throttled_def)
  with concurrency_limit_kept [of 1 "\<lparr>capacity = 0, cq_queue = []\<rparr>" "{#''x''#}"] show ?thesis by simp
qed

text \<open>C39: emptying a queue of distinct waiting executions leaves it empty, but lets every
  second of them through: each removal also releases the next waiting execution.\<close>

theorem removeAll_releases:
  assumes "distinct (cq_queue q)"
  shows "cq_queue (fst (removeAll_queue q)) = []
    \<and> released (snd (removeAll_queue q)) = every_second (cq_queue q)"
  using assms by (rule removeAll_queue_spec)

theorem removeAll_releases_witness:
  "distinct [''1'', ''2'', ''3'', ''4'']
   \<and> released (snd (removeAll_queue \<lparr>capacity = -4, cq_queue = [''1'', ''2'', ''3'', ''4'']\<rparr>)) = [''2'', ''4'']"
  using removeAll_releases [of "\<lparr>capacity = -4, cq_queue = [''1'', ''2'', ''3'', ''4'']\<rparr>"] by simp

section \<open>Executions\<close>

text \<open>C1: an execution of a workflow in the order \<open>v1\<close> whose Main connections have no cycle
  ends, whether it is a full one or a partial one of the first version: with enough fuel it returns a
  result or throws, if node code leaves the schedule alone.\<close>

theorem run_always_ends:
  assumes "respectful (se_env se)" "is_v1 w" "nodes_wf w" "acyclic (main_edge (connectionsBySourceNode w))"
  shows "\<exists>bound. \<forall>fuel>bound. run fuel se w start dest pins None \<noteq> Inr None
    \<and> runPartialWorkflow fuel se w rd startNodes dest pins \<noteq> Inr None"
proof -
  have t: "terminating (se_env se) w" using assms by (simp add: terminating_def)
  obtain b where "\<forall>fuel>b. run fuel se w start dest pins None \<noteq> Inr None"
    using run_ends_bound [OF t, of None] by blast
  moreover obtain b' where "\<forall>fuel>b'. runPartialWorkflow fuel se w rd startNodes dest pins \<noteq> Inr None"
    using runPartialWorkflow_ends_bound [OF t] by blast
  ultimately show ?thesis by (intro exI [of _ "max b b'"]) simp
qed

theorem run_always_ends_witness:
  "is_v1 ex_merge \<and> (\<exists>bound. \<forall>fuel>bound. run fuel ex_start ex_merge (Some ex_t) None None None \<noteq> Inr None)"
proof -
  have h: "is_v1 ex_merge" "nodes_wf ex_merge" by code_simp+
  have "respectful (se_env ex_start)" by (simp add: ex_start_def ex_env_def ex_env_with_laws)
  from run_always_ends [OF this h ex_merge_acyclic, of "Some ex_t" None None "[]" "[]"] h(1) show ?thesis by blast
qed





text \<open>C2: for a node with several inputs, \<open>addNodeToBeExecuted\<close> implements the delivery of
  data to an abstract schedule: the least run that lacks the input, or else a new run, gets the data, and
  a run that lacks nothing moves to the stack.\<close>

theorem delivery_refined:
  assumes "waiting_ok w ed" "main_inputs w (conn_node cd) = Some ins" "1 < length ins" "conn_index cd < length ins"
    "getNode w (conn_node cd) = Some node" "emitted nsd oi = Val its" "nsd \<noteq> None" "is_v1 w" "routes_ok w"
    "runs_typed rd" "map_get (connectionsBySourceNode w) parent \<noteq> None"
  shows "\<exists>ed'. addNodeToBeExecuted w cd oi parent nsd r rd ed = Inr ed' \<and> waiting_ok w ed'
    \<and> abs_schedule ed' = deliver (conn_node cd) node (length ins) (conn_index cd) its
        (emitted_source parent oi r) (abs_schedule ed)"
  using addNode_delivers [OF assms(1-3) refl assms(4-9) runs_typed_present [OF assms(10)] assms(11)] by blast

theorem delivery_refined_witness:
  "pending ex_gap ''m'' 1 \<noteq> None
   \<and> (\<exists>ed'. addNodeToBeExecuted ex_merge (ex_into ''m'' 1) 0 ''b'' (Some [Val [ex_item]]) 0 [] ex_gap = Inr ed'
        \<and> abs_schedule ed' = deliver ''m'' ex_m 2 1 [ex_item] (emitted_source ''b'' 0 0) (abs_schedule ex_gap))"
proof -
  obtain ins where ins: "main_inputs ex_merge ''m'' = Some ins" "length ins = 2" using ex_merge_inputs by blast
  have "map_get (connectionsBySourceNode ex_merge) ''b'' \<noteq> None" by code_simp
  moreover have "runs_typed []" by (simp add: runs_typed_def)
  ultimately show ?thesis
    using delivery_refined [of ex_merge ex_gap "ex_into ''m'' 1" ins ex_m "Some [Val [ex_item]]" 0 "[ex_item]" "[]" "''b''" 0]
      ins ex_gap_ok ex_merge_node ex_merge_v1 ex_merge_routes ex_gap_pending
    by (simp add: ex_into_def emitted_def cell_get_def) blast
qed

text \<open>C31: if every waiting run of a node has data for an input and the run indexes have
  a gap, so that one of them is the number of runs, then the next data for that input replaces the data of
  that run: what it had received for the other inputs is neither waiting nor on the stack afterwards.\<close>

theorem waiting_entry_overwritten:
  assumes "waiting_ok w ed" "main_inputs w n = Some ins" "1 < length ins" "conn_node cd = n" "conn_index cd < length ins"
    "getNode w n = Some node" "emitted nsd oi = Val its" "nsd \<noteq> None" "is_v1 w" "routes_ok w" "outputs_present rd"
    "map_get (connectionsBySourceNode w) parent \<noteq> None"
    and full: "\<forall>i a s. pending ed n i = Some (a, s) \<longrightarrow> a ! conn_index cd \<noteq> Null"
    and gap: "pending ed n (length (run_entries (waitingExecution ed) n)) = Some old"
  shows "\<exists>ed' a s. addNodeToBeExecuted w cd oi parent nsd r rd ed = Inr ed'
    \<and> nodeExecutionStack ed' = nodeExecutionStack ed
    \<and> pending ed' n (length (run_entries (waitingExecution ed) n)) = Some (a, s)
    \<and> a ! conn_index cd = Val its \<and> (\<forall>j < length ins. j \<noteq> conn_index cd \<longrightarrow> a ! j = Null)"
  using new_entry_at_length [OF assms(1-12) full, of r] assms(5) by (elim exE conjE) auto

theorem waiting_entry_overwritten_witness:
  "(case fold_res (\<lambda>ed p. addNodeToBeExecuted ex_merge (snd p) 0 (fst p) (Some [Val [ex_item]]) 0 [] ed) no_execution_data
       [(''a'', ex_into ''m'' 0), (''a'', ex_into ''m'' 0), (''b'', ex_into ''m'' 1)] of
     Inl e \<Rightarrow> False | Inr ed \<Rightarrow> waitingExecution ed = waitingExecution ex_gap)
   \<and> (\<exists>ed' a s. addNodeToBeExecuted ex_merge (ex_into ''m'' 0) 0 ''a'' (Some [Val [json_item []]]) 0 [] ex_gap = Inr ed'
     \<and> nodeExecutionStack ed' = [] \<and> pending ed' ''m'' 1 = Some (a, s) \<and> a ! 0 = Val [json_item []])"
proof
  show "case fold_res (\<lambda>ed p. addNodeToBeExecuted ex_merge (snd p) 0 (fst p) (Some [Val [ex_item]]) 0 [] ed) no_execution_data
       [(''a'', ex_into ''m'' 0), (''a'', ex_into ''m'' 0), (''b'', ex_into ''m'' 1)] of
     Inl e \<Rightarrow> False | Inr ed \<Rightarrow> waitingExecution ed = waitingExecution ex_gap"
    by code_simp
  obtain ins where ins: "main_inputs ex_merge ''m'' = Some ins" "length ins = 2" using ex_merge_inputs by blast
  have par: "map_get (connectionsBySourceNode ex_merge) ''a'' \<noteq> None" by code_simp
  have gap: "length (run_entries (waitingExecution ex_gap) ''m'') = 1" "nodeExecutionStack ex_gap = []" by code_simp+
  have pend: "\<forall>i a s. pending ex_gap ''m'' i = Some (a, s) \<longrightarrow> a ! 0 \<noteq> Null" using ex_gap_pending_only by fastforce
  have "outputs_present []" by (simp add: outputs_present_def output_cell_def)
  then show "\<exists>ed' a s. addNodeToBeExecuted ex_merge (ex_into ''m'' 0) 0 ''a'' (Some [Val [json_item []]]) 0 [] ex_gap = Inr ed'
     \<and> nodeExecutionStack ed' = [] \<and> pending ed' ''m'' 1 = Some (a, s) \<and> a ! 0 = Val [json_item []]"
    using waiting_entry_overwritten [of ex_merge ex_gap "''m''" ins "ex_into ''m'' 0" ex_m "Some [Val [json_item []]]" 0 "[json_item []]" "[]" "''a''"]
      ins par pend gap ex_gap_ok ex_merge_node ex_merge_v1 ex_merge_routes ex_gap_pending
    by (simp add: ex_into_def emitted_def cell_get_def) blast
qed

text \<open>C10: in the order \<open>v1\<close> the successors of a node that have one input are put on the
  stack, one entry for each connection whose output has items, above everything that was there, and ordered
  from the top left: the one further up, and of those at the same height the one further left, runs first.\<close>

theorem successors_by_position:
  assumes "is_v1 w" "routes_ok w"
    "\<forall>p \<in> set (output_connections w n). \<forall>ins. main_inputs w (conn_node (snd p)) = Some ins \<longrightarrow> length ins \<le> 1"
  shows "\<exists>adds. add_successors w n outs r rd ed =
      Inr (ed\<lparr>nodeExecutionStack := map (direct_entry w n r outs) adds @ nodeExecutionStack ed\<rparr>)
    \<and> mset adds = mset (map (to_add w) (filter (gets_data w outs) (output_connections w n)))
    \<and> sorted_wrt (\<lambda>a b. top_left (na_position a) (na_position b)) adds"
  using assms by (rule successors_top_left)

theorem successors_by_position_witness:
  "length (output_connections ex_merge ''trigger'') = 2
   \<and> (\<exists>adds. add_successors ex_merge ''trigger'' [Val [ex_item]] 0 [] no_execution_data =
        Inr (no_execution_data\<lparr>nodeExecutionStack := map (direct_entry ex_merge ''trigger'' 0 [Val [ex_item]]) adds\<rparr>)
      \<and> sorted_wrt (\<lambda>a b. top_left (na_position a) (na_position b)) adds)"
proof -
  have len: "length (output_connections ex_merge ''trigger'') = 2" by code_simp
  have "\<forall>p \<in> set (output_connections ex_merge ''trigger'').
      case main_inputs ex_merge (conn_node (snd p)) of None \<Rightarrow> True | Some ins \<Rightarrow> length ins \<le> 1" by code_simp
  then have single: "\<forall>p \<in> set (output_connections ex_merge ''trigger'').
      \<forall>ins. main_inputs ex_merge (conn_node (snd p)) = Some ins \<longrightarrow> length ins \<le> 1" by fastforce
  have "nodeExecutionStack no_execution_data = []" by (simp add: no_execution_data_def)
  with successors_by_position [OF ex_merge_v1 ex_merge_routes single, of "[Val [ex_item]]" 0 "[]" no_execution_data] len
  show ?thesis by auto
qed

text \<open>C7: when the stack is empty, the search among the waiting nodes returns; it puts
  exactly one waiting run with items on the stack, its missing inputs empty, or it ends with an empty stack
  because every node that still waits requires an input it did not get or has a parent that waits; and a
  run with items is never lost.\<close>

theorem waiting_nodes_released:
  assumes "waiting_ok w ed" "types_known nts w" "nodeExecutionStack ed = []"
  shows "\<exists>ed'. release_waiting eval nts w ed = Inr ed' \<and> waiting_ok w ed'
    \<and> (nodeExecutionStack ed' = []
         \<and> (\<forall>n es. map_get (waitingExecution ed') n = Some es \<longrightarrow>
              blocked eval nts w (object_keys (waitingExecution ed')) ed' n)
         \<and> (\<forall>m j p. pending ed m j = Some p \<longrightarrow> has_items (fst p) \<longrightarrow> pending ed' m j = Some p)
       \<or> (\<exists>n i a s node. getNode w n = Some node \<and> pending ed n i = Some (a, s) \<and> has_items a
         \<and> nodeExecutionStack ed' = [released_entry nts node a s] \<and> pending ed' n i = None
         \<and> (\<forall>m j p. (m, j) \<noteq> (n, i) \<longrightarrow> pending ed m j = Some p \<longrightarrow> has_items (fst p) \<longrightarrow> pending ed' m j = Some p)))"
  using release_waiting_spec [OF assms, of eval] unfolding search_ok_def assms(3) append_Nil by meson

theorem waiting_nodes_released_witness:
  "\<exists>ed'. release_waiting (\<lambda>_ _. None) ex_types ex_merge ex_gap = Inr ed'
    \<and> nodeExecutionStack ed' =
        [released_entry ex_types ex_m [Val [ex_item], Null] [Val (emitted_source ''a'' 0 0), Null]]"
proof -
  have h: "nodeExecutionStack ex_gap = []" "types_known ex_types ex_merge"
    by (simp_all add: ex_gap_def no_execution_data_def types_known_def ex_types_def)
  have "case release_waiting (\<lambda>_ _. None) ex_types ex_merge ex_gap of Inl e \<Rightarrow> False | Inr ed' \<Rightarrow> nodeExecutionStack ed' \<noteq> []"
    by code_simp
  with waiting_nodes_released [OF ex_gap_ok h(2,1), of "\<lambda>_ _. None"] obtain ed' n i a s node where
    r: "release_waiting (\<lambda>_ _. None) ex_types ex_merge ex_gap = Inr ed'" "getNode ex_merge n = Some node"
      "pending ex_gap n i = Some (a, s)" "nodeExecutionStack ed' = [released_entry ex_types node a s]" by auto
  with ex_gap_pending_only [OF r(3)] ex_merge_node show ?thesis by auto
qed

text \<open>C12: the tries of one entry run the node at most twice for each try but the last, and once
  for the last, and so at most nine times: no measure of the world that a run of the node raises by at most one,
  and nothing else raises, grows by more.\<close>

theorem runs_bounded:
  assumes "counts_runs env w c" "try_loop env w r (max_tries node - 1) ts = (ends, ts')"
  shows "runs_of c ts' \<le> runs_of c ts + (2 * max_tries node - 1) \<and> 2 * max_tries node - 1 \<le> 9"
proof -
  have "1 \<le> max_tries node" "max_tries node \<le> 5" using max_tries_bounds [of node] by simp_all
  with try_loop_runs [OF assms] show ?thesis by linarith
qed

theorem runs_bounded_witness:
  "\<exists>ends ts'. try_loop ex_env ex_merge 0 (max_tries ex_a - 1) (ex_tries ex_a) = (ends, ts')
    \<and> runs_of id ts' \<le> runs_of id (ex_tries ex_a) + (2 * max_tries ex_a - 1)"
proof -
  obtain ends ts' where t: "try_loop ex_env ex_merge 0 (max_tries ex_a - 1) (ex_tries ex_a) = (ends, ts')"
    by (rule prod.exhaust)
  with runs_bounded [OF ex_env_counts t] show ?thesis by blast
qed


text \<open>C13: for a node with an error output, the items of each other output that report an
  error move to the error output, in the order of the outputs, with their own data over that of the item they
  are paired with; the other items stay, and outputs behind the error output are not touched.\<close>

theorem error_output_split:
  assumes "handleNodeErrorOutput eo eval gp nts ed outs = Inr outs'" "onError (exec_node ed) = Some ContinueErrorOutput"
    "n = main_outputs eval nts (exec_node ed)"
  shows "(\<forall>i<n - 1. cell_get outs' i = Val (filter (\<lambda>x. \<not> is_error_item x) (cell_list (cell_get outs i))))
    \<and> (\<exists>es. cell_get outs' (n - 1) = Val es
         \<and> list_all2 error_item_of (concat (map (\<lambda>i. filter is_error_item (cell_list (cell_get outs i))) [0..<n - 1])) es)
    \<and> (\<forall>i\<ge>n. cell_get outs' i = cell_get outs i)"
  using handleNodeErrorOutput_spec [OF assms(1,2)] unfolding assms(3) .

theorem error_output_split_witness:
  "\<exists>outs'. handleNodeErrorOutput (\<lambda>_. ex_error) (\<lambda>_ _. Inr None) (\<lambda>_ _ _. Inr None) ex_types ex_failing
      [Val [ex_item, json_item [(''error'', JStr ''failed'')]]] = Inr outs'
    \<and> cell_get outs' 0 = Val [ex_item]"
proof -
  let ?f = "handleNodeErrorOutput (\<lambda>_. ex_error) (\<lambda>_ _. Inr None) (\<lambda>_ _ _. Inr None) ex_types ex_failing
      [Val [ex_item, json_item [(''error'', JStr ''failed'')]]]"
  have "\<not> isl ?f" by code_simp
  then obtain outs' where f: "?f = Inr outs'" by (cases ?f) auto
  have h: "onError (exec_node ex_failing) = Some ContinueErrorOutput"
    "2 = main_outputs (\<lambda>_ _. Inr None) ex_types (exec_node ex_failing)"
    "filter (\<lambda>x. \<not> is_error_item x) [ex_item, json_item [(''error'', JStr ''failed'')]] = [ex_item]" by code_simp+
  from error_output_split [OF f h(1,2)] h(3) have "cell_get outs' 0 = Val [ex_item]" by (simp add: cell_get_def)
  with f show ?thesis by blast
qed

text \<open>C23: when all outputs of a node are arrays, an item that is not paired yet is paired
  with the only input item if there is one, or with the input item of its own position if there are as many items
  on the only output as on the only input, and stays unpaired otherwise; nothing else of the items changes.\<close>

theorem paired_items_assigned:
  assumes "map_get (exec_data ed) Main = Some main" "list_all (\<lambda>c. \<exists>its. c = Val its) outs"
  shows "assignPairedItems (Val outs) ed res =
    Inr (Val (map (\<lambda>c. Val (map (\<lambda>(i, item). expected_pairing main outs i item) (enumerate 0 (cell_list c)))) outs),
      res\<lparr>lastNodeExecuted := Some (node_name (exec_node ed))\<rparr>)"
  using assms by (rule assignPairedItems_spec)

theorem paired_items_assigned_witness:
  "\<exists>outs' res'. assignPairedItems (Val [Val [ex_item, ex_item]]) ex_failing (eg_result ex_engine) = Inr (Val outs', res')
    \<and> outs' = [Val [ex_item\<lparr>pairedItem := Some (paired_with 0)\<rparr>, ex_item\<lparr>pairedItem := Some (paired_with 1)\<rparr>]]"
proof -
  have "map_get (exec_data ex_failing) Main = Some [Val [ex_item, ex_item]]" by code_simp
  from paired_items_assigned [OF this, of "[Val [ex_item, ex_item]]" "eg_result ex_engine"] show ?thesis
    by (simp add: expected_pairing_def isSingleInputAndOutput_def isSameNumberOfItems_def cell_length_def cell_get_def
        ex_item_def json_item_def numeral_2_eq_2)
qed

text \<open>C33: when the last node of an execution fails but continues on failure, its error is
  still the error of the whole execution: the run ends with that error and is not marked as finished.\<close>

theorem continued_error_reported:
  assumes "finish_node env w r started pinned ts lp = Continue lp'" "ts_error ts = Some e"
    "nodeExecutionStack (lp_exec lp') = []"
  shows "continues_on_fail (exec_node (ts_entry ts))
    \<and> execution_loop (Suc fuel) env w lp' = Some (None, lp')
    \<and> result_error (resultData (run_execution (fst (finish_execution env st w (None, lp'))))) = Some e
    \<and> run_finished (fst (finish_execution env st w (None, lp'))) = None"
proof -
  have "lp_error lp' = Some e" using finish_node_error [OF assms(1)] assms(2) by simp
  moreover have "continues_on_fail (exec_node (ts_entry ts))"
    using assms(1,2) by (auto simp: finish_node_def Let_def split: if_splits)
  ultimately show ?thesis
    using assms(3) by (auto simp: finish_execution_def processSuccessExecution_def with_error_def with_metadata_def
        getFullRunData_def execution_data_of_def Let_def)
qed

theorem continued_error_reported_witness:
  "\<exists>lp'. finish_node ex_env ex_merge 0 ex_task False ex_continued ex_loop = Continue lp'
    \<and> result_error (resultData (run_execution (fst (finish_execution ex_env 0 ex_merge (None, lp'))))) = Some ex_error"
proof -
  let ?f = "finish_node ex_env ex_merge 0 ex_task False ex_continued ex_loop"
  have c: "case ?f of Continue lp' \<Rightarrow> nodeExecutionStack (lp_exec lp') = [] | _ \<Rightarrow> False" by code_simp
  obtain lp' where f: "?f = Continue lp'" using c by (cases ?f) auto
  have "ts_error ex_continued = Some ex_error" by code_simp
  from continued_error_reported [OF f this] c f show ?thesis by simp
qed

text \<open>C4: a partial execution of the second version whose trigger reaches the
  destination is prepared without error: it is restricted to a part of the graph of enabled nodes, its stack
  holds nodes that the trigger reaches and whose old run data is gone, nodes wait only within that part, all
  run data that is left is data of the previous execution, and the execution indexes continue after it.\<close>

theorem partial_execution_prepared:
  assumes "filterDisabledNodes graph = Inr g" "graph_wf g" "all_dash_free g" "\<forall>n \<in> set (getNodes g). disabled n \<noteq> Some True"
    "\<forall>c \<in> conns g. typed_run_data rd (gc_type c)" "typed_run_data rd Main" "nodeExists g d"
    "partial_trigger pe w dest rd = Inr t" "(t, d) \<in> (main_edges g)\<^sup>+" "t \<noteq> d"
  shows "\<exists>h red i. prepare_subgraph pe w graph d dest orig rd pins dirty = Inr (w, red, Some i)
    \<and> prepared_ok g t dest rd h red i"
  using assms by (rule prepare_subgraph_spec)

theorem partial_execution_prepared_witness:
  "\<exists>h red i. prepare_subgraph ex_partial ex_workflow ex_graph ex_c ''c'' ''c'' ex_run_data [] [] = Inr (ex_workflow, red, Some i)
    \<and> prepared_ok ex_graph ex_t ''c'' ex_run_data h red i"
proof -
  have f: "filterDisabledNodes ex_graph = Inr ex_graph" "partial_trigger ex_partial ex_workflow ''c'' ex_run_data = Inr ex_t"
    "ex_t \<noteq> ex_c" "\<forall>n \<in> set (getNodes ex_graph). disabled n \<noteq> Some True"
    "\<forall>c \<in> conns ex_graph. typed_run_data ex_run_data (gc_type c)" by code_simp+
  have "{ex_conn ex_t ex_a, ex_conn ex_a ex_b, ex_conn ex_b ex_c} \<subseteq> conns ex_graph" by code_simp
  then have "(ex_t, ex_a) \<in> main_edges ex_graph" "(ex_a, ex_b) \<in> main_edges ex_graph" "(ex_b, ex_c) \<in> main_edges ex_graph"
    unfolding main_edges_def by (force simp: ex_conn_def)+
  then have "(ex_t, ex_c) \<in> (main_edges ex_graph)\<^sup>+" by (meson trancl.simps)
  from partial_execution_prepared [OF f(1) ex_graph_wf ex_graph_dash_free f(4,5) ex_typed ex_nodes(4) f(2) this f(3)]
  show ?thesis by blast
qed


section \<open>The task broker\<close>

text \<open>A history in which a task is offered, deferred, offered again, accepted and done.\<close>

definition ex_nanoid :: "nat \<Rightarrow> string" where "ex_nanoid n = replicate n CHR ''t''"

lemma ex_nanoid_inj: "inj ex_nanoid"
  unfolding ex_nanoid_def inj_def by (metis length_replicate)

definition ex_config :: TaskRunnersConfig where
  "ex_config = \<lparr>cfg_taskTimeout = 300, cfg_mode = External, cfg_selfHosted = True\<rparr>"

definition ex_broker :: TaskBroker where
  "ex_broker = projr (new_TaskBroker ex_config)"

lemma ex_broker_new: "new_TaskBroker ex_config = Inr ex_broker"
  by (simp add: ex_broker_def new_TaskBroker_def ex_config_def)

definition ex_runner :: TaskRunner where
  "ex_runner = \<lparr>runner_id = ''runner'', runner_name = None, runner_taskTypes = [''javascript''], runner_lastSeen = 0\<rparr>"

definition ex_offered :: "broker_event list" where
  "ex_offered = [RegisterRunner ex_runner, RegisterRequester ''main'',
     RequesterMessage 1 ''main'' (RequesterTaskRequest ''request'' ''javascript''),
     RunnerMessage 2 ''runner'' (RunnerTaskOffer ''offer'' ''javascript'' (-1))]"

definition ex_deferred :: "broker_event list" where
  "ex_deferred = ex_offered @ [RunnerMessage 3 ''runner'' (RunnerTaskDeferred (ex_nanoid 0)),
     RunnerMessage 4 ''runner'' (RunnerTaskOffer ''offer2'' ''javascript'' (-1)),
     RunnerMessage 5 ''runner'' (RunnerTaskAccepted (ex_nanoid 1)),
     RequesterMessage 6 ''main'' (RequesterTaskSettings (ex_nanoid 1) JNull),
     RunnerMessage 7 ''runner'' (RunnerTaskDone (ex_nanoid 1) JNull)]"



text \<open>C16: if requests have distinct names, a request is answered with at most one task, although
  runners may reject or defer it, time out, or accept it late.\<close>

theorem request_served_once:
  assumes "new_TaskBroker config = Inr b" "distinct (concat (map requested_ids es))"
  shows "readies rid (tb_outputs (broker_history nanoid config es b)) \<le> 1"
proof -
  have "requests_inv ({} \<union> set (concat (map requested_ids es))) (broker_history nanoid config es b)"
    by (rule history_requests_inv [OF new_TaskBroker_requests_inv [OF assms(1)] assms(2)]) simp
  then show ?thesis by (rule requests_invD(6))
qed

theorem request_served_once_witness:
  "readies ''request'' (tb_outputs (broker_history ex_nanoid ex_config (ex_deferred @
      [RunnerMessage 8 ''runner'' (RunnerTaskOffer ''offer3'' ''javascript'' (-1))]) ex_broker)) = 1"
proof -
  let ?es = "ex_deferred @ [RunnerMessage 8 ''runner'' (RunnerTaskOffer ''offer3'' ''javascript'' (-1))]"
  have "distinct (concat (map requested_ids ?es))" by code_simp
  from request_served_once [OF ex_broker_new this, of "''request''" ex_nanoid]
  have "readies ''request'' (tb_outputs (broker_history ex_nanoid ex_config ?es ex_broker)) \<le> 1" .
  moreover have "0 < readies ''request'' (tb_outputs (broker_history ex_nanoid ex_config ?es ex_broker))" by code_simp
  ultimately show ?thesis by simp
qed

text \<open>C17: when a runner that the broker knows accepts a task on which a call of acceptOffer
  still waits, the request of that call is found, the task exists and its requester, if connected, is told that it
  is ready; the branch for a request that is not found is never taken when requests have distinct names.\<close>

theorem accepted_task_announced:
  assumes "inj nanoid" "new_TaskBroker config = Inr b0" "distinct (concat (map requested_ids es))"
    "b = broker_history nanoid config es b0" "map_get (tb_accepting b) tid = Some (AwaitRunner offer rq)"
    "request_requesterId rq \<in> set (tb_requesters b)" "map_has (tb_knownRunners b) runnerId"
    "b' = onRunnerMessage nanoid now runnerId (RunnerTaskAccepted tid) b"
  shows "tb_outputs b' = tb_outputs b @ [SendRequester (request_requesterId rq) (TaskReady (request_id rq) tid)]
    \<and> map_get (tb_tasks b') tid = Some \<lparr>task_id = tid, task_runnerId = offer_runnerId offer,
        task_requesterId = request_requesterId rq, task_taskType = offer_taskType offer, task_timeout = False\<rparr>
    \<and> awaits_requester b' tid"
proof -
  have tasks: "tasks_inv nanoid b"
    unfolding assms(4) by (rule history_tasks_inv [OF assms(1) new_TaskBroker_inv [OF assms(2)]])
  have requests: "requests_inv ({} \<union> set (concat (map requested_ids es))) b"
    unfolding assms(4) by (rule history_requests_inv [OF new_TaskBroker_requests_inv [OF assms(2)] assms(3)]) simp
  have "b' = handleRunnerAccept tid b" using assms(7) by (simp add: assms(8) onRunnerMessage.simps)
  then show ?thesis using accept_announces [OF tasks requests assms(5,6)] by simp
qed

theorem accepted_task_announced_witness:
  "SendRequester ''main'' (TaskReady ''request'' (ex_nanoid 0)) \<in> set (tb_outputs (onRunnerMessage ex_nanoid 3 ''runner''
      (RunnerTaskAccepted (ex_nanoid 0)) (broker_history ex_nanoid ex_config ex_offered ex_broker)))"
proof -
  let ?b = "broker_history ex_nanoid ex_config ex_offered ex_broker"
  have c: "case map_get (tb_accepting ?b) (ex_nanoid 0) of Some (AwaitRunner offer rq) \<Rightarrow>
      request_requesterId rq = ''main'' \<and> request_id rq = ''request'' | _ \<Rightarrow> False"
    "''main'' \<in> set (tb_requesters ?b)" "map_has (tb_knownRunners ?b) ''runner''" "distinct (concat (map requested_ids ex_offered))"
    by code_simp+
  then obtain offer rq where acc: "map_get (tb_accepting ?b) (ex_nanoid 0) = Some (AwaitRunner offer rq)"
    "request_requesterId rq = ''main''" "request_id rq = ''request''"
    by (auto split: option.splits accept_call.splits)
  from accepted_task_announced [OF ex_nanoid_inj ex_broker_new c(4) refl acc(1) _ c(3) refl] show ?thesis
    using acc(2,3) c(2) by simp
qed

text \<open>C35: after requests and offers are settled, no request that is not in progress has an offer of
  its type left, and the offers that are left are old ones that have not expired.\<close>

theorem matching_complete:
  assumes "offer \<in> set (tb_pendingTaskOffers (settleTasks nanoid now b))"
  shows "offer \<in> set (tb_pendingTaskOffers b) \<and> (offer_validFor offer = -1 \<or> now \<le> offer_validUntil offer)
    \<and> (\<forall>request \<in> set (tb_pendingTaskRequests (settleTasks nanoid now b)).
         request_acceptInProgress request \<or> offer_taskType offer \<noteq> request_taskType request)"
  using settleTasks_offers [OF assms] settleTasks_served [OF _ _ assms] by blast

definition ex_python_offer :: TaskOffer where
  "ex_python_offer = \<lparr>offer_id = ''offer4'', offer_runnerId = ''runner'', offer_taskType = ''python'',
     offer_validFor = 100, offer_validUntil = 100\<rparr>"

theorem matching_complete_witness:
  "offer_taskType ex_python_offer \<noteq> request_taskType (hd (tb_pendingTaskRequests (settleTasks ex_nanoid 9
     ((broker_history ex_nanoid ex_config (take 3 ex_offered) ex_broker)\<lparr>tb_pendingTaskOffers := [ex_python_offer]\<rparr>))))"
proof -
  let ?b = "settleTasks ex_nanoid 9 ((broker_history ex_nanoid ex_config (take 3 ex_offered) ex_broker)
    \<lparr>tb_pendingTaskOffers := [ex_python_offer]\<rparr>)"
  have "ex_python_offer \<in> set (tb_pendingTaskOffers ?b)" by code_simp
  moreover have "tb_pendingTaskRequests ?b \<noteq> []" "\<not> request_acceptInProgress (hd (tb_pendingTaskRequests ?b))" by code_simp+
  ultimately show ?thesis using matching_complete [of ex_python_offer ex_nanoid 9] hd_in_set by blast
qed

text \<open>C36: disconnecting a runner removes it, its offers and its tasks and sends the error to the
  requesters of these tasks, in the order the tasks were created. Calls that still wait for the runner to accept are
  left as they are, although the code calls handleRunnerReject for every task: a task exists only after its runner
  accepted it.\<close>

theorem runner_disconnected:
  assumes "inj nanoid" "new_TaskBroker config = Inr b0" "b = broker_history nanoid config es b0"
  shows "deregisterRunner runnerId e b =
    b\<lparr>tb_knownRunners := map_delete runnerId (tb_knownRunners b),
      tb_pendingTaskOffers := filter (\<lambda>offer. offer_runnerId offer \<noteq> runnerId) (tb_pendingTaskOffers b),
      tb_tasks := filter (\<lambda>(tid, task). \<not> lost runnerId task) (tb_tasks b),
      tb_outputs := tb_outputs b @ failure_messages runnerId e b\<rparr>"
  unfolding assms(3) by (rule deregisterRunner_spec [OF history_tasks_inv [OF assms(1) new_TaskBroker_inv [OF assms(2)]]])

theorem runner_disconnected_witness:
  "tb_accepting (deregisterRunner ''runner'' ex_error (broker_history ex_nanoid ex_config ex_offered ex_broker)) =
     tb_accepting (broker_history ex_nanoid ex_config ex_offered ex_broker)
   \<and> tb_accepting (broker_history ex_nanoid ex_config ex_offered ex_broker) \<noteq> []"
proof -
  have "tb_accepting (broker_history ex_nanoid ex_config ex_offered ex_broker) \<noteq> []" by code_simp
  with runner_disconnected [OF ex_nanoid_inj ex_broker_new refl, of "''runner''" ex_error ex_offered]
  show ?thesis by simp
qed


section \<open>Extracting sub-workflows\<close>

text \<open>C19: a selection of nodes is accepted for extraction exactly if main connections enter it at no
  node but the returned start, which is a root of the selection if it has one, leave it at no node but the returned
  end, which is a leaf if there is one, and the end can be reached from the start inside the selection, although the
  search for the path also follows connections outside. The adjacency list has exactly the connections of the workflow.\<close>

theorem extraction_exact:
  assumes "[] \<notin> set ids"
  shows "(parseExtractableSubgraphSelection ids (buildAdjacencyList cs) = Inr \<lparr>subgraph_start = s, subgraph_end = e\<rparr>)
      = extractable (set ids) (buildAdjacencyList cs) s e
    \<and> ((a, b) \<in> main_links (buildAdjacencyList cs))
      = (\<exists>types c. (a, types) \<in> set cs \<and> c \<in> set (outgoing types) \<and> conn_type c = Main \<and> conn_node c = b)"
  using parse_iff [OF buildAdjacencyList_links(1) assms] buildAdjacencyList_main_links by blast

theorem extraction_exact_witness:
  "extractable {''a'', ''b''} (buildAdjacencyList ex_connections) (Some ''a'') (Some ''b'')"
proof -
  have "parseExtractableSubgraphSelection [''a'', ''b''] (buildAdjacencyList ex_connections) =
    Inr \<lparr>subgraph_start = Some ''a'', subgraph_end = Some ''b''\<rparr>" by code_simp
  with extraction_exact [of "[''a'', ''b'']" ex_connections "Some ''a''" "Some ''b''"] show ?thesis by simp
qed

section \<open>Task runners\<close>

definition ex_opts :: TaskRunnerOpts where
  "ex_opts = \<lparr>opt_name = None, opt_taskType = ''javascript'', opt_maxConcurrency = 1, opt_taskTimeout = 300, opt_idleTimeout = 0\<rparr>"

definition ex_runner_env :: runner_env where
  "ex_runner_env = \<lparr>re_nanoid = (\<lambda>n. ''offer'' @ ex_nanoid n), re_random = (\<lambda>_. 0), re_timeoutError = (\<lambda>_. JNull)\<rparr>"

text \<open>The broker offers a task to the runner and sends its settings; the runner gets both.\<close>

definition ex_configured :: "broker_event list" where
  "ex_configured = ex_offered @ [RunnerMessage 3 ''runner'' (RunnerTaskAccepted (ex_nanoid 0)),
     RequesterMessage 4 ''main'' (RequesterTaskSettings (ex_nanoid 0) JNull)]"

definition ex_runner_events :: "(int \<times> runner_event) list" where
  "ex_runner_events = [(0, FromBroker RunnerRegistered), (1, OfferTimer), (2, FromBroker (TaskOfferAccept (ex_nanoid 0) ''offer'')),
     (4, FromBroker (TaskSettings (ex_nanoid 0) JNull)), (5, TimeoutTimer 0), (6, ExecutionEnded 0 (Inr JNull))]"

text \<open>C34: in every history, whatever the broker sends, the open offers and the running tasks of a
  runner are together at most its maximal concurrency.\<close>

theorem runner_capacity:
  assumes "0 \<le> opt_maxConcurrency opts"
  shows "int (length (tr_openOffers (runner_history env es (new_Runner opts)))
    + length (tr_runningTasks (runner_history env es (new_Runner opts))))
    \<le> opt_maxConcurrency (tr_opts (runner_history env es (new_Runner opts)))"
  using runner_history_capacity [OF new_Runner_capacity [OF assms]] by (simp add: within_capacity_def)

theorem runner_capacity_witness:
  "length (tr_openOffers (runner_history ex_runner_env (take 4 ex_runner_events) (new_Runner ex_opts)))
    + length (tr_runningTasks (runner_history ex_runner_env (take 4 ex_runner_events) (new_Runner ex_opts))) = 1"
proof -
  let ?r = "runner_history ex_runner_env (take 4 ex_runner_events) (new_Runner ex_opts)"
  have "0 \<le> opt_maxConcurrency ex_opts" "opt_maxConcurrency (tr_opts ?r) = 1" "length (tr_runningTasks ?r) = 1" by code_simp+
  with runner_capacity [of ex_opts ex_runner_env "take 4 ex_runner_events"] show ?thesis by simp
qed

text \<open>C18: a runner that gets the messages which a broker sent to it, in that order, while its
  timers fire and its tasks end at any time, sends at most one result or error for a task, none while the task runs,
  and never finds a task in a status that its code treats as unexpected.\<close>

theorem runner_follows_broker:
  assumes "inj nanoid" "new_TaskBroker config = Inr b" "r = runner_history env es (new_Runner opts)"
    "inbox runnerId (tb_outputs (broker_history nanoid config bes b)) = concat (map received es) @ rest"
  shows "answers tid (tr_outputs r) \<le> 1 \<and> list_all (\<lambda>x. \<not> is_unexpected x) (tr_outputs r)
    \<and> \<not> (map_has (tr_runningTasks r) tid \<and> 0 < answers tid (tr_outputs r))"
proof -
  have "protocol_inv nanoid (broker_history nanoid config bes b)"
    by (rule history_protocol_inv [OF assms(1) new_TaskBroker_protocol_inv [OF assms(2)]])
  from runner_with_broker [OF this assms(4), of env opts] have "running_ok r" "\<exists>A. answers_ok A r"
    by (auto simp: runner_inv_def assms(3))
  moreover from this(1) have "\<not> (map_has (tr_runningTasks r) tid \<and> 0 < answers tid (tr_outputs r))"
    by (fastforce simp: running_ok_def map_has_def)
  ultimately show ?thesis unfolding answers_ok_def by blast
qed

theorem runner_follows_broker_witness:
  "answers (ex_nanoid 0) (tr_outputs (runner_history ex_runner_env ex_runner_events (new_Runner ex_opts))) = 1"
proof -
  have "inbox ''runner'' (tb_outputs (broker_history ex_nanoid ex_config ex_configured ex_broker)) = concat (map received ex_runner_events) @ []"
    by code_simp
  from runner_follows_broker [OF ex_nanoid_inj ex_broker_new refl this, of "ex_nanoid 0" ex_runner_env ex_opts]
  have "answers (ex_nanoid 0) (tr_outputs (runner_history ex_runner_env ex_runner_events (new_Runner ex_opts))) \<le> 1" by blast
  moreover have "0 < answers (ex_nanoid 0) (tr_outputs (runner_history ex_runner_env ex_runner_events (new_Runner ex_opts)))" by code_simp
  ultimately show ?thesis by simp
qed

end
